(* ===== verification/Prelude.thy ===== *)
theory Prelude
  imports Main "HOL-Library.Monad_Syntax" "HOL-Library.Word"
begin

text \<open>
  The shared base of the development.

  \<^item> The result of an operation that can stop the process (a failed \<open>assert\<close>, a call of
    \<open>abort()\<close>, or an access the C++ language leaves undefined) is an \<open>option\<close>: \<open>None\<close> is the
    process stopping, \<open>Some\<close> is the normal return. The project is built without \<open>NDEBUG\<close>
    (\<open>src/CMakeLists.txt\<close>), so \<open>assert\<close> is live.
  \<^item> A C++ \<open>char\<close> is a HOL \<open>char\<close> (8 bits), a byte string or \<open>std::string\<close> a \<open>string\<close>.
  \<^item> \<open>size_t\<close> quantities are \<open>nat\<close>; where a narrower cast is made by the code the wrap-around
    is written out with \<open>to_int32\<close>, \<open>to_uint16\<close> and so on.
  \<^item> The decimal and hexadecimal conversions of \<open>printf\<close>, the standard-library searches
    \<open>std::search\<close> and \<open>std::find\<close>, and copying into a vector are defined here once.
  \<^item> The locale \<open>transition_system\<close> gives the invariant rule the step relations share.
\<close>

named_theorems abort_simps \<open>equations that push \<open>assertc\<close> and binding through a proof\<close>

section \<open>Results that may stop the process\<close>

definition assertc :: "bool \<Rightarrow> unit option" where
  "assertc b = (if b then Some () else None)"

lemma assertc_Some [simp]: "assertc b = Some u \<longleftrightarrow> b"
  by (simp add: assertc_def)

lemma assertc_None [simp]: "assertc b = None \<longleftrightarrow> \<not> b"
  by (simp add: assertc_def)

lemma assertc_bind [abort_simps]: "assertc b \<bind> f = (if b then f () else None)"
  by (simp add: assertc_def)

lemma bind_Some_iff: "m \<bind> f = Some y \<longleftrightarrow> (\<exists>x. m = Some x \<and> f x = Some y)"
  by (cases m) auto

text \<open>
  Where the reason matters (the timer queue), the stop is a value of \<open>fault\<close> in a sum.
\<close>

datatype fault = AssertFailed | UseAfterFree | DoubleFree | BadAlloc | PastEnd

type_synonym 'a res = "fault + 'a"

definition and_then :: "'a res \<Rightarrow> ('a \<Rightarrow> 'b res) \<Rightarrow> 'b res" where
  "and_then m f = (case m of Inl e \<Rightarrow> Inl e | Inr x \<Rightarrow> f x)"

lemma and_then_Inr [simp]: "and_then (Inr x) f = f x"
  by (simp add: and_then_def)

lemma and_then_Inl [simp]: "and_then (Inl e) f = Inl e"
  by (simp add: and_then_def)

lemma and_then_eq_Inr: "and_then m f = Inr y \<longleftrightarrow> (\<exists>x. m = Inr x \<and> f x = Inr y)"
  by (cases m) simp_all

lemma and_then_eq_Inl: "and_then m f = Inl e \<longleftrightarrow> m = Inl e \<or> (\<exists>x. m = Inr x \<and> f x = Inl e)"
  by (cases m) auto

section \<open>Vectors of characters\<close>

text \<open>\<open>std::copy\<close>/\<open>memcpy\<close> of \<open>s\<close> to position \<open>i\<close> of a vector that is large enough.\<close>

definition overwrite :: "nat \<Rightarrow> 'a list \<Rightarrow> 'a list \<Rightarrow> 'a list" where
  "overwrite i s xs = take i xs @ s @ drop (i + length s) xs"

lemma length_overwrite [simp]:
  "i + length s \<le> length xs \<Longrightarrow> length (overwrite i s xs) = length xs"
  by (simp add: overwrite_def)

lemma take_overwrite [simp]: "i \<le> length xs \<Longrightarrow> take i (overwrite i s xs) = take i xs"
  by (simp add: overwrite_def)

lemma take_overwrite_end:
  "i \<le> length xs \<Longrightarrow> take (i + length s) (overwrite i s xs) = take i xs @ s"
  by (simp add: overwrite_def)

text \<open>The half-open range \<open>[i, j)\<close> of a vector.\<close>

definition slice :: "nat \<Rightarrow> nat \<Rightarrow> 'a list \<Rightarrow> 'a list" where
  "slice i j xs = take (j - i) (drop i xs)"

lemma length_slice [simp]: "j \<le> length xs \<Longrightarrow> length (slice i j xs) = j - i"
  by (simp add: slice_def)

lemma slice_same [simp]: "slice i i xs = []"
  by (simp add: slice_def)

lemma slice_drop: "slice (i + n) j xs = drop n (slice i j xs)"
  by (simp add: slice_def drop_take add.commute)

lemma slice_take: "i + n \<le> j \<Longrightarrow> slice i (i + n) xs = take n (slice i j xs)"
  by (simp add: slice_def min_def)

lemma drop_take_slice: "drop i (take j xs) = slice i j xs"
  by (simp add: slice_def drop_take)

lemma slice_overwrite_end:
  assumes "i \<le> k" "k + length s \<le> length xs"
  shows "slice i (k + length s) (overwrite k s xs) = slice i k xs @ s"
proof -
  have "slice i (k + length s) (overwrite k s xs) = drop i (take (k + length s) (overwrite k s xs))"
    by (simp add: drop_take_slice)
  also have "\<dots> = drop i (take k xs @ s)"
    using assms by (simp add: take_overwrite_end)
  also have "\<dots> = slice i k xs @ s"
    using assms by (simp add: drop_take_slice)
  finally show ?thesis .
qed

section \<open>Standard-library searches\<close>

text \<open>
  \<open>std::search\<close> over a whole range: the offset of the first occurrence of the pattern, or
  the length of the range (its end iterator).
\<close>

definition is_prefix :: "'a list \<Rightarrow> 'a list \<Rightarrow> bool" where
  "is_prefix p xs = (take (length p) xs = p)"

fun search :: "'a list \<Rightarrow> 'a list \<Rightarrow> nat" where
  "search p [] = 0"
| "search p (x # xs) = (if is_prefix p (x # xs) then 0 else Suc (search p xs))"

lemma search_le [simp]: "search p xs \<le> length xs"
  by (induction xs) auto

lemma search_found:
  "p \<noteq> [] \<Longrightarrow> search p xs < length xs \<Longrightarrow> is_prefix p (drop (search p xs) xs)"
  by (induction xs) auto

lemma search_least: "i < search p xs \<Longrightarrow> \<not> is_prefix p (drop i xs)"
proof (induction xs arbitrary: i)
  case Nil
  then show ?case by simp
next
  case (Cons x xs)
  then show ?case by (cases i) (auto split: if_splits)
qed

lemma search_found_length:
  assumes "p \<noteq> []" "search p xs < length xs"
  shows "search p xs + length p \<le> length xs"
proof -
  have "length (take (length p) (drop (search p xs) xs)) = length p"
    using search_found [OF assms] by (simp add: is_prefix_def)
  then show ?thesis using assms by (simp add: min_def split: if_splits)
qed

lemma search_notfound:
  assumes "search p xs = length xs" "i + length p \<le> length xs" "p \<noteq> []"
  shows "take (length p) (drop i xs) \<noteq> p"
  using search_least [of i p xs] assms by (cases p) (auto simp: is_prefix_def)

text \<open>\<open>std::find\<close>: the offset of the first occurrence of a character, or the length.\<close>

fun find_char :: "'a \<Rightarrow> 'a list \<Rightarrow> nat" where
  "find_char c [] = 0"
| "find_char c (x # xs) = (if x = c then 0 else Suc (find_char c xs))"

lemma find_char_le [simp]: "find_char c xs \<le> length xs"
  by (induction xs) auto

lemma find_char_nth: "find_char c xs < length xs \<Longrightarrow> xs ! find_char c xs = c"
  by (induction xs) auto

lemma find_char_notin: "c \<notin> set (take (find_char c xs) xs)"
  by (induction xs) auto

lemma find_char_eq_length: "find_char c xs = length xs \<longleftrightarrow> c \<notin> set xs"
  by (induction xs) auto

lemma find_char_append: "c \<notin> set xs \<Longrightarrow> find_char c (xs @ c # ys) = length xs"
  by (induction xs) auto

section \<open>Decimal and hexadecimal printing\<close>

definition digit :: "nat \<Rightarrow> char" where
  "digit d = char_of (48 + d)"

fun show_nat :: "nat \<Rightarrow> string" where
  "show_nat n = (if n < 10 then [digit n] else show_nat (n div 10) @ [digit (n mod 10)])"

declare show_nat.simps [simp del]

definition show_int :: "int \<Rightarrow> string" where
  "show_int i = (if i < 0 then CHR ''-'' # show_nat (nat (- i)) else show_nat (nat i))"

text \<open>The conversion \<open>%0wd\<close> of a value that is not negative.\<close>

definition zero_pad :: "nat \<Rightarrow> nat \<Rightarrow> string" where
  "zero_pad w n = replicate (w - length (show_nat n)) (CHR ''0'') @ show_nat n"

definition dec_val :: "string \<Rightarrow> nat" where
  "dec_val = foldl (\<lambda>a c. 10 * a + (of_char c - 48)) 0"

lemma of_char_digit: "d < 10 \<Longrightarrow> (of_char (digit d) :: nat) = 48 + d"
  by (simp add: digit_def of_char_of)

lemma dec_val_snoc: "dec_val (s @ [c]) = 10 * dec_val s + (of_char c - 48)"
  by (simp add: dec_val_def)

lemma dec_val_show_nat [simp]: "dec_val (show_nat n) = n"
proof (induction n rule: show_nat.induct)
  case (1 n)
  show ?case
  proof (cases "n < 10")
    case True
    then show ?thesis
      by (subst show_nat.simps) (simp add: dec_val_def of_char_digit)
  next
    case False
    with 1 have "dec_val (show_nat (n div 10)) = n div 10" by simp
    with False show ?thesis
      by (subst show_nat.simps) (simp add: dec_val_snoc of_char_digit)
  qed
qed

lemma show_nat_inject [simp]: "show_nat m = show_nat n \<longleftrightarrow> m = n"
  by (metis dec_val_show_nat)

definition is_digit :: "char \<Rightarrow> bool" where
  "is_digit c \<longleftrightarrow> 48 \<le> (of_char c :: nat) \<and> (of_char c :: nat) < 58"

lemma show_nat_digits: "c \<in> set (show_nat n) \<Longrightarrow> is_digit c"
proof (induction n rule: show_nat.induct)
  case (1 n)
  have d: "is_digit (digit (n mod 10))"
    by (simp add: is_digit_def of_char_digit)
  show ?case
  proof (cases "n < 10")
    case True
    with 1 d show ?thesis by (subst (asm) show_nat.simps) simp
  next
    case False
    with 1 d show ?thesis by (subst (asm) (2) show_nat.simps) auto
  qed
qed

lemma length_show_nat_pos [simp]: "show_nat n \<noteq> []"
  by (subst show_nat.simps) simp

lemma length_show_nat: "n < 10 ^ k \<Longrightarrow> 0 < k \<Longrightarrow> length (show_nat n) \<le> k"
proof (induction k arbitrary: n)
  case 0
  then show ?case by simp
next
  case (Suc k)
  show ?case
  proof (cases "n < 10")
    case True
    then show ?thesis by (subst show_nat.simps) simp
  next
    case False
    with Suc.prems have k: "0 < k" by (cases k) auto
    have "n div 10 < 10 ^ k"
      using Suc.prems(1) by (simp add: less_mult_imp_div_less mult.commute)
    with Suc.IH k have "length (show_nat (n div 10)) \<le> k" by blast
    with False show ?thesis by (subst show_nat.simps) simp
  qed
qed

lemma dec_val_zeros: "dec_val (replicate k (CHR ''0'') @ s) = dec_val s"
  by (simp add: dec_val_def foldl_append) (induction k; simp)

lemma dec_val_zero_pad [simp]: "dec_val (zero_pad w n) = n"
  by (simp add: zero_pad_def dec_val_zeros)

lemma length_zero_pad [simp]: "0 < w \<Longrightarrow> n < 10 ^ w \<Longrightarrow> length (zero_pad w n) = w"
  using length_show_nat [of n w] by (simp add: zero_pad_def)

lemma dec_val_bound: "(\<And>c. c \<in> set s \<Longrightarrow> is_digit c) \<Longrightarrow> dec_val s < 10 ^ length s"
proof (induction s rule: rev_induct)
  case Nil
  then show ?case by (simp add: dec_val_def)
next
  case (snoc c s)
  then have "dec_val s < 10 ^ length s" "is_digit c" by auto
  then have "dec_val s + 1 \<le> 10 ^ length s" "of_char c - 48 < (10::nat)" by (auto simp: is_digit_def)
  then show ?case by (simp add: dec_val_snoc)
qed

text \<open>\<open>%0wd\<close> counts the minus sign in the width.\<close>

definition zero_pad_int :: "nat \<Rightarrow> int \<Rightarrow> string" where
  "zero_pad_int w i = (if i < 0 then CHR ''-'' # zero_pad (w - 1) (nat (- i)) else zero_pad w (nat i))"

text \<open>C++ integer division and remainder truncate towards zero.\<close>

definition cdiv :: "int \<Rightarrow> int \<Rightarrow> int" where
  "cdiv a b = sgn a * sgn b * (\<bar>a\<bar> div \<bar>b\<bar>)"

definition cmod :: "int \<Rightarrow> int \<Rightarrow> int" where
  "cmod a b = a - cdiv a b * b"

lemma cdiv_nonneg [simp]: "0 \<le> a \<Longrightarrow> 0 < b \<Longrightarrow> cdiv a b = a div b"
  by (cases "a = 0") (simp_all add: cdiv_def)

lemma cmod_nonneg [simp]: "0 \<le> a \<Longrightarrow> 0 < b \<Longrightarrow> cmod a b = a mod b"
  by (simp add: cmod_def minus_div_mult_eq_mod)

definition hex_digit :: "nat \<Rightarrow> char" where
  "hex_digit d = ''0123456789ABCDEF'' ! d"

section \<open>Casts\<close>

definition to_int32 :: "int \<Rightarrow> int" where
  "to_int32 n = (n + 2 ^ 31) mod 2 ^ 32 - 2 ^ 31"

definition to_uint16 :: "nat \<Rightarrow> nat" where
  "to_uint16 n = n mod 65536"

lemma to_int32_id [simp]: "- (2 ^ 31) \<le> n \<Longrightarrow> n < 2 ^ 31 \<Longrightarrow> to_int32 n = n"
  by (simp add: to_int32_def)

lemma to_int32_bounds: "- (2 ^ 31) \<le> to_int32 n \<and> to_int32 n < 2 ^ 31"
  by (simp add: to_int32_def)

lemma to_uint16_id [simp]: "n < 65536 \<Longrightarrow> to_uint16 n = n"
  by (simp add: to_uint16_def)

section \<open>Invariants of step relations\<close>

locale transition_system =
  fixes start :: "'s \<Rightarrow> bool"
    and step :: "'s \<Rightarrow> 's \<Rightarrow> bool"
    and inv :: "'s \<Rightarrow> bool"
  assumes inv_start: "start s \<Longrightarrow> inv s"
    and inv_step: "step s t \<Longrightarrow> inv s \<Longrightarrow> inv t"
begin

lemma inv_steps: "step\<^sup>*\<^sup>* s t \<Longrightarrow> inv s \<Longrightarrow> inv t"
  by (induction rule: rtranclp_induct) (auto intro: inv_step)

lemma inv_reachable: "start s \<Longrightarrow> step\<^sup>*\<^sup>* s t \<Longrightarrow> inv t"
  using inv_start inv_steps by blast

end

end
