(* ===== verification/Buffer.thy ===== *)
theory Buffer
  imports Prelude
begin

text \<open>
  \<open>matelib/Buffer.h\<close>, \<open>matelib/Buffer.cc\<close> and \<open>matelib/StringPiece.h\<close>: the growable byte
  buffer with a read and a write index. A pointer into the buffer is the index it points to;
  \<open>nullptr\<close> is \<open>None\<close>. The abstraction of a buffer is its readable content, a string; the locale
  \<open>byte_queue\<close> is the contract its clients (connections, the serializer, the HTTP parser) use.
\<close>

section \<open>StringPiece\<close>

text \<open>
  The bytes at \<open>data_\<close> are the memory from the pointer on; a null pointer is \<open>None\<close>. A C string
  ends at its first NUL, so \<open>strlen\<close> is the length of \<open>c_string\<close>.
\<close>

definition c_string :: "string \<Rightarrow> string" where
  "c_string mem = takeWhile (\<lambda>c. c \<noteq> CHR 0x00) mem"

(* src/matelib/StringPiece.h:38-41 StringPiece *)
record string_piece =
  sp_data :: "string option"
  sp_length :: nat

(* src/matelib/StringPiece.h:17-19 StringPiece::StringPiece() *)
definition sp_null :: string_piece where
  "sp_null = \<lparr>sp_data = None, sp_length = 0\<rparr>"

(* src/matelib/StringPiece.h:20-22 StringPiece::StringPiece(const char* p) *)
definition sp_of_cstr :: "string \<Rightarrow> string_piece" where
  "sp_of_cstr mem = \<lparr>sp_data = Some mem, sp_length = length (c_string mem)\<rparr>"

(* src/matelib/StringPiece.h:23-25 StringPiece::StringPiece(const char*, size_t) *)
definition sp_of_range :: "string \<Rightarrow> nat \<Rightarrow> string_piece" where
  "sp_of_range mem len = \<lparr>sp_data = Some mem, sp_length = len\<rparr>"

(* src/matelib/StringPiece.h:26-28 StringPiece::StringPiece(const std::string&) *)
definition sp_of_string :: "string \<Rightarrow> string_piece" where
  "sp_of_string str = \<lparr>sp_data = Some str, sp_length = length str\<rparr>"

(* src/matelib/StringPiece.h:32-32 StringPiece::clear *)
definition sp_clear :: "string_piece \<Rightarrow> string_piece" where
  "sp_clear p = p\<lparr>sp_data := None, sp_length := 0\<rparr>"

text \<open>\<open>std::string(data_, length_)\<close>: undefined when the range runs past the memory.\<close>

(* src/matelib/StringPiece.h:34-36 StringPiece::asString *)
definition sp_asString :: "string_piece \<Rightarrow> string option" where
  "sp_asString p =
     (case sp_data p of
        None \<Rightarrow> if sp_length p = 0 then Some [] else None
      | Some mem \<Rightarrow> if sp_length p \<le> length mem then Some (take (sp_length p) mem) else None)"

section \<open>Buffer: state and construction\<close>

(* src/matelib/Buffer.h:24-24 Buffer::kCheapPrepend *)
definition kCheapPrepend :: nat where "kCheapPrepend = 8"

(* src/matelib/Buffer.h:25-25 Buffer::kInitialSize *)
definition kInitialSize :: nat where "kInitialSize = 1024"

(* src/matelib/Buffer.cc:12-12 Buffer::kCRLF *)
definition kCRLF :: string where "kCRLF = [CHR 0x0D, CHR 0x0A]"

(* src/matelib/Buffer.h:189-193 Buffer *)
record buffer =
  bufvec :: string
  readIndex :: nat
  writeIndex :: nat

definition vec_new :: "nat \<Rightarrow> string" where
  "vec_new n = replicate n (CHR 0x00)"

definition vec_resize :: "nat \<Rightarrow> string \<Rightarrow> string" where
  "vec_resize n xs = take n xs @ replicate (n - length xs) (CHR 0x00)"

(* src/matelib/Buffer.h:63-65 Buffer::readableBytes *)
definition readableBytes :: "buffer \<Rightarrow> nat" where
  "readableBytes b = writeIndex b - readIndex b"

(* src/matelib/Buffer.h:66-68 Buffer::writeableBytes *)
definition writeableBytes :: "buffer \<Rightarrow> nat" where
  "writeableBytes b = length (bufvec b) - writeIndex b"

(* src/matelib/Buffer.h:69-71 Buffer::prependableBytes *)
definition prependableBytes :: "buffer \<Rightarrow> nat" where
  "prependableBytes b = readIndex b"

(* src/matelib/Buffer.h:73-78 Buffer::data *)
definition data_ptr :: "buffer \<Rightarrow> nat" where
  "data_ptr b = kCheapPrepend"

(* src/matelib/Buffer.h:79-81 Buffer::peek *)
definition peek :: "buffer \<Rightarrow> nat" where
  "peek b = readIndex b"

(* src/matelib/Buffer.h:83-89 Buffer::beginWrite *)
definition beginWrite :: "buffer \<Rightarrow> nat" where
  "beginWrite b = writeIndex b"

(* src/matelib/Buffer.cc:53-76 Buffer::ensureWritableBytes *)
definition ensureWritableBytes :: "buffer \<Rightarrow> nat \<Rightarrow> buffer option" where
  "ensureWritableBytes b len =
     (if writeableBytes b < len then
        if writeableBytes b + prependableBytes b < len + kCheapPrepend then
          Some (b\<lparr>bufvec := vec_resize (writeIndex b + len) (bufvec b)\<rparr>)
        else do {
          assertc (kCheapPrepend < readIndex b);
          let readable = readableBytes b;
          let b1 = b\<lparr>bufvec := overwrite kCheapPrepend
                       (slice (readIndex b) (writeIndex b) (bufvec b)) (bufvec b)\<rparr>;
          let b2 = b1\<lparr>readIndex := kCheapPrepend, writeIndex := kCheapPrepend + readable\<rparr>;
          assertc (readable = readableBytes b2);
          Some b2
        }
      else Some b)"

(* src/matelib/Buffer.h:150-158 Buffer::append *)
definition append :: "buffer \<Rightarrow> string \<Rightarrow> buffer option" where
  "append b s = do {
     b1 \<leftarrow> ensureWritableBytes b (length s);
     Some (b1\<lparr>bufvec := overwrite (beginWrite b1) s (bufvec b1),
              writeIndex := writeIndex b1 + length s\<rparr>)
   }"

(* src/matelib/Buffer.h:147-149 Buffer::append(StringPiece) *)
definition append_piece :: "buffer \<Rightarrow> string_piece \<Rightarrow> buffer option" where
  "append_piece b p = do { s \<leftarrow> sp_asString p; append b s }"

(* src/matelib/Buffer.h:27-32 Buffer::Buffer() *)
definition buffer_new :: buffer where
  "buffer_new = \<lparr>bufvec = vec_new (kCheapPrepend + kInitialSize),
                 readIndex = kCheapPrepend, writeIndex = kCheapPrepend\<rparr>"

(* src/matelib/Buffer.h:33-40 Buffer::Buffer(const Buffer&) *)
definition buffer_copy :: "buffer \<Rightarrow> buffer option" where
  "buffer_copy rhs =
     append \<lparr>bufvec = vec_new (kCheapPrepend + kInitialSize + readableBytes rhs),
             readIndex = kCheapPrepend, writeIndex = kCheapPrepend\<rparr>
            (slice (peek rhs) (peek rhs + readableBytes rhs) (bufvec rhs))"

text \<open>\<open>swap\<close> returns the pair (this, rhs) after the exchange.\<close>

(* src/matelib/Buffer.h:57-61 Buffer::swap *)
definition buffer_swap :: "buffer \<Rightarrow> buffer \<Rightarrow> buffer \<times> buffer" where
  "buffer_swap b rhs =
     (b\<lparr>bufvec := bufvec rhs, readIndex := readIndex rhs, writeIndex := writeIndex rhs\<rparr>,
      rhs\<lparr>bufvec := bufvec b, readIndex := readIndex b, writeIndex := writeIndex b\<rparr>)"

(* src/matelib/Buffer.h:41-48 Buffer::Buffer(Buffer&&) *)
definition buffer_move :: "buffer \<Rightarrow> buffer \<times> buffer" where
  "buffer_move rhs = buffer_swap buffer_new rhs"

(* src/matelib/Buffer.h:49-55 Buffer::Buffer(const char*, size_t) *)
definition buffer_of_range :: "string \<Rightarrow> buffer option" where
  "buffer_of_range s = append buffer_new s"

section \<open>Searching\<close>

text \<open>The readable content: the bytes between the two indices.\<close>

definition content :: "buffer \<Rightarrow> string" where
  "content b = slice (readIndex b) (writeIndex b) (bufvec b)"

(* src/matelib/Buffer.h:105-111 Buffer::findStr *)
definition findStr :: "buffer \<Rightarrow> string \<Rightarrow> nat option option" where
  "findStr b p = do {
     assertc (length p \<le> readableBytes b);
     let res = peek b + search p (slice (peek b) (beginWrite b) (bufvec b));
     Some (if res = beginWrite b then None else Some res)
   }"

(* src/matelib/Buffer.h:91-93 Buffer::findc *)
definition findc :: "buffer \<Rightarrow> char \<Rightarrow> nat option option" where
  "findc b c = findStr b [c]"

(* src/matelib/Buffer.h:94-97 Buffer::findCRLF *)
definition findCRLF :: "buffer \<Rightarrow> nat option" where
  "findCRLF b =
     (let crlf = peek b + search kCRLF (slice (peek b) (beginWrite b) (bufvec b))
      in if crlf = beginWrite b then None else Some crlf)"

(* src/matelib/Buffer.h:98-104 Buffer::findCRLF(const char* p) *)
definition findCRLF_from :: "buffer \<Rightarrow> nat \<Rightarrow> nat option option" where
  "findCRLF_from b st = do {
     assertc (peek b \<le> st);
     assertc (st \<le> beginWrite b);
     let crlf = st + search kCRLF (slice st (beginWrite b) (bufvec b));
     Some (if crlf = beginWrite b then None else Some crlf)
   }"

section \<open>Consuming\<close>

(* src/matelib/Buffer.h:131-135 Buffer::retrieveAll *)
definition retrieveAll :: "buffer \<Rightarrow> buffer" where
  "retrieveAll b = b\<lparr>readIndex := kCheapPrepend, writeIndex := kCheapPrepend\<rparr>"

(* src/matelib/Buffer.h:114-123 Buffer::retrieve *)
definition retrieve :: "buffer \<Rightarrow> nat \<Rightarrow> buffer option" where
  "retrieve b n = do {
     assertc (n \<le> readableBytes b);
     Some (if n < readableBytes b then b\<lparr>readIndex := readIndex b + n\<rparr> else retrieveAll b)
   }"

(* src/matelib/Buffer.h:124-130 Buffer::retrieveUntil *)
definition retrieveUntil :: "buffer \<Rightarrow> nat \<Rightarrow> buffer option" where
  "retrieveUntil b e = do {
     assertc (peek b \<le> e);
     assertc (e \<le> beginWrite b);
     retrieve b (e - peek b)
   }"

(* src/matelib/Buffer.h:136-142 Buffer::retrieveAsString *)
definition retrieveAsString :: "buffer \<Rightarrow> nat \<Rightarrow> (buffer \<times> string) option" where
  "retrieveAsString b n = do {
     assertc (n \<le> readableBytes b);
     let result = slice (peek b) (peek b + n) (bufvec b);
     b1 \<leftarrow> retrieve b n;
     Some (b1, result)
   }"

(* src/matelib/Buffer.h:143-145 Buffer::retrieveAllAsString *)
definition retrieveAllAsString :: "buffer \<Rightarrow> (buffer \<times> string) option" where
  "retrieveAllAsString b = retrieveAsString b (readableBytes b)"

(* src/matelib/Buffer.h:160-174 Buffer::erase(const char*, size_t) *)
definition erase :: "buffer \<Rightarrow> nat \<Rightarrow> nat \<Rightarrow> buffer option" where
  "erase b st len = do {
     assertc (peek b \<le> st);
     assertc (st + len \<le> beginWrite b);
     if st = peek b then retrieve b len
     else Some (b\<lparr>bufvec := take st (bufvec b) @ drop (st + len) (bufvec b),
                  writeIndex := writeIndex b - len\<rparr>)
   }"

text \<open>A range that ends before it starts makes the unsigned length wrap: undefined.\<close>

(* src/matelib/Buffer.h:175-177 Buffer::erase(const char* p, const char* q) *)
definition erase_range :: "buffer \<Rightarrow> nat \<Rightarrow> nat \<Rightarrow> buffer option" where
  "erase_range b st e = (if e < st then None else erase b st (e - st))"

(* src/matelib/Buffer.h:179-182 Buffer::clear *)
definition clear :: "buffer \<Rightarrow> buffer" where
  "clear b = retrieveAll
     (b\<lparr>bufvec := overwrite (data_ptr b) (vec_new (writeIndex b - kCheapPrepend)) (bufvec b)\<rparr>)"

section \<open>Reading from a descriptor\<close>

text \<open>
  The result of \<open>readv\<close> is an input of the model: an error number, or the bytes the kernel
  delivered. The kernel never delivers more than the two areas hold (the writable tail and
  64 KiB), which is the only fact about it used; a longer answer has no behaviour (\<open>None\<close>).
  \<open>readFd\<close> returns the buffer, the return value, and the value stored in \<open>*savedErrno\<close>.
\<close>

datatype read_result = ReadError int | ReadBytes string

(* src/matelib/Buffer.cc:23-23 extrabuf *)
definition extrabuf_size :: nat where "extrabuf_size = 65536"

(* src/matelib/Buffer.cc:18-51 Buffer::readFd *)
definition readFd :: "buffer \<Rightarrow> read_result \<Rightarrow> (buffer \<times> int \<times> int option) option" where
  "readFd b r =
     (case r of
        ReadError e \<Rightarrow> Some (b, -1, Some e)
      | ReadBytes s \<Rightarrow>
          let writable = writeableBytes b; n = length s in
          if writable + extrabuf_size < n then None
          else
            let b1 = b\<lparr>bufvec := overwrite (writeIndex b) (take writable s) (bufvec b)\<rparr> in
            if n \<le> writable then Some (b1\<lparr>writeIndex := writeIndex b1 + n\<rparr>, int n, None)
            else do {
              b2 \<leftarrow> append (b1\<lparr>writeIndex := length (bufvec b1)\<rparr>) (drop writable s);
              Some (b2, int n, None)
            })"

section \<open>Invariant and abstraction\<close>

definition buffer_inv :: "buffer \<Rightarrow> bool" where
  "buffer_inv b \<longleftrightarrow> kCheapPrepend \<le> readIndex b \<and> readIndex b \<le> writeIndex b \<and>
     writeIndex b \<le> length (bufvec b)"

lemmas buffer_basics = readableBytes_def writeableBytes_def prependableBytes_def peek_def
  beginWrite_def data_ptr_def buffer_inv_def

lemma length_content: "buffer_inv b \<Longrightarrow> length (content b) = readableBytes b"
  by (simp add: content_def buffer_basics)

lemma buffer_new_inv [simp]: "buffer_inv buffer_new"
  by (simp add: buffer_basics buffer_new_def vec_new_def)

lemma buffer_new_content [simp]: "content buffer_new = []"
  by (simp add: content_def buffer_new_def)

lemma retrieveAll_inv [simp]: "buffer_inv b \<Longrightarrow> buffer_inv (retrieveAll b)"
  by (auto simp: buffer_basics retrieveAll_def)

lemma retrieveAll_content [simp]: "content (retrieveAll b) = []"
  by (simp add: content_def retrieveAll_def)

lemma length_vec_resize [simp]: "length (vec_resize n xs) = n"
  by (simp add: vec_resize_def)

lemma slice_vec_resize:
  "j \<le> length xs \<Longrightarrow> length xs \<le> n \<Longrightarrow> slice i j (vec_resize n xs) = slice i j xs"
  by (simp add: slice_def vec_resize_def)

text \<open>
  \<open>ensureWritableBytes\<close> always succeeds on a valid buffer (its two assertions hold), makes room
  and keeps the content.
\<close>

lemma ensureWritableBytes_ok:
  assumes inv: "buffer_inv b"
  shows "\<exists>b'. ensureWritableBytes b len = Some b' \<and> buffer_inv b' \<and> content b' = content b \<and>
           len \<le> writeableBytes b' \<and>
           length (bufvec b') = (if writeableBytes b + prependableBytes b < len + kCheapPrepend
              then max (length (bufvec b)) (writeIndex b + len) else length (bufvec b))"
proof (cases "writeableBytes b < len")
  case False
  with inv show ?thesis
    by (auto simp: ensureWritableBytes_def buffer_basics)
next
  case need: True
  show ?thesis
  proof (cases "writeableBytes b + prependableBytes b < len + kCheapPrepend")
    case True
    with need inv show ?thesis
      by (auto simp: ensureWritableBytes_def buffer_basics content_def slice_vec_resize)
  next
    case False
    let ?r = "writeIndex b - readIndex b"
    let ?v = "overwrite kCheapPrepend (slice (readIndex b) (writeIndex b) (bufvec b)) (bufvec b)"
    from False need inv have r: "kCheapPrepend < readIndex b"
      by (simp add: buffer_basics)
    with inv have len_v: "length ?v = length (bufvec b)"
      by (subst length_overwrite) (auto simp: buffer_basics)
    have "slice kCheapPrepend (kCheapPrepend + length (slice (readIndex b) (writeIndex b) (bufvec b))) ?v
        = slice kCheapPrepend kCheapPrepend (bufvec b) @ slice (readIndex b) (writeIndex b) (bufvec b)"
      by (rule slice_overwrite_end) (use r inv in \<open>auto simp: buffer_basics\<close>)
    with inv have sl: "slice kCheapPrepend (kCheapPrepend + ?r) ?v
        = slice (readIndex b) (writeIndex b) (bufvec b)"
      by (simp add: buffer_basics)
    let ?b = "b\<lparr>bufvec := ?v, readIndex := kCheapPrepend, writeIndex := kCheapPrepend + ?r\<rparr>"
    have e: "ensureWritableBytes b len = Some ?b"
      using need False r by (simp add: ensureWritableBytes_def abort_simps readableBytes_def)
    have "buffer_inv ?b" "content ?b = content b" "len \<le> writeableBytes ?b"
      using need False r inv len_v sl by (auto simp: buffer_basics content_def)
    with e False len_v show ?thesis by auto
  qed
qed

lemma append_ok:
  assumes inv: "buffer_inv b"
  shows "\<exists>b'. append b s = Some b' \<and> buffer_inv b' \<and> content b' = content b @ s"
proof -
  obtain b1 where b1: "ensureWritableBytes b (length s) = Some b1" "buffer_inv b1"
    "content b1 = content b" "length s \<le> writeableBytes b1"
    using ensureWritableBytes_ok [OF inv] by blast
  let ?b = "b1\<lparr>bufvec := overwrite (beginWrite b1) s (bufvec b1),
              writeIndex := writeIndex b1 + length s\<rparr>"
  from b1 have "content ?b = content b @ s" "buffer_inv ?b"
    by (auto simp: content_def buffer_basics slice_overwrite_end)
  with b1(1) show ?thesis by (auto simp: append_def)
qed

lemma retrieve_ok:
  assumes inv: "buffer_inv b" and n: "n \<le> length (content b)"
  shows "\<exists>b'. retrieve b n = Some b' \<and> buffer_inv b' \<and> content b' = drop n (content b)"
proof (cases "n < readableBytes b")
  case True
  with inv show ?thesis
    by (auto simp: retrieve_def abort_simps buffer_basics content_def slice_drop)
next
  case False
  with inv n have "n = length (content b)" by (simp add: length_content)
  with inv show ?thesis by (auto simp: retrieve_def abort_simps length_content)
qed

lemma retrieve_fail: "buffer_inv b \<Longrightarrow> length (content b) < n \<Longrightarrow> retrieve b n = None"
  by (simp add: retrieve_def length_content abort_simps)

section \<open>The contract the clients use\<close>

locale byte_queue =
  fixes content :: "'q \<Rightarrow> string"
    and valid :: "'q \<Rightarrow> bool"
    and push :: "'q \<Rightarrow> string \<Rightarrow> 'q option"
    and pop :: "'q \<Rightarrow> nat \<Rightarrow> 'q option"
  assumes push_total: "valid q \<Longrightarrow> \<exists>q'. push q s = Some q' \<and> valid q' \<and> content q' = content q @ s"
    and pop_total: "valid q \<Longrightarrow> n \<le> length (content q) \<Longrightarrow>
      \<exists>q'. pop q n = Some q' \<and> valid q' \<and> content q' = drop n (content q)"
    and pop_short: "valid q \<Longrightarrow> length (content q) < n \<Longrightarrow> pop q n = None"
begin

lemma push_defined: "valid q \<Longrightarrow> push q s \<noteq> None"
  using push_total by fastforce

lemma push_content: "push q s = Some q' \<Longrightarrow> valid q \<Longrightarrow> content q' = content q @ s"
  using push_total [of q s] by auto

lemma push_valid: "push q s = Some q' \<Longrightarrow> valid q \<Longrightarrow> valid q'"
  using push_total [of q s] by auto

lemma pop_bound: "pop q n = Some q' \<Longrightarrow> valid q \<Longrightarrow> n \<le> length (content q)"
  using pop_short [of q n] by (cases "n \<le> length (content q)") auto

lemma pop_content: "pop q n = Some q' \<Longrightarrow> valid q \<Longrightarrow> content q' = drop n (content q)"
  using pop_total [of q n] pop_bound [of q n q'] by auto

lemma pop_valid: "pop q n = Some q' \<Longrightarrow> valid q \<Longrightarrow> valid q'"
  using pop_total [of q n] pop_bound [of q n q'] by auto

lemmas queue_laws = push_content push_valid pop_content pop_valid pop_bound

text \<open>Appending in pieces is appending once: what clients that build messages rely on.\<close>

lemma push_push_content:
  "push q s = Some q1 \<Longrightarrow> push q1 t = Some q2 \<Longrightarrow> valid q \<Longrightarrow> content q2 = content q @ s @ t"
  by (simp add: push_content push_valid)

end

interpretation bq: byte_queue content buffer_inv append retrieve
  by unfold_locales (auto intro: append_ok retrieve_ok retrieve_fail)

section \<open>The remaining operations over the abstraction\<close>

lemma peek_slice: "slice (peek b) (beginWrite b) (bufvec b) = content b"
  by (simp add: content_def peek_def beginWrite_def)

lemma retrieveAsString_ok:
  assumes "buffer_inv b" "n \<le> length (content b)"
  shows "\<exists>b'. retrieveAsString b n = Some (b', take n (content b)) \<and> retrieve b n = Some b' \<and>
    buffer_inv b' \<and> content b' = drop n (content b)"
proof -
  have "slice (peek b) (peek b + n) (bufvec b) = take n (content b)"
    using assms by (auto simp: content_def peek_def buffer_basics intro: slice_take)
  with retrieve_ok [OF assms] assms show ?thesis
    by (auto simp: retrieveAsString_def abort_simps length_content)
qed

lemma retrieveAsString_fail:
  "buffer_inv b \<Longrightarrow> length (content b) < n \<Longrightarrow> retrieveAsString b n = None"
  by (simp add: retrieveAsString_def length_content abort_simps)

lemma retrieveAllAsString_ok:
  assumes "buffer_inv b"
  shows "\<exists>b'. retrieveAllAsString b = Some (b', content b) \<and> buffer_inv b' \<and> content b' = []"
  using retrieveAsString_ok [OF assms, of "readableBytes b"] length_content [OF assms]
  by (auto simp: retrieveAllAsString_def)

lemma retrieveUntil_ok:
  assumes "buffer_inv b" "n \<le> length (content b)"
  shows "\<exists>b'. retrieveUntil b (peek b + n) = Some b' \<and> buffer_inv b' \<and> content b' = drop n (content b)"
  using retrieve_ok [OF assms] assms length_content [OF assms(1)]
  by (auto simp: retrieveUntil_def abort_simps buffer_basics)

lemma readFd_ok:
  assumes inv: "buffer_inv b" and len: "length s \<le> writeableBytes b + extrabuf_size"
  shows "\<exists>b'. readFd b (ReadBytes s) = Some (b', int (length s), None) \<and> buffer_inv b' \<and>
    content b' = content b @ s"
proof (cases "length s \<le> writeableBytes b")
  case True
  have "slice (readIndex b) (writeIndex b + length s) (overwrite (writeIndex b) s (bufvec b)) =
      content b @ s"
    unfolding content_def using True inv
    by (intro slice_overwrite_end) (auto simp: buffer_basics)
  with True inv show ?thesis
    by (auto simp: readFd_def Let_def buffer_basics content_def)
next
  case False
  let ?t = "take (writeableBytes b) s"
  let ?b1 = "b\<lparr>bufvec := overwrite (writeIndex b) ?t (bufvec b)\<rparr>"
  let ?b2 = "?b1\<lparr>writeIndex := length (bufvec ?b1)\<rparr>"
  have l: "length (bufvec ?b1) = length (bufvec b)" and t: "length ?t = writeableBytes b"
    using False inv by (simp_all add: buffer_basics)
  have "slice (readIndex b) (writeIndex b + length ?t) (overwrite (writeIndex b) ?t (bufvec b)) =
      content b @ ?t"
    unfolding content_def using inv t by (intro slice_overwrite_end) (auto simp: buffer_basics)
  then have c: "content ?b2 = content b @ ?t"
    using inv l t by (simp add: content_def buffer_basics)
  have "buffer_inv ?b2" using inv l by (simp add: buffer_basics)
  from append_ok [OF this, of "drop (writeableBytes b) s"] c
  obtain b' where "append ?b2 (drop (writeableBytes b) s) = Some b'" "buffer_inv b'"
    "content b' = content b @ s" by auto
  with False len show ?thesis by (auto simp: readFd_def Let_def)
qed

lemma buffer_split:
  assumes "buffer_inv b"
  shows "\<exists>pre post. bufvec b = pre @ content b @ post \<and> length pre = readIndex b"
proof (intro exI conjI)
  have "content b @ drop (writeIndex b) (bufvec b) = drop (readIndex b) (bufvec b)"
    using assms
    by (simp add: content_def slice_def buffer_basics)
       (metis add_diff_cancel_left' append_take_drop_id drop_drop le_add_diff_inverse2 nat_le_iff_add)
  then show "bufvec b = take (readIndex b) (bufvec b) @ content b @ drop (writeIndex b) (bufvec b)"
    by simp
  show "length (take (readIndex b) (bufvec b)) = readIndex b"
    using assms by (simp add: buffer_basics)
qed

lemma erase_ok:
  assumes inv: "buffer_inv b" and k: "k + len \<le> length (content b)"
  shows "\<exists>b'. erase b (peek b + k) len = Some b' \<and> buffer_inv b' \<and>
    content b' = take k (content b) @ drop (k + len) (content b)"
proof (cases "k = 0")
  case True
  with retrieve_ok [OF inv, of len] k length_content [OF inv] inv show ?thesis
    by (auto simp: erase_def abort_simps buffer_basics)
next
  case False
  let ?v = "take (readIndex b + k) (bufvec b) @ drop (readIndex b + k + len) (bufvec b)"
  have b: "readIndex b + k + len \<le> writeIndex b" "writeIndex b \<le> length (bufvec b)"
    using inv k length_content [OF inv] by (auto simp: buffer_basics)
  from buffer_split [OF inv] obtain pre post where v: "bufvec b = pre @ content b @ post"
    and pre: "length pre = readIndex b" by blast
  have "slice (readIndex b) (writeIndex b - len) ?v =
      take k (content b) @ drop (k + len) (content b)"
    using k pre length_content [OF inv] inv
    by (simp add: v slice_def buffer_basics)
  with b inv False show ?thesis
    by (auto simp: erase_def abort_simps buffer_basics content_def add.assoc)
qed

lemma findCRLF_alt:
  "findCRLF b = (if peek b + search kCRLF (content b) = beginWrite b then None
     else Some (peek b + search kCRLF (content b)))"
  by (simp add: findCRLF_def peek_slice Let_def)

lemma findCRLF_None: "buffer_inv b \<Longrightarrow> findCRLF b = None \<longleftrightarrow> search kCRLF (content b) = length (content b)"
  using length_content [of b] by (auto simp: findCRLF_alt buffer_basics)

lemma findCRLF_Some:
  assumes inv: "buffer_inv b" and f: "findCRLF b = Some i"
  shows "i = peek b + search kCRLF (content b)" "search kCRLF (content b) + 2 \<le> length (content b)"
    "take 2 (drop (search kCRLF (content b)) (content b)) = kCRLF"
proof -
  have n: "search kCRLF (content b) \<noteq> length (content b)"
    using findCRLF_None [OF inv] f by auto
  then have lt: "search kCRLF (content b) < length (content b)"
    using search_le [of kCRLF "content b"] by linarith
  show "i = peek b + search kCRLF (content b)"
    using f by (auto simp: findCRLF_alt split: if_splits)
  show "search kCRLF (content b) + 2 \<le> length (content b)"
    using search_found_length [OF _ lt] by (simp add: kCRLF_def)
  show "take 2 (drop (search kCRLF (content b)) (content b)) = kCRLF"
    using search_found [OF _ lt] by (simp add: is_prefix_def kCRLF_def numeral_2_eq_2)
qed

lemma buffer_copy_ok:
  assumes "buffer_inv b"
  shows "\<exists>b'. buffer_copy b = Some b' \<and> buffer_inv b' \<and> content b' = content b"
proof -
  let ?n = "\<lparr>bufvec = vec_new (kCheapPrepend + kInitialSize + readableBytes b),
             readIndex = kCheapPrepend, writeIndex = kCheapPrepend\<rparr>"
  have "buffer_inv ?n" "content ?n = []"
    by (simp_all add: buffer_basics content_def vec_new_def)
  moreover have "peek b + readableBytes b = beginWrite b"
    using assms by (simp add: buffer_basics)
  ultimately show ?thesis
    using append_ok [of ?n "content b"] by (simp add: buffer_copy_def peek_slice)
qed

lemma buffer_swap_content [simp]:
  "content (fst (buffer_swap b c)) = content c" "content (snd (buffer_swap b c)) = content b"
  "buffer_inv c \<Longrightarrow> buffer_inv (fst (buffer_swap b c))"
  "buffer_inv b \<Longrightarrow> buffer_inv (snd (buffer_swap b c))"
  by (auto simp: buffer_swap_def content_def buffer_basics)

lemma clear_ok: "buffer_inv b \<Longrightarrow> buffer_inv (clear b) \<and> content (clear b) = []"
  by (auto simp: clear_def vec_new_def buffer_basics retrieveAll_def content_def)


section \<open>Properties\<close>

text \<open>
  The specification of a run of operations on the abstraction: a FIFO of bytes. \<open>OpRead\<close> is a
  \<open>readFd\<close> that delivers the given bytes. The result is the queue and what was taken out.
\<close>

datatype buffer_op = OpAppend string | OpRetrieve nat | OpRead string

fun buffer_run :: "buffer \<Rightarrow> buffer_op list \<Rightarrow> (buffer \<times> string) option" where
  "buffer_run b [] = Some (b, [])"
| "buffer_run b (OpAppend s # ops) = do { b1 \<leftarrow> append b s; buffer_run b1 ops }"
| "buffer_run b (OpRetrieve n # ops) = do {
     (b1, out1) \<leftarrow> retrieveAsString b n;
     (b2, out2) \<leftarrow> buffer_run b1 ops;
     Some (b2, out1 @ out2) }"
| "buffer_run b (OpRead s # ops) = do {
     (b1, n, err) \<leftarrow> readFd b (ReadBytes s);
     buffer_run b1 ops }"

fun fifo_run :: "string \<Rightarrow> buffer_op list \<Rightarrow> (string \<times> string) option" where
  "fifo_run q [] = Some (q, [])"
| "fifo_run q (OpAppend s # ops) = fifo_run (q @ s) ops"
| "fifo_run q (OpRetrieve n # ops) =
     (if n \<le> length q
      then map_option (\<lambda>(q', out). (q', take n q @ out)) (fifo_run (drop n q) ops) else None)"
| "fifo_run q (OpRead s # ops) = fifo_run (q @ s) ops"

fun op_input :: "buffer_op \<Rightarrow> string" where
  "op_input (OpAppend s) = s"
| "op_input (OpRetrieve n) = []"
| "op_input (OpRead s) = s"

fun read_fits :: "buffer_op \<Rightarrow> bool" where
  "read_fits (OpRead s) = (length s \<le> extrabuf_size)"
| "read_fits _ = True"

lemma fifo_run_stream:
  "fifo_run q ops = Some (q', out) \<Longrightarrow> out @ q' = q @ concat (map op_input ops)"
proof (induction q ops arbitrary: q' out rule: fifo_run.induct)
  case (3 q n ops)
  then obtain out' where n: "n \<le> length q" and f: "fifo_run (drop n q) ops = Some (q', out')"
    and out: "out = take n q @ out'" by (auto split: if_splits)
  from "3.IH" [OF n f] have "out' @ q' = drop n q @ concat (map op_input ops)" .
  then have "out @ q' = (take n q @ drop n q) @ concat (map op_input ops)"
    by (simp add: out)
  then show ?case by simp
qed auto

lemma buffer_run_abs:
  "buffer_inv b \<Longrightarrow> list_all read_fits ops \<Longrightarrow>
    map_option (\<lambda>(b', out). (content b', out)) (buffer_run b ops) = fifo_run (content b) ops"
proof (induction b ops rule: buffer_run.induct)
  case (1 b)
  then show ?case by simp
next
  case (2 b s ops)
  from append_ok [OF \<open>buffer_inv b\<close>, of s] obtain b' where
    "append b s = Some b'" "buffer_inv b'" "content b' = content b @ s" by blast
  with 2 show ?case by simp
next
  case (3 b n ops)
  show ?case
  proof (cases "n \<le> length (content b)")
    case True
    from retrieveAsString_ok [OF \<open>buffer_inv b\<close> True] obtain b' where
      b': "retrieveAsString b n = Some (b', take n (content b))" "buffer_inv b'"
        "content b' = drop n (content b)" by blast
    with 3 have "map_option (\<lambda>(b', out). (content b', out)) (buffer_run b' ops)
        = fifo_run (drop n (content b)) ops" by auto
    then have "fifo_run (drop n (content b)) ops
        = map_option (\<lambda>(b', out). (content b', out)) (buffer_run b' ops)" by simp
    with b' True show ?thesis by (cases "buffer_run b' ops") auto
  next
    case False
    with 3 show ?thesis by (simp add: retrieveAsString_fail)
  qed
next
  case (4 b s ops)
  from 4 have "length s \<le> writeableBytes b + extrabuf_size" by simp
  from readFd_ok [OF \<open>buffer_inv b\<close> this] obtain b' where
    "readFd b (ReadBytes s) = Some (b', int (length s), None)" "buffer_inv b'"
    "content b' = content b @ s" by blast
  with 4 show ?case by simp
qed

text \<open>
  C1. The buffer refines a FIFO of bytes: over any sequence of appends, descriptor reads and
  retrievals, the concrete buffer aborts exactly where the FIFO is asked for more bytes than it
  holds, and otherwise delivers exactly the same bytes and holds the same content.
\<close>
theorem buffer_refines_fifo:
  assumes "buffer_inv b" "list_all read_fits ops"
  shows "map_option (\<lambda>(b', out). (content b', out)) (buffer_run b ops) = fifo_run (content b) ops"
  using assms by (rule buffer_run_abs)

theorem buffer_refines_fifo_witness:
  "map_option (\<lambda>(b', out). (content b', out))
     (buffer_run buffer_new [OpAppend ''abc'', OpRead ''de'', OpRetrieve 4]) = Some (''e'', ''abcd'')"
proof -
  have "list_all read_fits [OpAppend ''abc'', OpRead ''de'', OpRetrieve 4]"
    by (simp add: extrabuf_size_def)
  from buffer_refines_fifo [OF buffer_new_inv this] show ?thesis
    by (simp add: numeral_eq_Suc)
qed

text \<open>
  The internal reorganisation is invisible and economical: \<open>append\<close> never aborts on a valid
  buffer (the assertions inside \<open>ensureWritableBytes\<close> cannot fail), keeps the invariant, adds the
  bytes at the end, and allocates no memory when the free space before and after the content
  (less the reserved 8 bytes) is enough.
\<close>
theorem append_reuses_space:
  assumes "buffer_inv b"
  shows "\<exists>b'. append b s = Some b' \<and> buffer_inv b' \<and> content b' = content b @ s \<and>
    length (bufvec b') =
      (if length s + kCheapPrepend \<le> writeableBytes b + prependableBytes b
       then length (bufvec b) else max (length (bufvec b)) (writeIndex b + length s))"
proof -
  obtain b1 where b1: "ensureWritableBytes b (length s) = Some b1" "buffer_inv b1"
    "length s \<le> writeableBytes b1"
    "length (bufvec b1) = (if writeableBytes b + prependableBytes b < length s + kCheapPrepend
              then max (length (bufvec b)) (writeIndex b + length s) else length (bufvec b))"
    using ensureWritableBytes_ok [OF assms] by blast
  then have "length (overwrite (beginWrite b1) s (bufvec b1)) = length (bufvec b1)"
    by (intro length_overwrite) (auto simp: buffer_basics)
  moreover obtain b' where "append b s = Some b'" "buffer_inv b'" "content b' = content b @ s"
    using append_ok [OF assms] by blast
  ultimately show ?thesis using b1 by (auto simp: append_def)
qed

theorem append_reuses_space_witness:
  "\<exists>b'. append buffer_new ''GET'' = Some b' \<and> content b' = ''GET'' \<and> length (bufvec b') = 1032"
  using append_reuses_space [OF buffer_new_inv, of "''GET''"]
  by (auto simp: buffer_new_def buffer_basics vec_new_def kCheapPrepend_def kInitialSize_def
      content_def)

text \<open>
  \<open>findCRLF\<close> finds exactly the first CR LF of the readable content: it returns a null pointer
  iff the content holds none, and otherwise a pointer whose prefix holds none.
\<close>
theorem findCRLF_first:
  assumes "buffer_inv b"
  shows "(findCRLF b = None \<longleftrightarrow> (\<nexists>pre post. content b = pre @ kCRLF @ post)) \<and>
    (\<forall>i. findCRLF b = Some i \<longrightarrow>
      (\<exists>pre post. content b = pre @ kCRLF @ post \<and> i = peek b + length pre \<and>
        (\<nexists>p q. pre @ [CHR 0x0D] = p @ kCRLF @ q)))"
proof (intro conjI allI impI)
  let ?n = "search kCRLF (content b)"
  show "findCRLF b = None \<longleftrightarrow> (\<nexists>pre post. content b = pre @ kCRLF @ post)"
  proof
    assume "findCRLF b = None"
    then have n: "?n = length (content b)" using findCRLF_None [OF assms] by simp
    show "\<nexists>pre post. content b = pre @ kCRLF @ post"
    proof (rule notI, elim exE)
      fix pre post assume c: "content b = pre @ kCRLF @ post"
      have "take (length kCRLF) (drop (length pre) (content b)) \<noteq> kCRLF"
        by (rule search_notfound [OF n]) (simp_all add: c kCRLF_def)
      with c show False by simp
    qed
  next
    assume none: "\<nexists>pre post. content b = pre @ kCRLF @ post"
    show "findCRLF b = None"
    proof (cases "findCRLF b")
      case (Some i)
      note f = findCRLF_Some [OF assms Some]
      have "content b = take ?n (content b) @ kCRLF @ drop 2 (drop ?n (content b))"
        by (metis append_take_drop_id f(3))
      with none show ?thesis by blast
    qed
  qed
next
  fix i assume i: "findCRLF b = Some i"
  let ?n = "search kCRLF (content b)"
  note f = findCRLF_Some [OF assms i]
  have c: "content b = take ?n (content b) @ kCRLF @ drop 2 (drop ?n (content b))"
    by (metis append_take_drop_id f(3))
  have "\<nexists>p q. take ?n (content b) @ [CHR 0x0D] = p @ kCRLF @ q"
  proof (rule notI, elim exE)
    fix p q assume eq: "take ?n (content b) @ [CHR 0x0D] = p @ kCRLF @ q"
    have "length (take ?n (content b) @ [CHR 0x0D]) = length (p @ kCRLF @ q)"
      using eq by simp
    then have lp: "length p < ?n" using f(2) by (simp add: kCRLF_def)
    have "content b = (take ?n (content b) @ [CHR 0x0D]) @ [CHR 0x0A] @ drop 2 (drop ?n (content b))"
      using c by (simp add: kCRLF_def)
    then have "content b = p @ kCRLF @ q @ [CHR 0x0A] @ drop 2 (drop ?n (content b))"
      unfolding eq by simp
    then have "is_prefix kCRLF (drop (length p) (content b))"
      by (metis append_eq_conv_conj is_prefix_def)
    with search_least [OF lp] show False by simp
  qed
  with c f show "\<exists>pre post. content b = pre @ kCRLF @ post \<and> i = peek b + length pre \<and>
        (\<nexists>p q. pre @ [CHR 0x0D] = p @ kCRLF @ q)"
    by (intro exI [of _ "take ?n (content b)"] exI [of _ "drop 2 (drop ?n (content b))"]) auto
qed

theorem findCRLF_first_witness:
  "findCRLF (buffer_new\<lparr>bufvec := ''________ab'' @ kCRLF, writeIndex := 12\<rparr>) = Some 10"
proof -
  let ?b = "buffer_new\<lparr>bufvec := ''________ab'' @ kCRLF, writeIndex := 12\<rparr>"
  have inv: "buffer_inv ?b"
    by (simp add: buffer_basics buffer_new_def kCheapPrepend_def kCRLF_def)
  have c: "content ?b = ''ab'' @ kCRLF"
    by (simp add: content_def buffer_new_def kCheapPrepend_def slice_def kCRLF_def numeral_eq_Suc)
  then have "\<exists>pre post. content ?b = pre @ kCRLF @ post"
    by (intro exI [of _ "''ab''"] exI [of _ "[]"]) simp
  then have "findCRLF ?b \<noteq> None"
    using conjunct1 [OF findCRLF_first [OF inv]] by blast
  moreover from c have "findCRLF ?b = Some 10 \<or> findCRLF ?b = None"
    by (simp add: findCRLF_alt kCRLF_def peek_def is_prefix_def buffer_new_def kCheapPrepend_def)
  ultimately show ?thesis by (elim disjE) simp_all
qed

text \<open>
  \<open>erase\<close> removes exactly the given range of the readable content, wherever it lies, and
  keeps the invariant; a range past the end of the content aborts.
\<close>
theorem erase_removes_range:
  assumes "buffer_inv b"
  shows "if k + len \<le> length (content b)
    then \<exists>b'. erase b (peek b + k) len = Some b' \<and> buffer_inv b' \<and>
           content b' = take k (content b) @ drop (k + len) (content b)
    else erase b (peek b + k) len = None"
  using erase_ok [OF assms, of k len] assms
  by (auto simp: erase_def length_content abort_simps buffer_basics)

theorem erase_removes_range_witness:
  "\<exists>b'. erase (buffer_new\<lparr>bufvec := ''________abcdef'', writeIndex := 14\<rparr>) 10 3 = Some b' \<and>
     content b' = ''abf''"
proof -
  let ?b = "buffer_new\<lparr>bufvec := ''________abcdef'', writeIndex := 14\<rparr>"
  have inv: "buffer_inv ?b"
    by (simp add: buffer_basics buffer_new_def kCheapPrepend_def)
  have c: "content ?b = ''abcdef''"
    by (simp add: content_def buffer_new_def kCheapPrepend_def slice_def)
  from erase_removes_range [OF inv, of 2 3] c show ?thesis
    by (auto simp: peek_def buffer_new_def kCheapPrepend_def numeral_eq_Suc)
qed

end
