(* ===== verification/Timestamp.thy ===== *)
theory Timestamp
  imports Complex_Main Prelude
begin

text \<open>
  \<open>matelib/base/Timestamp.h\<close> and \<open>.cc\<close>. A timestamp is its \<open>int64_t\<close> count of microseconds, an
  \<open>int\<close> here (the range of 64 bits is 292000 years). A \<open>double\<close> number of seconds is the rational
  number it denotes; the rounding of the floating-point product is not modelled.
\<close>

(* src/matelib/base/Timestamp.h:54-57 Timestamp *)
type_synonym timestamp = int

definition kMicroSecondsPerSecond :: int where
  "kMicroSecondsPerSecond = 1000 * 1000"

(* src/matelib/base/Timestamp.h:48-51 Timestamp::invalid *)
definition ts_invalid :: timestamp where
  "ts_invalid = 0"

(* src/matelib/base/Timestamp.h:38-38 Timestamp::valid *)
definition ts_valid :: "timestamp \<Rightarrow> bool" where
  "ts_valid t = (0 < t)"

(* src/matelib/base/Timestamp.h:40-43 Timestamp::secondsSinceEpoch *)
definition secondsSinceEpoch :: "timestamp \<Rightarrow> int" where
  "secondsSinceEpoch t = cdiv t kMicroSecondsPerSecond"

(* src/matelib/base/Timestamp.h:72-76 timeDifference *)
definition timeDifference :: "timestamp \<Rightarrow> timestamp \<Rightarrow> rat" where
  "timeDifference high low = of_int (high - low) / of_int kMicroSecondsPerSecond"

text \<open>\<open>static_cast<int64_t>\<close> of a \<open>double\<close> drops the fraction.\<close>

definition trunc_rat :: "rat \<Rightarrow> int" where
  "trunc_rat r = (if 0 \<le> r then \<lfloor>r\<rfloor> else \<lceil>r\<rceil>)"

(* src/matelib/base/Timestamp.h:78-82 addTime *)
definition addTime :: "timestamp \<Rightarrow> rat \<Rightarrow> timestamp" where
  "addTime t seconds = t + trunc_rat (seconds * of_int kMicroSecondsPerSecond)"

text \<open>\<open>gettimeofday\<close> is an input: its seconds and microseconds.\<close>

(* src/matelib/base/Timestamp.cc:46-52 Timestamp::now *)
definition ts_now :: "int \<Rightarrow> int \<Rightarrow> timestamp" where
  "ts_now tv_sec tv_usec = tv_sec * kMicroSecondsPerSecond + tv_usec"

(* src/matelib/base/Timestamp.cc:12-19 Timestamp::toString *)
definition ts_toString :: "timestamp \<Rightarrow> string" where
  "ts_toString t =
     (let seconds = cdiv t kMicroSecondsPerSecond; microseconds = cmod t kMicroSecondsPerSecond
      in take 30 (show_int seconds @ ''.'' @ zero_pad_int 6 microseconds))"

text \<open>\<open>localtime_r\<close> is a parameter: the calendar fields of a count of seconds.\<close>

record tm =
  tm_year :: int
  tm_mon :: int
  tm_mday :: int
  tm_hour :: int
  tm_min :: int
  tm_sec :: int

definition blank_pad :: "nat \<Rightarrow> string \<Rightarrow> string" where
  "blank_pad w s = replicate (w - length s) (CHR '' '') @ s"

(* src/matelib/base/Timestamp.cc:22-44 Timestamp::toFormattedString *)
definition toFormattedString :: "(int \<Rightarrow> tm) \<Rightarrow> timestamp \<Rightarrow> bool \<Rightarrow> string" where
  "toFormattedString localtime t showMicroseconds =
     (let seconds = cdiv t kMicroSecondsPerSecond; tm_time = localtime seconds;
          date = blank_pad 4 (show_int (tm_year tm_time + 1900)) @ ''.'' @
            zero_pad_int 2 (tm_mon tm_time + 1) @ ''.'' @ zero_pad_int 2 (tm_mday tm_time) @ ''-'' @
            zero_pad_int 2 (tm_hour tm_time) @ '':'' @ zero_pad_int 2 (tm_min tm_time) @ '':'' @
            zero_pad_int 2 (tm_sec tm_time)
      in take 63 (if showMicroseconds
                  then date @ ''.'' @ zero_pad_int 6 (cmod t kMicroSecondsPerSecond) else date))"

section \<open>Properties\<close>

lemma addTime_nonneg: "0 \<le> s \<Longrightarrow> t \<le> addTime t s"
  by (simp add: addTime_def trunc_rat_def kMicroSecondsPerSecond_def)

text \<open>
  The printed form of a timestamp loses nothing: cut at the dot, its two decimal numbers give
  back seconds and microseconds, and the microseconds always take six digits.
\<close>
theorem toString_roundtrip:
  assumes "0 \<le> t" "t < 2 ^ 63"
  shows "let s = ts_toString t; i = find_char (CHR ''.'') s in
    int (dec_val (take i s)) * 1000000 + int (dec_val (drop (Suc i) s)) = t \<and>
    length (drop (Suc i) s) = 6"
proof -
  let ?sec = "nat (t div 1000000)" and ?us = "nat (t mod 1000000)"
  have us: "?us < 10 ^ 6"
    by (simp add: nat_less_iff)
  have "t div 1000000 < 10 ^ 13" using assms by simp
  then have sec: "?sec < 10 ^ 13" using assms by (simp add: nat_less_iff)
  have dot: "CHR ''.'' \<notin> set (show_nat ?sec)"
    using show_nat_digits [of "CHR ''.''" ?sec] by (auto simp: is_digit_def)
  let ?s = "show_nat ?sec @ CHR ''.'' # zero_pad 6 ?us"
  have len: "length ?s \<le> 30"
    using length_show_nat [OF sec] us by simp
  have "0 \<le> t div 1000000" "0 \<le> t mod 1000000" using assms by simp_all
  with assms have "ts_toString t = take 30 ?s"
    by (simp only: ts_toString_def kMicroSecondsPerSecond_def show_int_def zero_pad_int_def Let_def
        cdiv_nonneg cmod_nonneg) (simp add: not_less)
  with len have s: "ts_toString t = ?s" by (metis take_all_iff)
  have i: "find_char (CHR ''.'') (ts_toString t) = length (show_nat ?sec)"
    unfolding s using dot by (rule find_char_append)
  have "0 \<le> t div 1000000" using assms by simp
  then show ?thesis
    unfolding Let_def i unfolding s using us assms by simp
qed

theorem toString_roundtrip_witness:
  "let s = ts_toString 1500042; i = find_char (CHR ''.'') s in
    int (dec_val (take i s)) * 1000000 + int (dec_val (drop (Suc i) s)) = 1500042 \<and>
    length (drop (Suc i) s) = 6"
  by (rule toString_roundtrip) simp_all

end
