(* ===== verification/TimerQueue.thy ===== *)
theory TimerQueue
  imports Timestamp "HOL-Library.Product_Lexorder"
begin

text \<open>
  \<open>matelib/Timer.h\<close>, \<open>matelib/TimerQueue.h\<close> and \<open>matelib/TimerQueue.cc\<close>, the timer queue of an
  event loop, as it runs in the loop's thread.

  The set of timers is a strictly sorted list of (time, address) pairs, the order of
  \<open>std::set<std::pair<Timestamp, Timer*>>\<close>. Timers live in an explicit heap, so that \<open>delete\<close>, a
  use after a free and a double free are visible. The address \<open>operator new\<close> returns is an input;
  an address in use, null or the largest one is not a possible answer (\<open>BadAlloc\<close>). A callback is
  a number; what running it does to the queue (timers it adds, timers it cancels) is given by the
  parameter \<open>beh\<close>. \<open>fired\<close> records the callbacks that ran and \<open>armed\<close> the expiration last given to
  \<open>timerfd_settime\<close>.
\<close>

section \<open>Timer\<close>

(* src/matelib/Timer.h:44-47 Timer *)
record timer =
  callback :: nat
  expiration :: timestamp
  intervalInSec :: rat
  repeat :: bool

(* src/matelib/Timer.h:18-23 Timer::Timer *)
definition timer_new :: "nat \<Rightarrow> timestamp \<Rightarrow> rat \<Rightarrow> timer" where
  "timer_new cb when interval =
     \<lparr>callback = cb, expiration = when, intervalInSec = interval, repeat = (0 < interval)\<rparr>"

(* src/matelib/Timer.h:33-42 Timer::restart *)
definition restart :: "timer \<Rightarrow> timestamp \<Rightarrow> timer" where
  "restart t now =
     (if repeat t then t\<lparr>expiration := addTime now (intervalInSec t)\<rparr>
      else t\<lparr>expiration := ts_invalid\<rparr>)"

(* src/matelib/Timer.h:62-69 TimerId *)
type_synonym timer_id = "timestamp \<times> nat"

definition nullptr :: nat where "nullptr = 0"

(* src/matelib/Timer.h:57-60 TimerId::TimerId() *)
definition timer_id_default :: timer_id where
  "timer_id_default = (ts_invalid, nullptr)"

section \<open>The descriptor\<close>

record timespec =
  tv_sec :: int
  tv_nsec :: int

(* src/matelib/TimerQueue.cc:27-38 detail::howMuchTimeFromNow *)
definition howMuchTimeFromNow :: "timestamp \<Rightarrow> timestamp \<Rightarrow> timespec" where
  "howMuchTimeFromNow when now =
     (let d = when - now; microseconds = (if d < 100 then 100 else d)
      in \<lparr>tv_sec = cdiv microseconds kMicroSecondsPerSecond,
          tv_nsec = cmod microseconds kMicroSecondsPerSecond * 1000\<rparr>)"

section \<open>The queue\<close>

(* src/matelib/TimerQueue.h:36-37 TimerQueue::Entry *)
type_synonym entry = "timestamp \<times> nat"

(* src/matelib/TimerQueue.h:46-51 TimerQueue *)
record timer_queue =
  heap :: "nat \<rightharpoonup> timer"
  timers :: "entry list"
  callingExpired :: bool
  canceling :: "entry list"
  armed :: "timestamp option"
  fired :: "nat list"

(* src/matelib/TimerQueue.cc:71-83 TimerQueue::TimerQueue *)
definition timer_queue_new :: timer_queue where
  "timer_queue_new = \<lparr>heap = Map.empty, timers = [], callingExpired = False, canceling = [],
     armed = None, fired = []\<rparr>"

text \<open>\<open>std::set::insert\<close>: nothing happens when the element is there.\<close>

definition set_insert :: "'a::linorder \<Rightarrow> 'a list \<Rightarrow> 'a list" where
  "set_insert x xs = (if x \<in> set xs then xs else insort x xs)"

definition UINTPTR_MAX :: nat where "UINTPTR_MAX = 2 ^ 64 - 1"

(* src/matelib/TimerQueue.cc:53-64 detail::resetTimerfd *)
definition resetTimerfd :: "timer_queue \<Rightarrow> timestamp \<Rightarrow> timer_queue" where
  "resetTimerfd q expn = q\<lparr>armed := Some expn\<rparr>"

text \<open>\<open>delete\<close> of a timer, and \<open>new Timer\<close> at the address the allocator returns.\<close>

definition delete_timer :: "timer_queue \<Rightarrow> nat \<Rightarrow> timer_queue res" where
  "delete_timer q p =
     (if heap q p = None then Inl DoubleFree else Inr (q\<lparr>heap := (heap q)(p := None)\<rparr>))"

definition new_timer :: "timer_queue \<Rightarrow> nat \<Rightarrow> timer \<Rightarrow> timer_queue res" where
  "new_timer q p t =
     (if heap q p \<noteq> None \<or> p = nullptr \<or> UINTPTR_MAX \<le> p then Inl BadAlloc
      else Inr (q\<lparr>heap := (heap q)(p \<mapsto> t)\<rparr>))"

(* src/matelib/TimerQueue.cc:113-132 TimerQueue::addTimerInLoop *)
definition addTimerInLoop :: "timer_queue \<Rightarrow> nat \<Rightarrow> timer_queue res" where
  "addTimerInLoop q p =
     (case heap q p of
        None \<Rightarrow> Inl UseAfterFree
      | Some t \<Rightarrow>
          let when = expiration t;
              earliestChanged = (timers q = [] \<or> when < fst (hd (timers q)));
              q1 = q\<lparr>timers := set_insert (when, p) (timers q)\<rparr>
          in if (when, p) \<in> set (timers q) then Inl AssertFailed
             else Inr (if earliestChanged then resetTimerfd q1 when else q1))"

(* src/matelib/TimerQueue.cc:134-149 TimerQueue::cancelTimerInLoop *)
definition cancelTimerInLoop :: "timer_queue \<Rightarrow> timer_id \<Rightarrow> timer_queue res" where
  "cancelTimerInLoop q tid =
     (if tid \<in> set (timers q) then
        and_then (delete_timer q (snd tid)) (\<lambda>q1. Inr (q1\<lparr>timers := remove1 tid (timers q1)\<rparr>))
      else if callingExpired q then Inr (q\<lparr>canceling := set_insert tid (canceling q)\<rparr>)
      else Inr q)"

text \<open>
  \<open>addTimer\<close> and \<open>cancelTimer\<close> go through \<open>EventLoop::runInLoop\<close>: in the loop's thread the second
  half runs at once, otherwise it is returned as a functor to be queued.
\<close>

datatype tq_functor = AddTimerInLoop nat | CancelTimerInLoop timer_id

fun run_functor :: "timer_queue \<Rightarrow> tq_functor \<Rightarrow> timer_queue res" where
  "run_functor q (AddTimerInLoop p) = addTimerInLoop q p"
| "run_functor q (CancelTimerInLoop tid) = cancelTimerInLoop q tid"

definition run_in_loop :: "bool \<Rightarrow> timer_queue \<Rightarrow> tq_functor \<Rightarrow> (timer_queue \<times> tq_functor list) res" where
  "run_in_loop inLoop q f =
     (if inLoop then and_then (run_functor q f) (\<lambda>q1. Inr (q1, [])) else Inr (q, [f]))"

(* src/matelib/TimerQueue.cc:95-104 TimerQueue::addTimer *)
definition addTimer ::
  "bool \<Rightarrow> timer_queue \<Rightarrow> nat \<Rightarrow> nat \<Rightarrow> timestamp \<Rightarrow> rat \<Rightarrow> (timer_queue \<times> timer_id \<times> tq_functor list) res" where
  "addTimer inLoop q p cb when interval =
     and_then (new_timer q p (timer_new cb when interval)) (\<lambda>q1.
     and_then (run_in_loop inLoop q1 (AddTimerInLoop p)) (\<lambda>(q2, fs).
     Inr (q2, (when, p), fs)))"

(* src/matelib/TimerQueue.cc:107-111 TimerQueue::cancelTimer *)
definition cancelTimer :: "bool \<Rightarrow> timer_queue \<Rightarrow> timer_id \<Rightarrow> (timer_queue \<times> tq_functor list) res" where
  "cancelTimer inLoop q tid = run_in_loop inLoop q (CancelTimerInLoop tid)"

text \<open>\<open>EventLoop::runAfter\<close> and \<open>EventLoop::runEvery\<close> compute the first expiration.\<close>

(* src/matelib/EventLoop.cc:150-154 EventLoop::runAfter *)
definition runAfter ::
  "bool \<Rightarrow> timer_queue \<Rightarrow> nat \<Rightarrow> timestamp \<Rightarrow> rat \<Rightarrow> nat \<Rightarrow> (timer_queue \<times> timer_id \<times> tq_functor list) res" where
  "runAfter inLoop q p now timeInSec cb = addTimer inLoop q p cb (addTime now timeInSec) 0"

(* src/matelib/EventLoop.cc:156-160 EventLoop::runEvery *)
definition runEvery ::
  "bool \<Rightarrow> timer_queue \<Rightarrow> nat \<Rightarrow> timestamp \<Rightarrow> rat \<Rightarrow> nat \<Rightarrow> (timer_queue \<times> timer_id \<times> tq_functor list) res" where
  "runEvery inLoop q p now interval cb = addTimer inLoop q p cb (addTime now interval) interval"

(* src/matelib/TimerQueue.cc:179-195 TimerQueue::getExpired *)
definition getExpired :: "timer_queue \<Rightarrow> timestamp \<Rightarrow> (entry list \<times> timer_queue) res" where
  "getExpired q now =
     (let sentry = (now, UINTPTR_MAX);
          expired = takeWhile (\<lambda>e. e < sentry) (timers q);
          rest = dropWhile (\<lambda>e. e < sentry) (timers q)
      in if rest = [] \<or> now < fst (hd rest) then Inr (expired, q\<lparr>timers := rest\<rparr>)
         else Inl AssertFailed)"

text \<open>What a callback does to the queue: a list of calls, made in the loop's thread.\<close>

datatype tq_call = CallAdd nat nat timestamp rat | CallCancel timer_id

fun exec_call :: "timer_queue \<Rightarrow> tq_call \<Rightarrow> timer_queue res" where
  "exec_call q (CallAdd p cb when interval) =
     and_then (addTimer True q p cb when interval) (\<lambda>(q1, _). Inr q1)"
| "exec_call q (CallCancel tid) = and_then (cancelTimer True q tid) (\<lambda>(q1, _). Inr q1)"

fun exec_calls :: "timer_queue \<Rightarrow> tq_call list \<Rightarrow> timer_queue res" where
  "exec_calls q [] = Inr q"
| "exec_calls q (c # cs) = and_then (exec_call q c) (\<lambda>q1. exec_calls q1 cs)"

(* src/matelib/Timer.h:25-27 Timer::run *)
definition run_timer :: "(nat \<Rightarrow> tq_call list) \<Rightarrow> timer_queue \<Rightarrow> nat \<Rightarrow> timer_queue res" where
  "run_timer beh q p =
     (case heap q p of
        None \<Rightarrow> Inl UseAfterFree
      | Some t \<Rightarrow> exec_calls (q\<lparr>fired := fired q @ [callback t]\<rparr>) (beh (callback t)))"

(* src/matelib/TimerQueue.cc:167-171 TimerQueue::handleRead *)
fun run_expired :: "(nat \<Rightarrow> tq_call list) \<Rightarrow> timer_queue \<Rightarrow> entry list \<Rightarrow> timer_queue res" where
  "run_expired beh q [] = Inr q"
| "run_expired beh q (e # es) = and_then (run_timer beh q (snd e)) (\<lambda>q1. run_expired beh q1 es)"

(* src/matelib/TimerQueue.cc:201-217 TimerQueue::reset *)
fun reset_loop :: "timer_queue \<Rightarrow> entry list \<Rightarrow> timestamp \<Rightarrow> timer_queue res" where
  "reset_loop q [] now = Inr q"
| "reset_loop q ((w, p) # es) now =
     (case heap q p of
        None \<Rightarrow> Inl UseAfterFree
      | Some t \<Rightarrow>
          if repeat t \<and> (w, p) \<notin> set (canceling q) then
            reset_loop (q\<lparr>heap := (heap q)(p \<mapsto> restart t now),
                          timers := set_insert (w, p) (timers q)\<rparr>) es now
          else and_then (delete_timer q p) (\<lambda>q1. reset_loop q1 es now))"

(* src/matelib/TimerQueue.cc:197-225 TimerQueue::reset *)
definition reset :: "timer_queue \<Rightarrow> entry list \<Rightarrow> timestamp \<Rightarrow> timer_queue res" where
  "reset q expired now =
     and_then (reset_loop q expired now) (\<lambda>q1.
       case timers q1 of
         [] \<Rightarrow> Inr q1
       | (w, p) # _ \<Rightarrow>
           (case heap q1 p of
              None \<Rightarrow> Inl UseAfterFree
            | Some t \<Rightarrow> Inr (resetTimerfd q1 (expiration t))))"

text \<open>
  Reading the descriptor takes the expiry; the timer was armed without a repeat interval, so it
  is now disarmed.
\<close>

(* src/matelib/TimerQueue.cc:41-50 detail::readTimerfd *)
definition readTimerfd :: "timer_queue \<Rightarrow> timer_queue" where
  "readTimerfd q = q\<lparr>armed := None\<rparr>"

(* src/matelib/TimerQueue.cc:152-176 TimerQueue::handleRead *)
definition handleRead :: "(nat \<Rightarrow> tq_call list) \<Rightarrow> timestamp \<Rightarrow> timer_queue \<Rightarrow> timer_queue res" where
  "handleRead beh now q =
     (let q1 = (readTimerfd q)\<lparr>canceling := []\<rparr> in
      and_then (getExpired q1 now) (\<lambda>(expired, q2).
      and_then (run_expired beh (q2\<lparr>callingExpired := True\<rparr>) expired) (\<lambda>q3.
      reset (q3\<lparr>callingExpired := False\<rparr>) expired now)))"

text \<open>The destructor deletes the timers still registered.\<close>

(* src/matelib/TimerQueue.cc:85-92 TimerQueue::~TimerQueue *)
fun destroy_loop :: "timer_queue \<Rightarrow> entry list \<Rightarrow> timer_queue res" where
  "destroy_loop q [] = Inr q"
| "destroy_loop q (e # es) = and_then (delete_timer q (snd e)) (\<lambda>q1. destroy_loop q1 es)"

section \<open>Ownership invariant\<close>

text \<open>
  \<open>tq_owns q own\<close>: the live timers are exactly those registered in the set and those in \<open>own\<close>
  (timers taken out as expired, or allocated and not registered yet), each owned once.
\<close>

definition tq_owns :: "timer_queue \<Rightarrow> nat list \<Rightarrow> bool" where
  "tq_owns q own \<longleftrightarrow> sorted (timers q) \<and> distinct (own @ map snd (timers q)) \<and>
     dom (heap q) = set own \<union> snd ` set (timers q) \<and> (\<forall>p \<in> dom (heap q). p < UINTPTR_MAX)"

lemma tq_owns_new [simp]: "tq_owns timer_queue_new []"
  by (simp add: tq_owns_def timer_queue_new_def)

lemma set_set_insert [simp]: "set (set_insert x xs) = insert x (set xs)"
  by (auto simp: set_insert_def set_insort_key)

lemma sorted_set_insert [simp]: "sorted xs \<Longrightarrow> sorted (set_insert x xs)"
  by (simp add: set_insert_def sorted_insort)

lemma mset_map_set_insert:
  "x \<notin> set xs \<Longrightarrow> distinct (map f (set_insert x xs)) \<longleftrightarrow> distinct (map f (x # xs))"
proof -
  assume "x \<notin> set xs"
  have "distinct (map f (insort x xs)) \<longleftrightarrow> distinct (map f (x # xs))" for xs
    by (induction xs) (auto simp: set_insort_key)
  with \<open>x \<notin> set xs\<close> show ?thesis by (simp add: set_insert_def)
qed

lemma tq_owns_live: "tq_owns q own \<Longrightarrow> e \<in> set (timers q) \<Longrightarrow> snd e \<in> dom (heap q)"
  by (auto simp: tq_owns_def)

lemma addTimerInLoop_owns:
  assumes "tq_owns q (p # own)"
  shows "\<exists>q'. addTimerInLoop q p = Inr q' \<and> tq_owns q' own \<and> heap q' = heap q \<and>
    canceling q' = canceling q \<and> callingExpired q' = callingExpired q"
proof -
  have "p \<in> dom (heap q)" using assms by (simp add: tq_owns_def)
  then obtain t where t: "heap q p = Some t" by blast
  have n: "(expiration t, p) \<notin> set (timers q)"
    using assms by (force simp: tq_owns_def)
  let ?q = "q\<lparr>timers := set_insert (expiration t, p) (timers q)\<rparr>"
  have "tq_owns ?q own"
    using assms n by (auto simp: tq_owns_def mset_map_set_insert)
  then have "tq_owns (resetTimerfd ?q x) own" for x
    by (simp add: tq_owns_def resetTimerfd_def)
  with \<open>tq_owns ?q own\<close> show ?thesis
    using t n by (auto simp: addTimerInLoop_def resetTimerfd_def Let_def)
qed

lemma cancelTimerInLoop_owns:
  assumes "tq_owns q own"
  shows "\<exists>q'. cancelTimerInLoop q tid = Inr q' \<and> tq_owns q' own \<and>
    callingExpired q' = callingExpired q"
proof (cases "tid \<in> set (timers q)")
  case True
  with assms have live: "heap q (snd tid) \<noteq> None"
    using tq_owns_live [OF assms True] by (simp add: domIff)
  have d: "distinct (map snd (timers q))" "snd tid \<notin> set own"
    using assms True by (auto simp: tq_owns_def)
  then have rm: "set (remove1 tid (timers q)) = set (timers q) - {tid}"
    by (simp add: set_remove1_eq distinct_map)
  have im: "snd ` (set (timers q) - {tid}) = snd ` set (timers q) - {snd tid}"
    using d(1) True by (auto simp: distinct_map inj_on_def)
  let ?q = "q\<lparr>heap := (heap q)(snd tid := None), timers := remove1 tid (timers q)\<rparr>"
  have "distinct (own @ map snd (remove1 tid (timers q)))"
    using assms rm im by (auto simp: tq_owns_def distinct_map distinct_remove1 inj_on_def)
  then have "tq_owns ?q own"
    using assms rm im d(2) by (auto simp: tq_owns_def sorted_remove1)
  with True live show ?thesis
    by (auto simp: cancelTimerInLoop_def delete_timer_def)
next
  case False
  with assms show ?thesis
    by (auto simp: cancelTimerInLoop_def tq_owns_def)
qed


text \<open>
  \<open>safe_res P m\<close>: the computation ends in a state with \<open>P\<close>, or memory ran out; it is no other
  fault.
\<close>

definition safe_res :: "('a \<Rightarrow> bool) \<Rightarrow> 'a res \<Rightarrow> bool" where
  "safe_res P m = (case m of Inr x \<Rightarrow> P x | Inl e \<Rightarrow> e = BadAlloc)"

lemma safe_res_simps [simp]:
  "safe_res P (Inr x) = P x" "safe_res P (Inl e) = (e = BadAlloc)"
  by (simp_all add: safe_res_def)

lemma safe_res_and_then:
  "safe_res P m \<Longrightarrow> (\<And>x. P x \<Longrightarrow> safe_res Q (f x)) \<Longrightarrow> safe_res Q (and_then m f)"
  by (cases m) simp_all

lemma safe_res_mono: "safe_res P m \<Longrightarrow> (\<And>x. P x \<Longrightarrow> Q x) \<Longrightarrow> safe_res Q m"
  by (cases m) simp_all

lemma new_timer_owns: "tq_owns q own \<Longrightarrow> safe_res (\<lambda>q'. tq_owns q' (p # own)) (new_timer q p t)"
  by (auto simp: new_timer_def tq_owns_def)

lemma exec_call_owns: "tq_owns q own \<Longrightarrow> safe_res (\<lambda>q'. tq_owns q' own) (exec_call q c)"
proof (cases c)
  case (CallAdd p cb wh interval)
  assume "tq_owns q own"
  then have "safe_res (\<lambda>q1. tq_owns q1 (p # own)) (new_timer q p (timer_new cb wh interval))"
    by (rule new_timer_owns)
  moreover have "safe_res (\<lambda>r. tq_owns (fst r) own)
      (and_then (run_in_loop True q1 (AddTimerInLoop p)) (\<lambda>(q2, fs). Inr (q2, (wh, p), fs)))"
    if "tq_owns q1 (p # own)" for q1
    using addTimerInLoop_owns [of q1 p own] that by (auto simp: run_in_loop_def)
  ultimately have "safe_res (\<lambda>r. tq_owns (fst r) own) (addTimer True q p cb wh interval)"
    unfolding addTimer_def by (rule safe_res_and_then)
  then have "safe_res (\<lambda>q'. tq_owns q' own)
      (and_then (addTimer True q p cb wh interval) (\<lambda>(q1, _). Inr q1))"
    by (rule safe_res_and_then) auto
  then show ?thesis by (simp only: CallAdd exec_call.simps)
next
  case (CallCancel tid)
  assume "tq_owns q own"
  with cancelTimerInLoop_owns [OF this, of tid] CallCancel show ?thesis
    by (auto simp: cancelTimer_def run_in_loop_def)
qed

lemma exec_calls_owns: "tq_owns q own \<Longrightarrow> safe_res (\<lambda>q'. tq_owns q' own) (exec_calls q cs)"
proof (induction cs arbitrary: q)
  case Nil
  then show ?case by simp
next
  case (Cons c cs)
  have "safe_res (\<lambda>q'. tq_owns q' own) (and_then (exec_call q c) (\<lambda>q1. exec_calls q1 cs))"
    by (rule safe_res_and_then [OF exec_call_owns [OF Cons.prems]]) (rule Cons.IH)
  then show ?case by simp
qed

lemma run_timer_owns:
  assumes "tq_owns q own" "p \<in> set own"
  shows "safe_res (\<lambda>q'. tq_owns q' own) (run_timer beh q p)"
proof -
  have "p \<in> dom (heap q)" using assms by (simp add: tq_owns_def)
  then obtain t where t: "heap q p = Some t" by blast
  have "tq_owns (q\<lparr>fired := fired q @ [callback t]\<rparr>) own"
    using assms(1) by (simp add: tq_owns_def)
  from exec_calls_owns [OF this] t show ?thesis by (simp add: run_timer_def)
qed

lemma run_expired_owns:
  "tq_owns q own \<Longrightarrow> snd ` set es \<subseteq> set own \<Longrightarrow> safe_res (\<lambda>q'. tq_owns q' own) (run_expired beh q es)"
proof (induction es arbitrary: q)
  case Nil
  then show ?case by simp
next
  case (Cons e es)
  have "safe_res (\<lambda>q'. tq_owns q' own)
      (and_then (run_timer beh q (snd e)) (\<lambda>q1. run_expired beh q1 es))"
    by (rule safe_res_and_then [OF run_timer_owns [OF Cons.prems(1)]])
       (use Cons.IH Cons.prems(2) in auto)
  then show ?case by simp
qed

lemma reset_loop_owns:
  "tq_owns q (map snd es @ own) \<Longrightarrow> \<exists>q'. reset_loop q es now = Inr q' \<and> tq_owns q' own"
proof (induction q es now arbitrary: own rule: reset_loop.induct)
  case (1 q now)
  then show ?case by simp
next
  case (2 q w p es now)
  have "p \<in> dom (heap q)" using "2.prems" by (simp add: tq_owns_def)
  then obtain t where t: "heap q p = Some t" by blast
  have fresh: "p \<notin> snd ` set (timers q)" "p \<notin> set (map snd es @ own)"
    using "2.prems" by (auto simp: tq_owns_def)
  show ?case
  proof (cases "repeat t \<and> (w, p) \<notin> set (canceling q)")
    case True
    let ?q = "q\<lparr>heap := (heap q)(p \<mapsto> restart t now), timers := set_insert (w, p) (timers q)\<rparr>"
    have "(w, p) \<notin> set (timers q)" using fresh(1) by force
    then have "tq_owns ?q (map snd es @ own)"
      using "2.prems" fresh by (auto simp: tq_owns_def mset_map_set_insert)
    from "2.IH"(1) [OF t True this] t True show ?thesis by simp
  next
    case False
    let ?q = "q\<lparr>heap := (heap q)(p := None)\<rparr>"
    have "tq_owns ?q (map snd es @ own)"
      using "2.prems" fresh by (auto simp: tq_owns_def)
    from "2.IH"(2) [OF t False, of ?q own] this have
      "\<exists>q'. reset_loop ?q es now = Inr q' \<and> tq_owns q' own" by simp
    with t False show ?thesis
      by (simp only: reset_loop.simps option.case if_False delete_timer_def) simp
  qed
qed

lemma reset_eq:
  assumes "reset q expired now = Inr q'"
  shows "\<exists>q1. reset_loop q expired now = Inr q1 \<and> heap q' = heap q1 \<and> timers q' = timers q1"
proof -
  from assms obtain q1 where q1: "reset_loop q expired now = Inr q1"
    by (cases "reset_loop q expired now") (simp_all add: reset_def)
  show ?thesis
  proof (cases "timers q1")
    case Nil
    with assms q1 show ?thesis by (simp add: reset_def)
  next
    case (Cons e es)
    with assms q1 show ?thesis
      by (cases e; cases "heap q1 (snd e)") (simp_all add: reset_def resetTimerfd_def, force)
  qed
qed

text \<open>What \<open>reset_loop\<close> does to one of the expired timers.\<close>

lemma reset_loop_frame:
  "reset_loop q es now = Inr q' \<Longrightarrow> p \<notin> snd ` set es \<Longrightarrow>
    heap q' p = heap q p \<and> set (timers q) \<subseteq> set (timers q')"
proof (induction q es now rule: reset_loop.induct)
  case (2 q w r es now)
  then obtain t where t: "heap q r = Some t" by (cases "heap q r") auto
  show ?case
  proof (cases "repeat t \<and> (w, r) \<notin> set (canceling q)")
    case True
    with 2 t show ?thesis by fastforce
  next
    case False
    with "2.prems" t have "reset_loop (q\<lparr>heap := (heap q)(r := None)\<rparr>) es now = Inr q'"
      by (auto simp: delete_timer_def)
    with "2.IH"(2) [OF t False] "2.prems"(2) show ?thesis by force
  qed
qed simp

lemma reset_loop_drops:
  "reset_loop q es now = Inr q' \<Longrightarrow> distinct (map snd es) \<Longrightarrow> (w, p) \<in> set es \<Longrightarrow>
    (w, p) \<in> set (canceling q) \<Longrightarrow> heap q' p = None"
proof (induction q es now rule: reset_loop.induct)
  case (2 q v r es now)
  then obtain t where t: "heap q r = Some t" by (cases "heap q r") auto
  show ?case
  proof (cases "repeat t \<and> (v, r) \<notin> set (canceling q)")
    case True
    with 2 t have "(w, p) \<in> set es" by auto
    with True 2 t show ?thesis by auto
  next
    case False
    with "2.prems" t have r: "reset_loop (q\<lparr>heap := (heap q)(r := None)\<rparr>) es now = Inr q'"
      by (auto simp: delete_timer_def)
    show ?thesis
    proof (cases "(w, p) = (v, r)")
      case True
      with reset_loop_frame [OF r, of p] "2.prems"(2) show ?thesis by force
    next
      case F: False
      with "2.IH"(2) [OF t False, of "q\<lparr>heap := (heap q)(r := None)\<rparr>"] r "2.prems"
      show ?thesis using t by (auto simp: delete_timer_def)
    qed
  qed
qed simp

lemma reset_loop_restarts:
  "reset_loop q es now = Inr q' \<Longrightarrow> distinct (map snd es) \<Longrightarrow> (w, p) \<in> set es \<Longrightarrow>
    heap q p = Some t \<Longrightarrow> repeat t \<Longrightarrow> (w, p) \<notin> set (canceling q) \<Longrightarrow>
    (w, p) \<in> set (timers q') \<and> heap q' p = Some (restart t now)"
proof (induction q es now rule: reset_loop.induct)
  case (2 q v r es now)
  then obtain s where s: "heap q r = Some s" by (cases "heap q r") auto
  show ?case
  proof (cases "(w, p) = (v, r)")
    case True
    with 2 s have rl: "reset_loop (q\<lparr>heap := (heap q)(p \<mapsto> restart t now),
        timers := set_insert (w, p) (timers q)\<rparr>) es now = Inr q'" by auto
    have "p \<notin> snd ` set es" using "2.prems"(2) True by auto
    from reset_loop_frame [OF rl this] show ?thesis by simp
  next
    case neq: False
    then have mem: "(w, p) \<in> set es" using "2.prems"(3) by auto
    then have pr: "p \<noteq> r" using "2.prems"(2) by force
    show ?thesis
    proof (cases "repeat s \<and> (v, r) \<notin> set (canceling q)")
      case True
      with 2 s mem pr show ?thesis by auto
    next
      case False
      with "2.prems" s have "reset_loop (q\<lparr>heap := (heap q)(r := None)\<rparr>) es now = Inr q'"
        by (auto simp: delete_timer_def)
      with "2.IH"(2) [OF s False, of "q\<lparr>heap := (heap q)(r := None)\<rparr>"] "2.prems" mem pr
      show ?thesis using s by (auto simp: delete_timer_def)
    qed
  qed
qed simp

lemma reset_keeps_own:
  assumes "tq_owns q (map snd expired @ own)"
  shows "\<exists>q'. reset q expired now = Inr q' \<and> tq_owns q' own"
proof -
  from reset_loop_owns [of q expired own] assms obtain q1 where
    q1: "reset_loop q expired now = Inr q1" "tq_owns q1 own" by auto
  show ?thesis
  proof (cases "timers q1")
    case Nil
    with q1 show ?thesis by (simp add: reset_def)
  next
    case (Cons e es)
    obtain w p where e: "e = (w, p)" by (cases e)
    have "p \<in> dom (heap q1)" using tq_owns_live [OF q1(2), of e] Cons e by simp
    then obtain t where "heap q1 p = Some t" by blast
    with q1 Cons e show ?thesis
      by (simp add: reset_def resetTimerfd_def tq_owns_def)
  qed
qed

lemmas reset_owns = reset_keeps_own [where own = "[]", unfolded append_Nil2]

lemma getExpired_keeps_own:
  assumes q: "tq_owns q own"
  shows "\<exists>expired q'. getExpired q now = Inr (expired, q') \<and> tq_owns q' (map snd expired @ own) \<and>
    timers q = expired @ timers q' \<and> (\<forall>e \<in> set expired. fst e \<le> now) \<and>
    (\<forall>e \<in> set (timers q'). now < fst e) \<and> heap q' = heap q \<and> canceling q' = canceling q"
proof -
  let ?P = "\<lambda>e. e < (now, UINTPTR_MAX)"
  let ?ex = "takeWhile ?P (timers q)" and ?re = "dropWhile ?P (timers q)"
  have srt: "sorted (timers q)" and bound: "\<forall>e \<in> set (timers q). snd e < UINTPTR_MAX"
    using q by (auto simp: tq_owns_def)
  have re: "now < fst e" if "e \<in> set ?re" for e
  proof -
    have "?re \<noteq> []" using that by (metis list.distinct(1) list.set_cases)
    then have "\<not> hd ?re < (now, UINTPTR_MAX)" by (rule hd_dropWhile)
    moreover have "sorted ?re" using srt by (simp add: sorted_dropWhile)
    then have "hd ?re \<le> e" using that by (cases ?re) auto
    ultimately have "(now, UINTPTR_MAX) \<le> e" by simp
    moreover have "snd e < UINTPTR_MAX" using bound set_dropWhileD that by metis
    ultimately show ?thesis by (cases e) (auto simp: less_eq_prod_def)
  qed
  have ex: "fst e \<le> now" if "e \<in> set ?ex" for e
    using set_takeWhileD [OF that] by (cases e) (auto simp: less_prod_def)
  have "?re = [] \<or> now < fst (hd ?re)"
    using re [of "hd ?re"] by (cases "?re = []") auto
  then have g: "getExpired q now = Inr (?ex, q\<lparr>timers := ?re\<rparr>)"
    by (simp add: getExpired_def Let_def)
  have set_eq: "set (timers q) = set ?ex \<union> set ?re"
    by (metis set_append takeWhile_dropWhile_id)
  have "map snd (timers q) = map snd ?ex @ map snd ?re" by (metis map_append takeWhile_dropWhile_id)
  with q srt set_eq have "tq_owns (q\<lparr>timers := ?re\<rparr>) (map snd ?ex @ own)"
    by (auto simp: tq_owns_def sorted_dropWhile image_Un)
  with g ex re show ?thesis by auto
qed

lemmas getExpired_owns = getExpired_keeps_own [where own = "[]", unfolded append_Nil2]

lemma handleRead_keeps_own:
  assumes "tq_owns q own"
  shows "safe_res (\<lambda>q'. tq_owns q' own) (handleRead beh now q)"
proof -
  let ?q1 = "(readTimerfd q)\<lparr>canceling := []\<rparr>"
  have "tq_owns ?q1 own" using assms by (simp add: tq_owns_def readTimerfd_def)
  from getExpired_keeps_own [OF this, of now] obtain ex q2 where
    ex: "getExpired ?q1 now = Inr (ex, q2)" "tq_owns q2 (map snd ex @ own)" by blast
  then have "tq_owns (q2\<lparr>callingExpired := True\<rparr>) (map snd ex @ own)" by (simp add: tq_owns_def)
  then have "safe_res (\<lambda>q3. tq_owns q3 (map snd ex @ own)) (run_expired beh (q2\<lparr>callingExpired := True\<rparr>) ex)"
    by (rule run_expired_owns) simp
  then have "safe_res (\<lambda>q'. tq_owns q' own) (and_then (run_expired beh (q2\<lparr>callingExpired := True\<rparr>) ex)
      (\<lambda>q3. reset (q3\<lparr>callingExpired := False\<rparr>) ex now))"
  proof (rule safe_res_and_then)
    fix q3 assume "tq_owns q3 (map snd ex @ own)"
    then have "tq_owns (q3\<lparr>callingExpired := False\<rparr>) (map snd ex @ own)" by (simp add: tq_owns_def)
    from reset_keeps_own [OF this, of now] show
      "safe_res (\<lambda>q'. tq_owns q' own) (reset (q3\<lparr>callingExpired := False\<rparr>) ex now)" by auto
  qed
  with ex(1) show ?thesis by (simp add: handleRead_def Let_def)
qed

lemmas handleRead_owns = handleRead_keeps_own [where own = "[]"]

section \<open>One-shot timers are never late\<close>

text \<open>
  \<open>once_keys\<close>: no live timer repeats, and every registered timer is filed under its expiration.
  \<open>armed_first\<close>: if a timer is registered, the descriptor is armed for a time no later than it.
\<close>

definition once_keys :: "timer_queue \<Rightarrow> bool" where
  "once_keys q \<longleftrightarrow> (\<forall>p t. heap q p = Some t \<longrightarrow> \<not> repeat t) \<and>
     (\<forall>e \<in> set (timers q). \<forall>t. heap q (snd e) = Some t \<longrightarrow> expiration t = fst e)"

definition armed_first :: "timer_queue \<Rightarrow> bool" where
  "armed_first q \<longleftrightarrow> (\<forall>e \<in> set (timers q). \<exists>a. armed q = Some a \<and> a \<le> fst e)"

fun call_once :: "tq_call \<Rightarrow> bool" where
  "call_once (CallAdd p cb wh interval) = (interval \<le> 0)"
| "call_once (CallCancel tid) = True"

lemma addTimerInLoop_eq:
  assumes "addTimerInLoop q p = Inr q'"
  obtains t where "heap q p = Some t" "(expiration t, p) \<notin> set (timers q)"
    "heap q' = heap q" "timers q' = set_insert (expiration t, p) (timers q)"
    "armed q' = (if timers q = [] \<or> expiration t < fst (hd (timers q))
                 then Some (expiration t) else armed q)"
proof -
  from assms obtain t where t: "heap q p = Some t" by (cases "heap q p") (simp_all add: addTimerInLoop_def)
  with assms have n: "(expiration t, p) \<notin> set (timers q)"
    by (simp add: addTimerInLoop_def Let_def split: if_splits)
  with t assms have "q' = (if timers q = [] \<or> expiration t < fst (hd (timers q))
      then resetTimerfd (q\<lparr>timers := set_insert (expiration t, p) (timers q)\<rparr>) (expiration t)
      else q\<lparr>timers := set_insert (expiration t, p) (timers q)\<rparr>)"
    by (simp add: addTimerInLoop_def Let_def)
  with t n show ?thesis by (intro that [of t]) (auto simp: resetTimerfd_def)
qed

lemma cancelTimerInLoop_eq:
  assumes "cancelTimerInLoop q tid = Inr q'"
  shows "set (timers q') \<subseteq> set (timers q)" "armed q' = armed q"
    "heap q' = heap q \<or> heap q' = (heap q)(snd tid := None)"
proof -
  have "q' = q \<or> q' = q\<lparr>canceling := set_insert tid (canceling q)\<rparr> \<or>
      q' = q\<lparr>heap := (heap q)(snd tid := None), timers := remove1 tid (timers q)\<rparr>"
    using assms by (simp add: cancelTimerInLoop_def delete_timer_def split: if_splits)
  then show "set (timers q') \<subseteq> set (timers q)" "armed q' = armed q"
    "heap q' = heap q \<or> heap q' = (heap q)(snd tid := None)"
    using set_remove1_subset [of tid "timers q"] by auto
qed

lemma once_keys_mono:
  "once_keys q \<Longrightarrow> set (timers q') \<subseteq> set (timers q) \<Longrightarrow> heap q' \<subseteq>\<^sub>m heap q \<Longrightarrow> once_keys q'"
  unfolding once_keys_def map_le_def by (metis domI subsetD)

lemma addTimerInLoop_once:
  assumes "addTimerInLoop q p = Inr q'" "once_keys q"
  shows "once_keys q'"
  using assms(1) by (rule addTimerInLoop_eq) (use assms(2) in \<open>simp add: once_keys_def\<close>)

lemma cancelTimerInLoop_once:
  assumes "cancelTimerInLoop q tid = Inr q'" "once_keys q"
  shows "once_keys q'"
proof (rule once_keys_mono [OF assms(2) cancelTimerInLoop_eq(1) [OF assms(1)]])
  show "heap q' \<subseteq>\<^sub>m heap q"
    using cancelTimerInLoop_eq(3) [OF assms(1)] by (auto simp: map_le_def split: if_splits)
qed

lemma exec_call_once: "exec_call q c = Inr q' \<Longrightarrow> call_once c \<Longrightarrow> tq_owns q own \<Longrightarrow> once_keys q \<Longrightarrow> once_keys q'"
proof (cases c)
  case (CallAdd p cb wh interval)
  assume e: "exec_call q c = Inr q'" and c: "call_once c" and o: "tq_owns q own" and k: "once_keys q"
  let ?t = "timer_new cb wh interval"
  from e CallAdd obtain q1 where q1: "new_timer q p ?t = Inr q1" "addTimerInLoop q1 p = Inr q'"
    by (auto simp: addTimer_def and_then_eq_Inr run_in_loop_def)
  from q1(1) have h: "q1 = q\<lparr>heap := (heap q)(p \<mapsto> ?t)\<rparr>" "heap q p = None"
    by (auto simp: new_timer_def split: if_splits)
  have "p \<notin> snd ` set (timers q)" using o h(2) by (auto simp: tq_owns_def)
  then have "\<forall>e \<in> set (timers q). snd e \<noteq> p" by auto
  then have "once_keys q1"
    using k c CallAdd by (auto simp: once_keys_def h(1) timer_new_def)
  with q1(2) show ?thesis by (rule addTimerInLoop_once)
next
  case (CallCancel tid)
  assume "exec_call q c = Inr q'" "once_keys q"
  with CallCancel show ?thesis
    by (auto simp: cancelTimer_def and_then_eq_Inr run_in_loop_def intro: cancelTimerInLoop_once)
qed

lemma exec_calls_once:
  "exec_calls q cs = Inr q' \<Longrightarrow> list_all call_once cs \<Longrightarrow> tq_owns q own \<Longrightarrow> once_keys q \<Longrightarrow> once_keys q'"
proof (induction cs arbitrary: q)
  case Nil
  then show ?case by simp
next
  case (Cons c cs)
  then obtain q1 where q1: "exec_call q c = Inr q1" "exec_calls q1 cs = Inr q'"
    by (auto simp: and_then_eq_Inr)
  with exec_call_owns [OF Cons.prems(3), of c] have "tq_owns q1 own" by simp
  moreover have "once_keys q1" using exec_call_once [OF q1(1)] Cons.prems by simp
  ultimately show ?case using Cons.IH [OF q1(2)] Cons.prems by simp
qed

lemma run_expired_once:
  assumes beh: "\<And>cb. list_all call_once (beh cb)"
  shows "run_expired beh q es = Inr q' \<Longrightarrow> tq_owns q own \<Longrightarrow> snd ` set es \<subseteq> set own \<Longrightarrow>
    once_keys q \<Longrightarrow> once_keys q'"
proof (induction es arbitrary: q)
  case Nil
  then show ?case by simp
next
  case (Cons e es)
  then obtain q1 where q1: "run_timer beh q (snd e) = Inr q1" "run_expired beh q1 es = Inr q'"
    by (auto simp: and_then_eq_Inr)
  have own1: "tq_owns q1 own"
    using run_timer_owns [of q own "snd e" beh] q1(1) Cons.prems(2,3) by simp
  from q1(1) obtain t :: timer where
    "exec_calls (q\<lparr>fired := fired q @ [callback t]\<rparr>) (beh (callback t)) = Inr q1"
    unfolding run_timer_def by (cases "heap q (snd e)") auto
  moreover have "tq_owns (q\<lparr>fired := fired q @ [callback t]\<rparr>) own"
    "once_keys (q\<lparr>fired := fired q @ [callback t]\<rparr>)"
    using Cons.prems by (simp_all add: tq_owns_def once_keys_def)
  ultimately have "once_keys q1" using exec_calls_once beh by blast
  with Cons.IH [OF q1(2) own1] Cons.prems(3) show ?case by simp
qed

lemma reset_loop_once:
  "reset_loop q es now = Inr q' \<Longrightarrow> once_keys q \<Longrightarrow> once_keys q'"
proof (induction q es now rule: reset_loop.induct)
  case (2 q w p es now)
  then obtain t where t: "heap q p = Some t" by (auto split: option.splits)
  with \<open>once_keys q\<close> have r: "\<not> (repeat t \<and> (w, p) \<notin> set (canceling q))"
    by (auto simp: once_keys_def)
  have k: "once_keys (q\<lparr>heap := (heap q)(p := None)\<rparr>)"
    using \<open>once_keys q\<close> by (auto simp: once_keys_def)
  from "2.prems"(1) t r have "reset_loop (q\<lparr>heap := (heap q)(p := None)\<rparr>) es now = Inr q'"
    by (auto simp: delete_timer_def)
  with "2.IH"(2) [OF t r] k show ?case by blast
qed simp

lemma armed_first_hd: "sorted (timers q) \<Longrightarrow> timers q \<noteq> [] \<Longrightarrow>
  armed q = Some (fst (hd (timers q))) \<Longrightarrow> armed_first q"
  by (cases "timers q") (auto simp: armed_first_def less_eq_prod_def)

lemma addTimerInLoop_armed:
  assumes add: "addTimerInLoop q p = Inr q'" and srt: "sorted (timers q)" and arm: "armed_first q"
  shows "armed_first q'"
proof -
  from add obtain t :: timer where t: "timers q' = set_insert (expiration t, p) (timers q)"
    "armed q' = (if timers q = [] \<or> expiration t < fst (hd (timers q))
                 then Some (expiration t) else armed q)"
    by (rule addTimerInLoop_eq)
  have hd_le: "fst (hd (timers q)) \<le> fst e" if "e \<in> set (timers q)" for e
  proof -
    have "hd (timers q) \<le> e" using that srt by (cases "timers q") auto
    then show ?thesis by (simp add: less_eq_prod_def) linarith
  qed
  show ?thesis
  proof (cases "timers q = [] \<or> expiration t < fst (hd (timers q))")
    case True
    then have "expiration t \<le> fst e" if "e \<in> set (timers q)" for e
      using hd_le [OF that] that by (cases "timers q") auto
    with True t show ?thesis by (auto simp: armed_first_def)
  next
    case False
    then have "hd (timers q) \<in> set (timers q)" by simp
    with arm obtain a where a: "armed q = Some a" "a \<le> fst (hd (timers q))"
      unfolding armed_first_def by blast
    with False have "a \<le> expiration t" by linarith
    moreover have "\<forall>e \<in> set (timers q). a \<le> fst e"
      using arm a(1) by (auto simp: armed_first_def)
    ultimately show ?thesis using a(1) False t by (auto simp: armed_first_def)
  qed
qed

lemma cancelTimerInLoop_armed:
  assumes "cancelTimerInLoop q tid = Inr q'" "armed_first q"
  shows "armed_first q'"
  using cancelTimerInLoop_eq(1,2) [OF assms(1)] assms(2) unfolding armed_first_def by auto

lemma reset_armed:
  assumes r: "reset q es now = Inr q'" and k: "once_keys q" and o: "tq_owns q (map snd es @ own)"
  shows "once_keys q' \<and> armed_first q'"
proof -
  from reset_loop_owns [OF o, of now] obtain q1 where
    q1: "reset_loop q es now = Inr q1" "tq_owns q1 own" by auto
  then have k1: "once_keys q1" using reset_loop_once k by blast
  show ?thesis
  proof (cases "timers q1")
    case Nil
    with r q1 k1 show ?thesis by (simp add: reset_def armed_first_def)
  next
    case (Cons e rest)
    obtain w p where e: "e = (w, p)" by (cases e)
    have "p \<in> dom (heap q1)" using tq_owns_live [OF q1(2), of e] Cons e by simp
    then obtain t where t: "heap q1 p = Some t" by blast
    with k1 Cons e have w: "expiration t = w" by (auto simp: once_keys_def)
    from r q1 Cons e t have q': "q' = resetTimerfd q1 w" by (simp add: reset_def w)
    have "armed_first q'"
      by (rule armed_first_hd) (use q1(2) Cons e in \<open>simp_all add: q' resetTimerfd_def tq_owns_def\<close>)
    with k1 show ?thesis by (simp add: q' resetTimerfd_def once_keys_def)
  qed
qed

lemma handleRead_armed:
  assumes o: "tq_owns q own" and k: "once_keys q" and beh: "\<And>cb. list_all call_once (beh cb)"
    and h: "handleRead beh now q = Inr q'"
  shows "once_keys q' \<and> armed_first q'"
proof -
  let ?q1 = "(readTimerfd q)\<lparr>canceling := []\<rparr>"
  have "tq_owns ?q1 own" using o by (simp add: tq_owns_def readTimerfd_def)
  from getExpired_keeps_own [OF this, of now] obtain ex q2 where
    ex: "getExpired ?q1 now = Inr (ex, q2)" "tq_owns q2 (map snd ex @ own)" and
    sub: "timers ?q1 = ex @ timers q2" "heap q2 = heap ?q1" by blast
  let ?q2 = "q2\<lparr>callingExpired := True\<rparr>"
  have o2: "tq_owns ?q2 (map snd ex @ own)" using ex(2) by (simp add: tq_owns_def)
  have "set (timers q2) \<subseteq> set (timers q)" using sub(1) by (auto simp: readTimerfd_def)
  then have k2: "once_keys ?q2"
    using k sub(2) by (intro once_keys_mono [OF k]) (simp_all add: readTimerfd_def)
  from h ex(1) obtain q3 where q3: "run_expired beh ?q2 ex = Inr q3"
    "reset (q3\<lparr>callingExpired := False\<rparr>) ex now = Inr q'"
    by (auto simp: handleRead_def Let_def and_then_eq_Inr)
  have "once_keys q3" using run_expired_once [OF beh q3(1) o2 _ k2] by simp
  moreover have "tq_owns q3 (map snd ex @ own)"
    using run_expired_owns [OF o2, of ex beh] q3(1) by simp
  ultimately have "once_keys (q3\<lparr>callingExpired := False\<rparr>)"
    "tq_owns (q3\<lparr>callingExpired := False\<rparr>) (map snd ex @ own)"
    by (simp_all add: once_keys_def tq_owns_def)
  with reset_armed [OF q3(2)] show ?thesis by blast
qed

section \<open>Properties\<close>

text \<open>
  Memory safety of the timer queue: starting from a queue that owns exactly its registered
  timers, handling an expiry (with callbacks that add and cancel any timers, themselves
  included) never uses a freed timer, never frees one twice and never fails an assertion; it
  ends in such a queue again, so nothing leaks. The one possible failure is the allocator's.
\<close>
theorem handleRead_memory_safe:
  assumes "tq_owns q []"
  shows "case handleRead beh now q of Inr q' \<Rightarrow> tq_owns q' [] | Inl f \<Rightarrow> f = BadAlloc"
  using handleRead_owns [OF assms] by (simp add: safe_res_def)

theorem handleRead_memory_safe_witness:
  "case handleRead (\<lambda>cb. [CallCancel (5, 1), CallAdd 2 7 9 0]) 6 
      \<lparr>heap = [1 \<mapsto> timer_new 3 5 1], timers = [(5, 1)], callingExpired = False, canceling = [],
       armed = Some 5, fired = []\<rparr> of
     Inr q' \<Rightarrow> tq_owns q' [] | Inl f \<Rightarrow> f = BadAlloc"
  by (rule handleRead_memory_safe) (simp add: tq_owns_def UINTPTR_MAX_def)

text \<open>
  \<open>getExpired\<close> splits the registered timers exactly at the current time: it returns, in order,
  those filed at or before it, and leaves those filed later; its assertion holds.
\<close>
theorem getExpired_splits_at_now:
  assumes "tq_owns q []"
  shows "\<exists>expired q'. getExpired q now = Inr (expired, q') \<and> timers q = expired @ timers q' \<and>
    set expired = {e \<in> set (timers q). fst e \<le> now} \<and>
    set (timers q') = {e \<in> set (timers q). now < fst e}"
  using getExpired_owns [OF assms, of now] by fastforce

theorem getExpired_splits_at_now_witness:
  "\<exists>q'. getExpired \<lparr>heap = [1 \<mapsto> timer_new 3 5 1, 2 \<mapsto> timer_new 3 8 1], timers = [(5, 1), (8, 2)],
       callingExpired = False, canceling = [], armed = Some 5, fired = []\<rparr> 5 = Inr ([(5, 1)], q')"
proof -
  let ?q = "\<lparr>heap = [1 \<mapsto> timer_new 3 5 1, 2 \<mapsto> timer_new 3 8 1], timers = [(5, 1), (8, 2)],
       callingExpired = False, canceling = [], armed = Some 5, fired = []\<rparr>"
  have "tq_owns ?q []" by (auto simp: tq_owns_def UINTPTR_MAX_def)
  from getExpired_splits_at_now [OF this, of 5] obtain ex q' where
    g: "getExpired ?q 5 = Inr (ex, q')" "timers ?q = ex @ timers q'"
    "set ex = {e \<in> set (timers ?q). fst e \<le> 5}" by blast
  have s: "set ex = {(5, 1)}" unfolding g(3) by auto
  have l: "[(5, 1), (8, 2)] = ex @ timers q'" using g(2) by simp
  have "ex = [(5, 1)]"
  proof (cases ex)
    case Nil
    with s show ?thesis by simp
  next
    case (Cons e es)
    with l have "e = (5, 1)" "es @ timers q' = [(8, 2)]" by simp_all
    moreover from this(2) s Cons have "es = []" by (cases es) auto
    ultimately show ?thesis using Cons by simp
  qed
  with g(1) show ?thesis by blast
qed

text \<open>
  One-shot timers are never late: if no timer repeats, handling an expiry (with callbacks that
  add further one-shot timers) leaves the descriptor armed for a time no later than every timer
  still registered, and adding or cancelling a timer in the loop keeps that.
\<close>
theorem oneshot_timers_not_late:
  assumes "tq_owns q []" "once_keys q" "\<And>cb. list_all call_once (beh cb)"
  shows "(\<forall>q'. handleRead beh now q = Inr q' \<longrightarrow> once_keys q' \<and> armed_first q') \<and>
    (\<forall>p q'. armed_first q \<longrightarrow> addTimerInLoop q p = Inr q' \<longrightarrow> armed_first q') \<and>
    (\<forall>tid q'. armed_first q \<longrightarrow> cancelTimerInLoop q tid = Inr q' \<longrightarrow> armed_first q')"
  using handleRead_armed [OF assms(1,2,3)] addTimerInLoop_armed cancelTimerInLoop_armed assms(1)
  by (auto simp: tq_owns_def)

theorem oneshot_timers_not_late_witness:
  "\<exists>q'. handleRead (\<lambda>cb. [CallAdd 2 7 9 0]) 6
      \<lparr>heap = [1 \<mapsto> timer_new 3 5 0, 4 \<mapsto> timer_new 3 30 0], timers = [(5, 1), (30, 4)],
       callingExpired = False, canceling = [], armed = Some 5, fired = []\<rparr> = Inr q' \<and>
     timers q' = [(9, 2), (30, 4)] \<and> armed_first q'"
proof -
  let ?q = "\<lparr>heap = [1 \<mapsto> timer_new 3 5 0, 4 \<mapsto> timer_new 3 30 0], timers = [(5, 1), (30, 4)],
       callingExpired = False, canceling = [], armed = Some 5, fired = []\<rparr>"
  have o: "tq_owns ?q []" by (auto simp: tq_owns_def UINTPTR_MAX_def)
  have k: "once_keys ?q" by (auto simp: once_keys_def timer_new_def split: if_splits)
  have b: "list_all call_once ((\<lambda>cb. [CallAdd 2 7 9 0]) cb)" for cb :: nat by simp
  have "\<exists>q'. handleRead (\<lambda>cb. [CallAdd 2 7 9 0]) 6 ?q = Inr q' \<and> timers q' = [(9, 2), (30, 4)]"
    apply (simp add: handleRead_def readTimerfd_def getExpired_def Let_def)
    apply (simp add: run_timer_def timer_new_def)
    apply (simp add: addTimer_def new_timer_def nullptr_def UINTPTR_MAX_def run_in_loop_def timer_new_def)
    apply (simp add: addTimerInLoop_def set_insert_def Let_def)
    apply (simp add: reset_def delete_timer_def resetTimerfd_def)
    done
  then obtain q' where q': "handleRead (\<lambda>cb. [CallAdd 2 7 9 0]) 6 ?q = Inr q'"
    and t: "timers q' = [(9, 2), (30, 4)]" by blast
  with oneshot_timers_not_late [of ?q "\<lambda>cb. [CallAdd 2 7 9 0]" 6, OF o k b] show ?thesis
    by blast
qed

text \<open>
  A timer cancelled while it is being handled stays dead: if its id was put on the cancel list
  during the callbacks, \<open>reset\<close> does not register it again, and frees it.
\<close>
theorem cancelled_while_expired_is_dropped:
  assumes "tq_owns q (map snd expired)" "(w, p) \<in> set expired" "(w, p) \<in> set (canceling q)"
  shows "\<exists>q'. reset q expired now = Inr q' \<and> heap q' p = None \<and> p \<notin> snd ` set (timers q')"
proof -
  from reset_owns [OF assms(1)] obtain q' where q': "reset q expired now = Inr q'" "tq_owns q' []"
    by blast
  then obtain q1 where q1: "reset_loop q expired now = Inr q1" and h: "heap q' = heap q1"
    using reset_eq by blast
  have "heap q1 p = None"
    by (rule reset_loop_drops [OF q1]) (use assms in \<open>auto simp: tq_owns_def\<close>)
  with h q' have "p \<notin> dom (heap q')" by auto
  with q' h show ?thesis by (auto simp: tq_owns_def)
qed

theorem cancelled_while_expired_is_dropped_witness:
  "\<exists>q'. reset \<lparr>heap = [1 \<mapsto> timer_new 3 5 1], timers = [], callingExpired = False,
       canceling = [(5, 1)], armed = None, fired = [3]\<rparr> [(5, 1)] 6 = Inr q' \<and>
     heap q' 1 = None \<and> 1 \<notin> snd ` set (timers q')"
  by (rule cancelled_while_expired_is_dropped) (auto simp: tq_owns_def UINTPTR_MAX_def)

text \<open>
  A repeating timer is filed again under its old time: after \<open>reset\<close> its expiration is one
  interval after now, but its entry still carries the time at which it first expired. So it is
  among the expired timers at every later expiry of the descriptor, whatever its interval.
\<close>
theorem repeating_timer_keeps_old_key:
  assumes "tq_owns q (map snd expired)" "(w, p) \<in> set expired" "w \<le> now"
    "heap q p = Some t" "repeat t" "(w, p) \<notin> set (canceling q)" "now \<le> now'"
  shows "\<exists>q' t' ex q''. reset q expired now = Inr q' \<and> heap q' p = Some t' \<and>
    expiration t' = addTime now (intervalInSec t) \<and>
    getExpired q' now' = Inr (ex, q'') \<and> (w, p) \<in> set ex"
proof -
  from reset_owns [OF assms(1)] obtain q' where q': "reset q expired now = Inr q'" "tq_owns q' []"
    by blast
  then obtain q1 where q1: "reset_loop q expired now = Inr q1" and h: "heap q' = heap q1"
    and t: "timers q' = timers q1" using reset_eq by blast
  have k: "(w, p) \<in> set (timers q1) \<and> heap q1 p = Some (restart t now)"
    by (rule reset_loop_restarts [OF q1]) (use assms in \<open>auto simp: tq_owns_def\<close>)
  from getExpired_owns [OF q'(2), of now'] obtain ex q'' where
    g: "getExpired q' now' = Inr (ex, q'')" "timers q' = ex @ timers q''"
    "\<forall>e \<in> set (timers q''). now' < fst e" by blast
  have "(w, p) \<notin> set (timers q'')" using g(3) assms(3,7) by force
  with g(2) k t have "(w, p) \<in> set ex" by auto
  with q'(1) h k g(1) assms(5) show ?thesis
    by (intro exI [of _ q'] exI [of _ "restart t now"] exI [of _ ex] exI [of _ q''])
       (simp add: restart_def)
qed

theorem repeating_timer_keeps_old_key_witness:
  "\<exists>q' t' ex q''. reset \<lparr>heap = [1 \<mapsto> timer_new 3 10000000 10], timers = [], callingExpired = False,
       canceling = [], armed = None, fired = [3]\<rparr> [(10000000, 1)] 10000000 = Inr q' \<and>
     heap q' 1 = Some t' \<and> expiration t' = 20000000 \<and>
     getExpired q' 11000000 = Inr (ex, q'') \<and> (10000000, 1) \<in> set ex"
proof -
  let ?q = "\<lparr>heap = [1 \<mapsto> timer_new 3 10000000 10], timers = [], callingExpired = False,
       canceling = [], armed = None, fired = [3]\<rparr>"
  have "tq_owns ?q (map snd [(10000000, 1)])"
    by (simp add: tq_owns_def UINTPTR_MAX_def)
  moreover have "addTime 10000000 (intervalInSec (timer_new 3 10000000 10)) = 20000000"
    by (simp add: timer_new_def addTime_def trunc_rat_def kMicroSecondsPerSecond_def)
  ultimately show ?thesis
    using repeating_timer_keeps_old_key
      [of ?q "[(10000000, 1)]" 10000000 1 10000000 "timer_new 3 10000000 10" 11000000]
    by (simp add: timer_new_def)
qed

text \<open>
  The interval given to \<open>timerfd_settime\<close> is well formed and exact: at least 100 microseconds,
  nanoseconds below one second, and otherwise the distance from now to the wanted time.
\<close>
theorem howMuchTimeFromNow_exact:
  "let ts = howMuchTimeFromNow when now in
    0 \<le> tv_sec ts \<and> 0 \<le> tv_nsec ts \<and> tv_nsec ts < 1000000000 \<and>
    tv_sec ts * 1000000000 + tv_nsec ts = 1000 * max 100 (when - now)"
proof -
  let ?d = "max 100 (when - now)"
  have "0 \<le> ?d" by simp
  moreover have "howMuchTimeFromNow when now =
      \<lparr>tv_sec = cdiv ?d kMicroSecondsPerSecond, tv_nsec = cmod ?d kMicroSecondsPerSecond * 1000\<rparr>"
    by (simp add: howMuchTimeFromNow_def Let_def max_def)
  moreover have "?d mod 1000000 < 1000000" "0 \<le> ?d mod 1000000" "0 \<le> ?d div 1000000"
    "?d div 1000000 * 1000000 + ?d mod 1000000 = ?d"
    using \<open>0 \<le> ?d\<close> pos_imp_zdiv_nonneg_iff [of 1000000 ?d] by simp_all
  moreover from this(4) have "?d div 1000000 * 1000000000 + ?d mod 1000000 * 1000 = 1000 * ?d"
    by linarith
  ultimately show ?thesis by (simp add: kMicroSecondsPerSecond_def Let_def)
qed

end
