(* ===== verification/LogStream.thy ===== *)
theory LogStream
  imports Prelude Buffer "HOL-Library.Sublist"
begin

text \<open>
  \<open>matelib/base/LogStream.h\<close> and \<open>.cc\<close>: the fixed-size log buffer and the formatting stream.

  A \<open>FixedBuffer\<close> is the bytes written so far (\<open>data_\<close> up to \<open>cur_\<close>) and its size. Writing past
  the end of the array is \<open>None\<close>. The class is used with 4 KiB (one log line) and 4 MiB (the
  asynchronous log's buffers). The locale \<open>log_buffer\<close> is what the asynchronous log relies on.
\<close>

section \<open>FixedBuffer\<close>

(* src/matelib/base/LogStream.h:17-17 detail::kSmallBuffer *)
definition kSmallBuffer :: nat where "kSmallBuffer = 4096"

(* src/matelib/base/LogStream.h:18-18 detail::kLargeBuffer *)
definition kLargeBuffer :: nat where "kLargeBuffer = 4096 * 1024"

(* src/matelib/base/LogStream.h:53-59 FixedBuffer *)
record fixed_buffer =
  written :: string
  bufSize :: nat

(* src/matelib/base/LogStream.h:25-29 FixedBuffer::FixedBuffer *)
definition fb_new :: "nat \<Rightarrow> fixed_buffer" where
  "fb_new n = \<lparr>written = [], bufSize = n\<rparr>"

(* src/matelib/base/LogStream.h:42-42 FixedBuffer::length *)
definition fb_length :: "fixed_buffer \<Rightarrow> int" where
  "fb_length b = to_int32 (int (length (written b)))"

(* src/matelib/base/LogStream.h:43-43 FixedBuffer::avail *)
definition avail :: "fixed_buffer \<Rightarrow> int" where
  "avail b = to_int32 (int (bufSize b) - int (length (written b)))"

text \<open>Bytes stored at \<open>cur_\<close> and beyond must lie inside the array.\<close>

definition store_at_cur :: "fixed_buffer \<Rightarrow> string \<Rightarrow> unit option" where
  "store_at_cur b s = assertc (length (written b) + length s \<le> bufSize b)"

text \<open>\<open>add\<close> moves \<open>cur_\<close> over bytes just stored.\<close>

(* src/matelib/base/LogStream.h:45-45 FixedBuffer::add *)
definition fb_add :: "fixed_buffer \<Rightarrow> string \<Rightarrow> fixed_buffer" where
  "fb_add b s = b\<lparr>written := written b @ s\<rparr>"

(* src/matelib/base/LogStream.h:32-38 FixedBuffer::append *)
definition fb_append :: "fixed_buffer \<Rightarrow> string \<Rightarrow> fixed_buffer option" where
  "fb_append b s =
     (if avail b > to_int32 (int (length s)) then do {
        store_at_cur b s;
        Some (b\<lparr>written := written b @ s\<rparr>)
      } else Some b)"

(* src/matelib/base/LogStream.h:46-46 FixedBuffer::reset *)
definition fb_reset :: "fixed_buffer \<Rightarrow> fixed_buffer" where
  "fb_reset b = b\<lparr>written := []\<rparr>"

(* src/matelib/base/LogStream.h:47-47 FixedBuffer::bzero *)
definition fb_bzero :: "fixed_buffer \<Rightarrow> fixed_buffer" where
  "fb_bzero b = b\<lparr>written := replicate (length (written b)) (CHR 0x00)\<rparr>"

(* src/matelib/base/LogStream.h:48-51 FixedBuffer::debugString *)
definition debugString :: "fixed_buffer \<Rightarrow> string option" where
  "debugString b = do {
     store_at_cur b [CHR 0x00];
     Some (c_string (written b @ [CHR 0x00]))
   }"

section \<open>Number formatting\<close>

(* src/matelib/base/LogStream.cc:13-14 detial::digits *)
definition digits_tab :: string where
  "digits_tab = ''9876543210123456789''"

definition zero_at :: "int \<Rightarrow> char" where
  "zero_at lsd = digits_tab ! nat (9 + lsd)"

lemma cdiv_10_smaller: "cdiv i 10 \<noteq> 0 \<Longrightarrow> \<bar>cdiv i 10\<bar> < \<bar>i\<bar>"
  by (auto simp: cdiv_def abs_mult sgn_if)

(* src/matelib/base/LogStream.cc:22-29 detial::convertInt *)
function convertInt_loop :: "int \<Rightarrow> string" where
  "convertInt_loop i =
     (let lsd = cmod i 10; i' = cdiv i 10
      in if i' \<noteq> 0 then zero_at lsd # convertInt_loop i' else [zero_at lsd])"
  by pat_completeness auto
termination
  by (relation "measure (\<lambda>i. nat \<bar>i\<bar>)") (use cdiv_10_smaller in auto)

declare convertInt_loop.simps [simp del]

text \<open>The characters left in \<open>buf\<close>, before the terminating NUL.\<close>

(* src/matelib/base/LogStream.cc:20-38 detial::convertInt *)
definition convertInt :: "int \<Rightarrow> string" where
  "convertInt v =
     (let p = convertInt_loop v; p' = (if v < 0 then p @ ''-'' else p) in rev p')"

(* src/matelib/base/LogStream.cc:43-50 detial::convertHex *)
fun convertHex_loop :: "nat \<Rightarrow> string" where
  "convertHex_loop i =
     (let lsd = i mod 16; i' = i div 16
      in if i' \<noteq> 0 then hex_digit lsd # convertHex_loop i' else [hex_digit lsd])"

declare convertHex_loop.simps [simp del]

(* src/matelib/base/LogStream.cc:41-56 detial::convertHex *)
definition convertHex :: "nat \<Rightarrow> string" where
  "convertHex v = rev (convertHex_loop v)"

section \<open>LogStream\<close>

(* src/matelib/base/LogStream.h:131-131 LogStream::kMaxNumericSize *)
definition kMaxNumericSize :: int where "kMaxNumericSize = 32"

(* src/matelib/base/LogStream.h:67-67 LogStream::Buffer *)
type_synonym log_stream = fixed_buffer

definition log_stream_new :: log_stream where
  "log_stream_new = fb_new kSmallBuffer"

(* src/matelib/base/LogStream.h:71-75 LogStream::operator<<(bool) *)
definition put_bool :: "log_stream \<Rightarrow> bool \<Rightarrow> log_stream option" where
  "put_bool s v = fb_append s (if v then ''true'' else ''false'')"

(* src/matelib/base/LogStream.h:76-80 LogStream::operator<<(char) *)
definition put_char :: "log_stream \<Rightarrow> char \<Rightarrow> log_stream option" where
  "put_char s v = fb_append s [v]"

(* src/matelib/base/LogStream.cc:66-74 LogStream::formatInterger *)
definition formatInterger :: "log_stream \<Rightarrow> int \<Rightarrow> log_stream option" where
  "formatInterger s v =
     (if avail s \<ge> kMaxNumericSize then do {
        store_at_cur s (convertInt v @ [CHR 0x00]);
        Some (fb_add s (convertInt v))
      } else Some s)"

(* src/matelib/base/LogStream.cc:87-91 LogStream::operator<<(int) *)
definition put_int :: "log_stream \<Rightarrow> 32 word \<Rightarrow> log_stream option" where
  "put_int s v = formatInterger s (sint v)"

(* src/matelib/base/LogStream.cc:92-96 LogStream::operator<<(unsigned int) *)
definition put_uint :: "log_stream \<Rightarrow> 32 word \<Rightarrow> log_stream option" where
  "put_uint s v = formatInterger s (uint v)"

(* src/matelib/base/LogStream.cc:76-80 LogStream::operator<<(short) *)
definition put_short :: "log_stream \<Rightarrow> 16 word \<Rightarrow> log_stream option" where
  "put_short s v = put_int s (scast v)"

(* src/matelib/base/LogStream.cc:81-85 LogStream::operator<<(unsigned short) *)
definition put_ushort :: "log_stream \<Rightarrow> 16 word \<Rightarrow> log_stream option" where
  "put_ushort s v = put_uint s (ucast v)"

(* src/matelib/base/LogStream.cc:97-101 LogStream::operator<<(long) *)
definition put_long :: "log_stream \<Rightarrow> 64 word \<Rightarrow> log_stream option" where
  "put_long s v = formatInterger s (sint v)"

(* src/matelib/base/LogStream.cc:102-106 LogStream::operator<<(unsigned long) *)
definition put_ulong :: "log_stream \<Rightarrow> 64 word \<Rightarrow> log_stream option" where
  "put_ulong s v = formatInterger s (uint v)"

(* src/matelib/base/LogStream.cc:107-111 LogStream::operator<<(long long) *)
definition put_llong :: "log_stream \<Rightarrow> 64 word \<Rightarrow> log_stream option" where
  "put_llong s v = formatInterger s (sint v)"

(* src/matelib/base/LogStream.cc:112-116 LogStream::operator<<(unsigned long long) *)
definition put_ullong :: "log_stream \<Rightarrow> 64 word \<Rightarrow> log_stream option" where
  "put_ullong s v = formatInterger s (uint v)"

text \<open>
  \<open>snprintf("%.12g")\<close> of a \<open>double\<close> is a parameter: its full text. At most 31 characters are
  stored, but the cursor moves by the length of the full text.
\<close>

(* src/matelib/base/LogStream.cc:118-126 LogStream::operator<<(double) *)
definition put_double :: "('d \<Rightarrow> string) \<Rightarrow> log_stream \<Rightarrow> 'd \<Rightarrow> log_stream option" where
  "put_double fmt s v =
     (if avail s \<ge> kMaxNumericSize then do {
        store_at_cur s (take 31 (fmt v) @ [CHR 0x00]);
        assertc (length (fmt v) \<le> 31);
        Some (fb_add s (fmt v))
      } else Some s)"

(* src/matelib/base/LogStream.h:91-95 LogStream::operator<<(float) *)
definition put_float :: "('d \<Rightarrow> string) \<Rightarrow> ('f \<Rightarrow> 'd) \<Rightarrow> log_stream \<Rightarrow> 'f \<Rightarrow> log_stream option" where
  "put_float fmt to_double s v = put_double fmt s (to_double v)"

(* src/matelib/base/LogStream.cc:129-142 LogStream::operator<<(const void* p) *)
definition put_ptr :: "log_stream \<Rightarrow> 64 word \<Rightarrow> log_stream option" where
  "put_ptr s p =
     (let v = unat p in
      if avail s \<ge> kMaxNumericSize then do {
        store_at_cur s (''0x'' @ convertHex v @ [CHR 0x00]);
        Some (fb_add s (''0x'' @ convertHex v))
      } else Some s)"

text \<open>A C string operand is the memory it points to, a null pointer \<open>None\<close>.\<close>

(* src/matelib/base/LogStream.h:102-111 LogStream::operator<<(const char* p) *)
definition put_cstr :: "log_stream \<Rightarrow> string option \<Rightarrow> log_stream option" where
  "put_cstr s str =
     (case str of Some mem \<Rightarrow> fb_append s (c_string mem) | None \<Rightarrow> fb_append s ''(null)'')"

(* src/matelib/base/LogStream.h:112-115 LogStream::operator<<(const unsigned char* p) *)
definition put_ucstr :: "log_stream \<Rightarrow> string option \<Rightarrow> log_stream option" where
  "put_ucstr s str = put_cstr s str"

(* src/matelib/base/LogStream.h:117-121 LogStream::operator<<(const std::string&) *)
definition put_string :: "log_stream \<Rightarrow> string \<Rightarrow> log_stream option" where
  "put_string s str = fb_append s str"

(* src/matelib/base/LogStream.h:123-123 LogStream::append *)
definition stream_append :: "log_stream \<Rightarrow> string \<Rightarrow> log_stream option" where
  "stream_append s str = fb_append s str"

(* src/matelib/base/LogStream.h:125-125 LogStream::resetBuffer *)
definition resetBuffer :: "log_stream \<Rightarrow> log_stream" where
  "resetBuffer s = fb_reset s"

section \<open>Lemmas\<close>

text \<open>A buffer is well formed when at least one byte of the array is still free.\<close>

definition fb_ok :: "fixed_buffer \<Rightarrow> bool" where
  "fb_ok b \<longleftrightarrow> length (written b) < bufSize b \<and> bufSize b < 2 ^ 31"

lemma fb_ok_avail: "fb_ok b \<Longrightarrow> avail b = int (bufSize b) - int (length (written b))"
  by (simp add: fb_ok_def avail_def)

lemma fb_append_ok:
  assumes "fb_ok b" "length s < 2 ^ 31"
  shows "fb_append b s = Some (if length (written b) + length s < bufSize b
    then b\<lparr>written := written b @ s\<rparr> else b)"
  using assms by (auto simp: fb_append_def fb_ok_avail store_at_cur_def abort_simps)

lemma fb_ok_extend:
  "fb_ok b \<Longrightarrow> length (written b) + length s < bufSize b \<Longrightarrow> fb_ok (b\<lparr>written := written b @ s\<rparr>)"
  by (simp add: fb_ok_def)

lemma abs_cdiv_10: "\<bar>cdiv i 10\<bar> = \<bar>i\<bar> div 10"
  by (auto simp: cdiv_def abs_mult sgn_if)

lemma cmod_10: "cmod i 10 = sgn i * (\<bar>i\<bar> mod 10)"
proof (cases "i < 0")
  case True
  have "(- i) div 10 * 10 + (- i) mod 10 = - i" by (rule div_mult_mod_eq)
  then have "i + (- i) div 10 * 10 = - ((- i) mod 10)" by linarith
  with True show ?thesis by (simp add: cmod_def cdiv_def sgn_if)
next
  case False
  then show ?thesis by (simp add: sgn_if)
qed

lemma zero_at_digit_pos: "\<forall>d \<in> {0..<10}. digits_tab ! (9 + d) = digit d"
  by code_simp

lemma zero_at_digit_neg: "\<forall>d \<in> {0..<10}. digits_tab ! (9 - d) = digit d"
  by code_simp

lemma zero_at_digit: "d < 10 \<Longrightarrow> zero_at (int d) = digit d \<and> zero_at (- int d) = digit d"
  using zero_at_digit_pos zero_at_digit_neg by (simp add: zero_at_def nat_add_distrib nat_diff_distrib nat_int_add)

lemma zero_at_cmod: "zero_at (cmod i 10) = digit (nat \<bar>i\<bar> mod 10)"
proof -
  have "cmod i 10 = int (nat \<bar>i\<bar> mod 10) \<or> cmod i 10 = - int (nat \<bar>i\<bar> mod 10)"
    by (auto simp: cmod_10 sgn_if zmod_int)
  then show ?thesis using zero_at_digit [of "nat \<bar>i\<bar> mod 10"] by auto
qed

lemma convertInt_loop_eq: "convertInt_loop i = rev (show_nat (nat \<bar>i\<bar>))"
proof (induction i rule: convertInt_loop.induct)
  case (1 i)
  have z: "cdiv i 10 \<noteq> 0 \<longleftrightarrow> \<not> nat \<bar>i\<bar> < 10"
    using abs_cdiv_10 [of i] by auto
  show ?case
  proof (cases "nat \<bar>i\<bar> < 10")
    case True
    then have "nat \<bar>i\<bar> mod 10 = nat \<bar>i\<bar>" by simp
    with True z show ?thesis
      by (subst convertInt_loop.simps) (simp add: Let_def zero_at_cmod show_nat.simps)
  next
    case False
    with z have "cdiv i 10 \<noteq> 0" by simp
    with 1 have "convertInt_loop (cdiv i 10) = rev (show_nat (nat \<bar>i\<bar> div 10))"
      by (simp add: abs_cdiv_10 nat_div_distrib)
    with False z show ?thesis
      by (subst convertInt_loop.simps, subst show_nat.simps) (simp add: Let_def zero_at_cmod)
  qed
qed

lemma convertInt_eq: "convertInt v = show_int v"
  by (simp add: convertInt_def convertInt_loop_eq show_int_def)

text \<open>The text of a 64-bit number fits the 32 bytes \<open>formatInterger\<close> asks for.\<close>

lemma length_convertInt: "\<bar>v\<bar> < 2 ^ 64 \<Longrightarrow> length (convertInt v) \<le> 21"
proof -
  assume "\<bar>v\<bar> < 2 ^ 64"
  then have "nat \<bar>v\<bar> < 10 ^ 20" by simp
  then have "length (show_nat (nat \<bar>v\<bar>)) \<le> 20" by (rule length_show_nat) simp
  then show ?thesis by (auto simp: convertInt_eq show_int_def split: if_splits)
qed

lemma sint_bound:
  fixes w :: "'a::len word"
  shows "\<bar>sint w\<bar> < 2 ^ LENGTH('a)"
proof -
  have p: "(2::int) ^ (LENGTH('a) - 1) < 2 ^ LENGTH('a)" by (simp add: power_strict_increasing)
  have "- (2 ^ (LENGTH('a) - 1)) \<le> sint w" "sint w < 2 ^ (LENGTH('a) - 1)"
    by (rule sint_ge, rule sint_lt)
  with p show ?thesis by linarith
qed

lemma sint32_bound: "\<bar>sint (w :: 32 word)\<bar> < 2 ^ 64"
  using sint_bound [of w] by simp

lemma sint64_bound: "\<bar>sint (w :: 64 word)\<bar> < 2 ^ 64"
  using sint_bound [of w] by simp

lemma uint32_bound: "\<bar>uint (w :: 32 word)\<bar> < 2 ^ 64"
  using uint_bounded [of w] by (simp add: order_less_trans)

lemma uint64_bound: "\<bar>uint (w :: 64 word)\<bar> < 2 ^ 64"
  using uint_bounded [of w] by simp

lemmas word_bounds = sint32_bound sint64_bound uint32_bound uint64_bound

definition hex_index :: "char \<Rightarrow> nat" where
  "hex_index c = find_char c ''0123456789ABCDEF''"

definition hex_val :: "string \<Rightarrow> nat" where
  "hex_val = foldl (\<lambda>a c. 16 * a + hex_index c) 0"

lemma hex_val_snoc: "hex_val (s @ [c]) = 16 * hex_val s + hex_index c"
  by (simp add: hex_val_def)

lemma find_hex_digit_all: "list_all (\<lambda>d. hex_index (hex_digit d) = d) [0..<16]"
  by code_simp

lemma find_hex_digit: "d < 16 \<Longrightarrow> hex_index (hex_digit d) = d"
  using find_hex_digit_all by (simp add: list_all_iff)

lemma convertHex_step:
  "convertHex v = (if v < 16 then [hex_digit v] else convertHex (v div 16) @ [hex_digit (v mod 16)])"
  by (cases "v < 16") (simp_all add: convertHex_def convertHex_loop.simps [of v] Let_def div_eq_0_iff)

lemma hex_val_convertHex: "hex_val (convertHex v) = v"
proof (induction v rule: less_induct)
  case (less v)
  show ?case
  proof (cases "v < 16")
    case True
    then show ?thesis
      by (subst convertHex_step) (simp add: hex_val_def find_hex_digit)
  next
    case False
    then have "hex_val (convertHex (v div 16)) = v div 16" by (intro less) simp
    with False show ?thesis
      by (subst convertHex_step) (simp add: hex_val_snoc find_hex_digit)
  qed
qed

lemma length_convertHex: "v < 16 ^ k \<Longrightarrow> 0 < k \<Longrightarrow> length (convertHex v) \<le> k"
proof (induction k arbitrary: v)
  case 0
  then show ?case by simp
next
  case (Suc k)
  show ?case
  proof (cases "v < 16")
    case True
    then show ?thesis by (subst convertHex_step) simp
  next
    case False
    with Suc.prems have k: "0 < k" by (cases k) auto
    have "v div 16 < 16 ^ k"
      using Suc.prems(1) by (simp add: less_mult_imp_div_less mult.commute)
    with Suc.IH k have "length (convertHex (v div 16)) \<le> k" by blast
    with False show ?thesis by (subst convertHex_step) simp
  qed
qed

lemma length_convertHex64: "length (convertHex (unat (p :: 64 word))) \<le> 16"
proof (rule length_convertHex)
  show "unat p < 16 ^ 16" using unsigned_less [of p] by simp
qed simp

section \<open>Statements as sequences of insertions\<close>

text \<open>
  A log statement \<open>LOG_INFO << a << b << ...\<close> is a list of insertions; \<open>item_text\<close> is the text
  each one stands for, \<open>put\<close> the operator the overload resolution picks.
\<close>

datatype item =
    IBool bool | IChar char | IShort "16 word" | IUShort "16 word" | IInt "32 word" | IUInt "32 word"
  | ILong "64 word" | IULong "64 word" | IPtr "64 word" | ICStr "string option" | IStr string

fun put :: "log_stream \<Rightarrow> item \<Rightarrow> log_stream option" where
  "put s (IBool v) = put_bool s v"
| "put s (IChar v) = put_char s v"
| "put s (IShort v) = put_short s v"
| "put s (IUShort v) = put_ushort s v"
| "put s (IInt v) = put_int s v"
| "put s (IUInt v) = put_uint s v"
| "put s (ILong v) = put_long s v"
| "put s (IULong v) = put_ulong s v"
| "put s (IPtr v) = put_ptr s v"
| "put s (ICStr v) = put_cstr s v"
| "put s (IStr v) = put_string s v"

fun item_text :: "item \<Rightarrow> string" where
  "item_text (IBool v) = (if v then ''true'' else ''false'')"
| "item_text (IChar v) = [v]"
| "item_text (IShort v) = show_int (sint v)"
| "item_text (IUShort v) = show_int (uint v)"
| "item_text (IInt v) = show_int (sint v)"
| "item_text (IUInt v) = show_int (uint v)"
| "item_text (ILong v) = show_int (sint v)"
| "item_text (IULong v) = show_int (uint v)"
| "item_text (IPtr v) = ''0x'' @ convertHex (unat v)"
| "item_text (ICStr v) = (case v of None \<Rightarrow> ''(null)'' | Some m \<Rightarrow> c_string m)"
| "item_text (IStr v) = v"

fun puts :: "log_stream \<Rightarrow> item list \<Rightarrow> log_stream option" where
  "puts s [] = Some s"
| "puts s (x # xs) = do { s' \<leftarrow> put s x; puts s' xs }"

text \<open>The space an insertion asks for: 32 bytes for numbers, one more than its text otherwise.\<close>

fun item_need :: "item \<Rightarrow> nat" where
  "item_need (IShort v) = 32" | "item_need (IUShort v) = 32" | "item_need (IInt v) = 32"
| "item_need (IUInt v) = 32" | "item_need (ILong v) = 32" | "item_need (IULong v) = 32"
| "item_need (IPtr v) = 32" | "item_need x = length (item_text x) + 1"

definition item_ok :: "item \<Rightarrow> bool" where
  "item_ok x \<longleftrightarrow> length (item_text x) < 2 ^ 31"

definition extend :: "fixed_buffer \<Rightarrow> string \<Rightarrow> nat \<Rightarrow> fixed_buffer" where
  "extend b t need = (if length (written b) + need \<le> bufSize b then b\<lparr>written := written b @ t\<rparr> else b)"

lemma fb_append_extend:
  "fb_ok b \<Longrightarrow> length s < 2 ^ 31 \<Longrightarrow> fb_append b s = Some (extend b s (length s + 1))"
  by (simp add: fb_append_ok extend_def)

lemma formatInterger_extend:
  assumes "fb_ok b" "\<bar>v\<bar> < 2 ^ 64"
  shows "formatInterger b v = Some (extend b (show_int v) 32)"
  using assms length_convertInt [OF assms(2)]
  by (auto simp: formatInterger_def fb_ok_avail kMaxNumericSize_def store_at_cur_def abort_simps
    fb_add_def convertInt_eq extend_def)

lemma put_ptr_extend:
  assumes "fb_ok b"
  shows "put_ptr b p = Some (extend b (''0x'' @ convertHex (unat p)) 32)"
  using assms length_convertHex64 [of p]
  by (auto simp: put_ptr_def fb_ok_avail kMaxNumericSize_def store_at_cur_def abort_simps
    fb_add_def extend_def)

lemma sint_scast16: "sint (scast (v :: 16 word) :: 32 word) = sint v"
  by (rule sint_up_scast) (simp add: is_up)

lemma uint_ucast16: "uint (ucast (v :: 16 word) :: 32 word) = uint v"
  by (rule uint_up_ucast) (simp add: is_up)

lemma sint16_bound: "\<bar>sint (w :: 16 word)\<bar> < 2 ^ 64"
  using sint_bound [of w] by simp

lemma uint16_bound: "\<bar>uint (w :: 16 word)\<bar> < 2 ^ 64"
  using uint_bounded [of w] by (simp add: order_less_trans)

lemmas number_bounds = word_bounds sint16_bound uint16_bound

lemma put_extend:
  assumes "fb_ok b" "item_ok x"
  shows "put b x = Some (extend b (item_text x) (item_need x))"
  using assms
  by (cases x) (simp_all add: item_ok_def put_bool_def put_char_def put_short_def put_ushort_def
    put_int_def put_uint_def put_long_def put_ulong_def put_cstr_def put_string_def put_ptr_extend
    fb_append_extend formatInterger_extend number_bounds [simplified] sint_scast16 uint_ucast16
    split: option.splits)

lemma item_need_gt: "length (item_text x) < item_need x"
proof -
  have num: "\<bar>v\<bar> < 2 ^ 64 \<Longrightarrow> length (show_int v) < 32" for v
    using length_convertInt [of v] by (simp add: convertInt_eq)
  have ptr: "length (''0x'' @ convertHex (unat (v :: 64 word))) < 32" for v
    using length_convertHex64 [of v] by simp
  show ?thesis
    by (cases x) (auto intro!: num number_bounds ptr simp only: item_text.simps item_need.simps)
qed

lemma extend_ok: "fb_ok b \<Longrightarrow> length t < need \<Longrightarrow> fb_ok (extend b t need)"
  by (auto simp: extend_def fb_ok_def)

lemma extend_size [simp]: "bufSize (extend b t need) = bufSize b"
  by (simp add: extend_def)

text \<open>\<open>puts\<close> never leaves the array and keeps a sub-sequence of the items, each in full.\<close>

definition total_need :: "item list \<Rightarrow> nat" where
  "total_need xs = sum_list (map item_need xs)"

lemma puts_subseq:
  "fb_ok b \<Longrightarrow> list_all item_ok xs \<Longrightarrow>
    \<exists>b' ys. puts b xs = Some b' \<and> fb_ok b' \<and> bufSize b' = bufSize b \<and> subseq ys xs
      \<and> written b' = written b @ concat (map item_text ys)"
proof (induction xs arbitrary: b)
  case Nil
  then show ?case by (intro exI [of _ b] exI [of _ "[]"]) simp
next
  case (Cons x xs)
  let ?c = "extend b (item_text x) (item_need x)"
  from Cons.prems have p: "put b x = Some ?c" by (simp add: put_extend)
  have c: "fb_ok ?c" using Cons.prems item_need_gt by (simp add: extend_ok)
  with Cons.IH [OF c] Cons.prems obtain b' ys where
    ih: "puts ?c xs = Some b'" "fb_ok b'" "bufSize b' = bufSize b" "subseq ys xs"
      "written b' = written ?c @ concat (map item_text ys)" by auto
  show ?case
  proof (cases "length (written b) + item_need x \<le> bufSize b")
    case True
    with p ih show ?thesis
      by (intro exI [of _ b'] exI [of _ "x # ys"]) (simp add: extend_def)
  next
    case False
    with p ih show ?thesis
      by (intro exI [of _ b'] exI [of _ ys]) (simp add: extend_def list_emb_Cons)
  qed
qed

lemma puts_all:
  "fb_ok b \<Longrightarrow> list_all item_ok xs \<Longrightarrow> length (written b) + total_need xs \<le> bufSize b \<Longrightarrow>
    puts b xs = Some (b\<lparr>written := written b @ concat (map item_text xs)\<rparr>)"
proof (induction xs arbitrary: b)
  case Nil
  then show ?case by simp
next
  case (Cons x xs)
  let ?c = "b\<lparr>written := written b @ item_text x\<rparr>"
  have l: "length (item_text x) < item_need x" by (rule item_need_gt)
  from Cons.prems have p: "put b x = Some ?c"
    by (simp add: put_extend extend_def total_need_def)
  have "fb_ok ?c" using Cons.prems l by (simp add: fb_ok_def total_need_def)
  with Cons.prems l p Cons.IH [of ?c] show ?case by (simp add: total_need_def)
qed

section \<open>The interface of the asynchronous log\<close>

text \<open>
  What a client of a log buffer relies on: a record shorter than the room left is appended,
  a longer one leaves the buffer as it is, and a reset buffer is empty with all its room.
\<close>

locale log_buffer =
  fixes ok :: "'b \<Rightarrow> bool"
    and content :: "'b \<Rightarrow> string"
    and room :: "'b \<Rightarrow> int"
    and append :: "'b \<Rightarrow> string \<Rightarrow> 'b option"
    and reset :: "'b \<Rightarrow> 'b"
    and size :: int
  assumes room_eq: "ok b \<Longrightarrow> room b = size - int (length (content b))"
    and append_fits: "ok b \<Longrightarrow> int (length s) < room b \<Longrightarrow>
      \<exists>b'. append b s = Some b' \<and> ok b' \<and> content b' = content b @ s"
    and append_full: "ok b \<Longrightarrow> length s < 2 ^ 31 \<Longrightarrow> room b \<le> int (length s) \<Longrightarrow> append b s = Some b"
    and reset_ok: "ok b \<Longrightarrow> ok (reset b)"
    and reset_content: "ok b \<Longrightarrow> content (reset b) = []"
begin

lemma append_total: "ok b \<Longrightarrow> length s < 2 ^ 31 \<Longrightarrow> \<exists>b'. append b s = Some b' \<and> ok b'"
  using append_fits append_full by (metis linorder_not_less)

lemma append_content:
  "ok b \<Longrightarrow> length s < 2 ^ 31 \<Longrightarrow> append b s = Some b' \<Longrightarrow>
    content b' = (if int (length s) < room b then content b @ s else content b)"
  using append_fits append_full by (metis linorder_not_less option.inject)

lemma room_pos: "ok b \<Longrightarrow> int (length s) < room b \<Longrightarrow> append b s = Some b' \<Longrightarrow> 0 < room b'"
  using append_fits [of b s] room_eq [of b] room_eq [of b'] by auto

lemma reset_room: "ok b \<Longrightarrow> room (reset b) = size"
  by (simp add: room_eq reset_ok reset_content)

end

definition large_ok :: "fixed_buffer \<Rightarrow> bool" where
  "large_ok b \<longleftrightarrow> fb_ok b \<and> bufSize b = kLargeBuffer"

lemma large_new_ok: "large_ok (fb_new kLargeBuffer)"
  by (simp add: large_ok_def fb_ok_def fb_new_def kLargeBuffer_def)

interpretation lb: log_buffer large_ok written avail fb_append fb_reset "int kLargeBuffer"
  by unfold_locales
    (auto simp: large_ok_def fb_ok_avail fb_append_ok fb_reset_def fb_ok_def kLargeBuffer_def)

section \<open>Properties\<close>

text \<open>
  \<open>detial::convertInt\<close>, whose digit table lets one loop serve both signs, prints the decimal
  representation of every value, INT_MIN included.
\<close>
theorem convertInt_correct:
  "convertInt v = (if v < 0 then ''-'' else []) @ show_nat (nat \<bar>v\<bar>)
    \<and> dec_val (if v < 0 then tl (convertInt v) else convertInt v) = nat \<bar>v\<bar>"
  by (simp add: convertInt_eq show_int_def)

text \<open>
  \<open>convertHex\<close> of a 64-bit pointer is at most 16 digits long, so that with \<open>0x\<close> and the
  NUL it fits the 32 bytes \<open>operator<<(const void*)\<close> checks for, and the digits read back give
  the pointer.
\<close>
theorem convertHex_roundtrip:
  "hex_val (convertHex (unat (p :: 64 word))) = unat p \<and> length (convertHex (unat p)) \<le> 16"
  by (simp add: hex_val_convertHex length_convertHex64)


text \<open>
  One insertion grows the line by exactly its text when the space it asks for is left, and
  leaves the line as it was otherwise; numbers ask for \<open>kMaxNumericSize\<close> bytes.
\<close>
theorem put_behaviour:
  assumes "fb_ok s" "item_ok x"
  shows "put s x = Some (if int (item_need x) \<le> avail s then fb_add s (item_text x) else s)"
  using assms by (auto simp: put_extend extend_def fb_ok_avail fb_add_def)


theorem put_behaviour_witness:
  "put log_stream_new (IBool True)
    = Some (if int (item_need (IBool True)) \<le> avail log_stream_new
        then fb_add log_stream_new (item_text (IBool True)) else log_stream_new)"
  by (rule put_behaviour)
    (simp_all add: log_stream_new_def fb_ok_def fb_new_def kSmallBuffer_def item_ok_def)

end
