(* ===== verification/LogFile.thy ===== *)
theory LogFile
  imports Prelude
begin

text \<open>
  \<open>matelib/base/LogFile.h\<close> and \<open>.cc\<close>: the rolling log file.

  The operating system is the record \<open>world\<close>: the bytes on disk per file name (every file is
  opened for appending), which names \<open>fopen\<close> can open, the results of the coming calls of
  \<open>fwrite_unlocked\<close> (an empty list means that it takes all it is given) and of \<open>time\<close>. The bytes
  given to \<open>stdio\<close> and not flushed yet are \<open>pending\<close> in the \<open>File\<close> object; the C library may
  write them earlier than \<open>fflush\<close> or \<open>fclose\<close>, which write all of them. \<open>None\<close> is a crash:
  a null \<open>FILE*\<close>, a host name too long for its array, a lock taken twice by its owner.
\<close>

section \<open>File\<close>

record world =
  disk :: "string \<Rightarrow> string"
  openable :: "string \<Rightarrow> bool"
  fwrites :: "nat list"
  times :: "int list"
  errors :: nat

(* src/matelib/base/LogFile.cc:73-75 File *)
record cfile =
  fname :: string
  pending :: string
  writtenBytes :: nat

(* src/matelib/base/LogFile.cc:21-27 File::File *)
definition file_new :: "world \<Rightarrow> string \<Rightarrow> cfile option" where
  "file_new w filename = do {
     assertc (openable w filename);
     Some \<lparr>fname = filename, pending = [], writtenBytes = 0\<rparr>
   }"

(* src/matelib/base/LogFile.cc:54-56 File::flush *)
definition file_flush :: "world \<Rightarrow> cfile \<Rightarrow> world \<times> cfile" where
  "file_flush w f =
     (w\<lparr>disk := (disk w)(fname f := disk w (fname f) @ pending f)\<rparr>, f\<lparr>pending := []\<rparr>)"

(* src/matelib/base/LogFile.cc:29-31 File::~File *)
definition file_close :: "world \<Rightarrow> cfile \<Rightarrow> world" where
  "file_close w f = fst (file_flush w f)"

(* src/matelib/base/LogFile.cc:65-71 File::write_unlocked *)
definition write_unlocked :: "world \<Rightarrow> cfile \<Rightarrow> string \<Rightarrow> world \<times> cfile \<times> nat" where
  "write_unlocked w f s =
     (let x = (case fwrites w of [] \<Rightarrow> length s | k # _ \<Rightarrow> min k (length s))
      in (w\<lparr>fwrites := tl (fwrites w)\<rparr>, f\<lparr>pending := pending f @ take x s\<rparr>, x))"

lemma write_unlocked_le: "write_unlocked w f s = (w', f', x) \<Longrightarrow> x \<le> length s"
  by (auto simp: write_unlocked_def Let_def split: list.splits)

text \<open>The retry loop: \<open>s\<close> is the data from \<open>data + n\<close> on, the result the number written.\<close>

(* src/matelib/base/LogFile.cc:36-49 File::append *)
function append_loop :: "world \<Rightarrow> cfile \<Rightarrow> string \<Rightarrow> world \<times> cfile \<times> nat" where
  "append_loop w f s =
     (if s = [] then (w, f, 0)
      else case write_unlocked w f s of (w1, f1, x) \<Rightarrow>
        if x = 0 then (w1\<lparr>errors := Suc (errors w1)\<rparr>, f1, 0)
        else case append_loop w1 f1 (drop x s) of (w2, f2, n) \<Rightarrow> (w2, f2, x + n))"
  by pat_completeness auto
termination
  by (relation "measure (\<lambda>(w, f, s). length s)") auto

declare append_loop.simps [simp del]

(* src/matelib/base/LogFile.cc:33-52 File::append *)
definition file_append :: "world \<Rightarrow> cfile \<Rightarrow> string \<Rightarrow> world \<times> cfile" where
  "file_append w f s =
     (case write_unlocked w f s of (w1, f1, n) \<Rightarrow>
        case append_loop w1 f1 (drop n s) of (w2, f2, k) \<Rightarrow>
          (w2, f2\<lparr>writtenBytes := writtenBytes f2 + (n + k)\<rparr>))"

section \<open>LogFile\<close>

(* src/matelib/base/LogFile.h:49-49 LogFile::checkEveryN_ *)
definition checkEveryN :: int where "checkEveryN = 1000"

(* src/matelib/base/LogFile.h:50-50 LogFile::kRollPerSeconds_ *)
definition kRollPerSeconds :: int where "kRollPerSeconds = 24 * 60 * 60"

text \<open>\<open>pmutex\<close> is \<open>None\<close> without a mutex, else whether the mutex is held.\<close>

(* src/matelib/base/LogFile.h:37-47 LogFile *)
record logfile =
  basename :: string
  rollSize :: nat
  flushInterval :: int
  pmutex :: "bool option"
  startOfPeriod :: int
  lastRoll :: int
  lastFlush :: int
  log_count :: int
  lfile :: "cfile option"

text \<open>The process: \<open>strftime\<close> of the local time, host name, process and thread number, and the
  descriptor the next \<open>fopen\<close> returns.\<close>

record host =
  strftime :: "int \<Rightarrow> string"
  hostname :: string
  pid :: int
  tid :: int
  next_fd :: int

definition time_now :: "world \<Rightarrow> int \<times> world" where
  "time_now w = (case times w of [] \<Rightarrow> (0, w) | t # ts \<Rightarrow> (t, w\<lparr>times := (if ts = [] then [t] else ts)\<rparr>))"

(* src/matelib/base/LogFile.cc:178-200 LogFile::getLogFileName *)
definition getLogFileName :: "host \<Rightarrow> world \<Rightarrow> string \<Rightarrow> (string \<times> int \<times> world) option" where
  "getLogFileName h w base =
     (case time_now w of (now, w1) \<Rightarrow> do {
        assertc (length (strftime h now) < 32);
        assertc (length (hostname h) < 32);
        Some (base @ strftime h now @ hostname h @ take 31 (''.p'' @ show_int (pid h)) @ ''.log'', now, w1)
      })"

definition start_of_day :: "int \<Rightarrow> int" where
  "start_of_day now = cdiv now kRollPerSeconds * kRollPerSeconds"

definition file_flag :: "host \<Rightarrow> string" where
  "file_flag h = take 63 (''Writed by thread '' @ show_int (tid h) @ [CHR 0x0A] @
     ''logfile fd = '' @ show_int (next_fd h) @ [CHR 0x0A])"

(* src/matelib/base/LogFile.cc:156-176 LogFile::rollFile *)
definition rollFile :: "host \<Rightarrow> world \<Rightarrow> logfile \<Rightarrow> (world \<times> logfile) option" where
  "rollFile h w l = do {
     (filename, now, w1) \<leftarrow> getLogFileName h w (basename l);
     let l1 = l\<lparr>lastRoll := now, lastFlush := now, startOfPeriod := start_of_day now\<rparr>;
     f \<leftarrow> file_new w1 filename;
     let w2 = (case lfile l1 of None \<Rightarrow> w1 | Some old \<Rightarrow> file_close w1 old);
     let (w3, f3) = file_append w2 f (file_flag h);
     Some (w3, l1\<lparr>lfile := Some f3\<rparr>)
   }"

(* src/matelib/base/LogFile.cc:84-98 LogFile::LogFile *)
definition logfile_new ::
  "host \<Rightarrow> world \<Rightarrow> string \<Rightarrow> nat \<Rightarrow> int \<Rightarrow> bool \<Rightarrow> (world \<times> logfile) option" where
  "logfile_new h w base roll flush threadSafe =
     rollFile h w \<lparr>basename = base, rollSize = roll, flushInterval = flush,
       pmutex = (if threadSafe then Some False else None), startOfPeriod = 0, lastRoll = 0,
       lastFlush = 0, log_count = 0, lfile = None\<rparr>"

text \<open>\<open>file_->flush()\<close> and \<open>file_->append()\<close> through the \<open>unique_ptr\<close>, which must not be null.\<close>

definition flush_file :: "world \<Rightarrow> logfile \<Rightarrow> (world \<times> logfile) option" where
  "flush_file w l =
     (case lfile l of None \<Rightarrow> None
      | Some f \<Rightarrow> (case file_flush w f of (w1, f1) \<Rightarrow> Some (w1, l\<lparr>lfile := Some f1\<rparr>)))"

(* src/matelib/base/LogFile.cc:128-154 LogFile::append_unlocked *)
definition append_unlocked :: "host \<Rightarrow> world \<Rightarrow> logfile \<Rightarrow> string \<Rightarrow> (world \<times> logfile) option" where
  "append_unlocked h w l s =
     (case lfile l of None \<Rightarrow> None | Some f \<Rightarrow>
       let (w1, f1) = file_append w f s; l1 = l\<lparr>lfile := Some f1\<rparr> in
       if writtenBytes f1 > rollSize l1 then do {
         (w2, l2) \<leftarrow> rollFile h w1 l1;
         Some (w2, l2\<lparr>log_count := 0\<rparr>)
       } else
         let l2 = l1\<lparr>log_count := log_count l1 + 1\<rparr> in
         if log_count l2 \<ge> checkEveryN then
           let l3 = l2\<lparr>log_count := 0\<rparr>; (now, w2) = time_now w1 in
           if start_of_day now \<noteq> startOfPeriod l3 then rollFile h w2 l3
           else if now - lastFlush l3 > flushInterval l3 then flush_file w2 (l3\<lparr>lastFlush := now\<rparr>)
           else Some (w2, l3)
         else Some (w1, l2))"

definition with_lock ::
  "logfile \<Rightarrow> (logfile \<Rightarrow> (world \<times> logfile) option) \<Rightarrow> (world \<times> logfile) option" where
  "with_lock l body =
     (case pmutex l of None \<Rightarrow> body l
      | Some held \<Rightarrow> do {
          assertc (\<not> held);
          (w, l1) \<leftarrow> body (l\<lparr>pmutex := Some True\<rparr>);
          Some (w, l1\<lparr>pmutex := Some False\<rparr>)
        })"

(* src/matelib/base/LogFile.cc:104-114 LogFile::append *)
definition logfile_append :: "host \<Rightarrow> world \<Rightarrow> logfile \<Rightarrow> string \<Rightarrow> (world \<times> logfile) option" where
  "logfile_append h w l s = with_lock l (\<lambda>l1. append_unlocked h w l1 s)"

(* src/matelib/base/LogFile.cc:116-126 LogFile::flush *)
definition logfile_flush :: "world \<Rightarrow> logfile \<Rightarrow> (world \<times> logfile) option" where
  "logfile_flush w l = with_lock l (\<lambda>l1. flush_file w l1)"

(* src/matelib/base/LogFile.cc:100-102 LogFile::~LogFile *)
definition logfile_delete :: "world \<Rightarrow> logfile \<Rightarrow> world" where
  "logfile_delete w l = (case lfile l of None \<Rightarrow> w | Some f \<Rightarrow> file_close w f)"

section \<open>What the files hold\<close>

text \<open>The content a file will have once everything handed to \<open>stdio\<close> is written.\<close>

definition text_of :: "world \<Rightarrow> cfile option \<Rightarrow> string \<Rightarrow> string" where
  "text_of w fo n =
     disk w n @ (case fo of None \<Rightarrow> [] | Some f \<Rightarrow> if fname f = n then pending f else [])"

definition add_text :: "string \<Rightarrow> string \<Rightarrow> (string \<Rightarrow> string) \<Rightarrow> (string \<Rightarrow> string)" where
  "add_text n s t = t(n := t n @ s)"

lemma text_of_flush_pair: "text_of (fst (file_flush w f)) (Some (snd (file_flush w f))) n = text_of w (Some f) n"
  by (simp add: file_flush_def text_of_def)

lemma text_of_flush:
  "file_flush w f = (w', f') \<Longrightarrow> text_of w' (Some f') = text_of w (Some f)"
  using text_of_flush_pair [of w f] by (intro ext) simp

lemma text_of_close: "text_of (file_close w f) None = text_of w (Some f)"
  unfolding file_close_def file_flush_def by (rule ext) (simp add: text_of_def)

lemma write_unlocked_spec:
  assumes "write_unlocked w f s = (w', f', x)"
  shows "w' = w\<lparr>fwrites := tl (fwrites w)\<rparr> \<and> f' = f\<lparr>pending := pending f @ take x s\<rparr> \<and> x \<le> length s
    \<and> (fwrites w = [] \<longrightarrow> x = length s)"
  using assms by (auto simp: write_unlocked_def Let_def split: list.splits)

lemma append_loop_spec:
  "append_loop w f s = (w', f', n) \<Longrightarrow>
    n \<le> length s \<and> f' = f\<lparr>pending := pending f @ take n s\<rparr> \<and>
    w' = w\<lparr>fwrites := fwrites w', errors := errors w + (if n < length s then 1 else 0)\<rparr> \<and>
    (fwrites w = [] \<longrightarrow> n = length s \<and> fwrites w' = [])"
proof (induction w f s arbitrary: w' f' n rule: append_loop.induct)
  case (1 w f s)
  show ?case
  proof (cases "s = []")
    case True
    with 1(2) show ?thesis by (simp add: append_loop.simps)
  next
    case False
    obtain w1 f1 x where wr: "write_unlocked w f s = (w1, f1, x)" by (cases "write_unlocked w f s")
    note sp = write_unlocked_spec [OF wr]
    show ?thesis
    proof (cases "x = 0")
      case True
      have "append_loop w f s = (w1\<lparr>errors := Suc (errors w1)\<rparr>, f1, 0)"
        using False True wr by (subst append_loop.simps) simp
      with 1(2) have r: "w' = w1\<lparr>errors := Suc (errors w1)\<rparr>" "f' = f1" "n = 0" by simp_all
      from sp have w1: "w1 = w\<lparr>fwrites := tl (fwrites w)\<rparr>" "f1 = f\<lparr>pending := pending f @ take x s\<rparr>"
        "fwrites w = [] \<longrightarrow> x = length s" by blast+
      show ?thesis using r w1 False True by simp
    next
      case x0: False
      obtain w2 f2 k where lp: "append_loop w1 f1 (drop x s) = (w2, f2, k)"
        by (cases "append_loop w1 f1 (drop x s)")
      have "append_loop w f s = (w2, f2, x + k)"
        using False x0 wr lp by (subst append_loop.simps) simp
      with 1(2) have r: "w' = w2" "f' = f2" "n = x + k" by simp_all
      have ih: "k \<le> length (drop x s) \<and> f2 = f1\<lparr>pending := pending f1 @ take k (drop x s)\<rparr> \<and>
        w2 = w1\<lparr>fwrites := fwrites w2, errors := errors w1 + (if k < length (drop x s) then 1 else 0)\<rparr> \<and>
        (fwrites w1 = [] \<longrightarrow> k = length (drop x s) \<and> fwrites w2 = [])"
        using 1(1) [OF False wr [symmetric] refl x0 lp] .
      then have w2: "w2 = w1\<lparr>fwrites := fwrites w2, errors := errors w1 + (if k < length (drop x s) then 1 else 0)\<rparr>"
        and f2: "f2 = f1\<lparr>pending := pending f1 @ take k (drop x s)\<rparr>"
        and k: "k \<le> length (drop x s)" "fwrites w1 = [] \<longrightarrow> k = length (drop x s) \<and> fwrites w2 = []"
        by blast+
      from sp have w1: "w1 = w\<lparr>fwrites := tl (fwrites w)\<rparr>" "f1 = f\<lparr>pending := pending f @ take x s\<rparr>"
        "x \<le> length s" "fwrites w = [] \<longrightarrow> x = length s" by blast+
      have "w' = w\<lparr>fwrites := fwrites w', errors := errors w + (if n < length s then 1 else 0)\<rparr>"
        using w2 w1 r k by (cases w2) auto
      moreover have "f' = f\<lparr>pending := pending f @ take n s\<rparr>"
        using f2 w1 r by (simp add: take_add)
      ultimately show ?thesis using k w1 r by auto
    qed
  qed
qed

lemma file_append_spec:
  assumes "file_append w f s = (w', f')"
  shows "\<exists>n \<le> length s. f' = f\<lparr>pending := pending f @ take n s, writtenBytes := writtenBytes f + n\<rparr> \<and>
    w' = w\<lparr>fwrites := fwrites w', errors := errors w + (if n < length s then 1 else 0)\<rparr> \<and>
    (fwrites w = [] \<longrightarrow> n = length s \<and> fwrites w' = [])"
proof -
  obtain w1 f1 x where wr: "write_unlocked w f s = (w1, f1, x)" by (cases "write_unlocked w f s")
  obtain w2 f2 k where lp: "append_loop w1 f1 (drop x s) = (w2, f2, k)"
    by (cases "append_loop w1 f1 (drop x s)")
  from wr have w1: "w1 = w\<lparr>fwrites := tl (fwrites w)\<rparr>" "f1 = f\<lparr>pending := pending f @ take x s\<rparr>"
    "x \<le> length s" "fwrites w = [] \<longrightarrow> x = length s"
    by (auto dest: write_unlocked_spec)
  from append_loop_spec [OF lp] have w2:
    "w2 = w1\<lparr>fwrites := fwrites w2, errors := errors w1 + (if k < length (drop x s) then 1 else 0)\<rparr>"
    and f2: "f2 = f1\<lparr>pending := pending f1 @ take k (drop x s)\<rparr>"
    and k: "k \<le> length (drop x s)" "fwrites w1 = [] \<longrightarrow> k = length (drop x s) \<and> fwrites w2 = []"
    by blast+
  have r: "w' = w2" "f' = f2\<lparr>writtenBytes := writtenBytes f2 + (x + k)\<rparr>"
    using assms wr lp by (simp_all add: file_append_def)
  have "w' = w\<lparr>fwrites := fwrites w', errors := errors w + (if x + k < length s then 1 else 0)\<rparr>"
    using w2 w1 r k by (cases w2) auto
  moreover have "f' = f\<lparr>pending := pending f @ take (x + k) s, writtenBytes := writtenBytes f + (x + k)\<rparr>"
    using f2 w1 r by (simp add: take_add)
  ultimately show ?thesis using k w1 r by (intro exI [of _ "x + k"]) auto
qed

lemma file_append_full:
  assumes "file_append w f s = (w', f')" "fwrites w = []"
  shows "w' = w \<and> f' = f\<lparr>pending := pending f @ s, writtenBytes := writtenBytes f + length s\<rparr>"
proof -
  from file_append_spec [OF assms(1)] assms(2)
  have "w' = w\<lparr>fwrites := fwrites w', errors := errors w\<rparr>" "fwrites w' = []"
    and f: "f' = f\<lparr>pending := pending f @ s, writtenBytes := writtenBytes f + length s\<rparr>"
    by auto
  with assms(2) f show ?thesis by (cases w) auto
qed

lemma text_of_append_full:
  "file_append w f s = (w', f') \<Longrightarrow> fwrites w = [] \<Longrightarrow>
    text_of w' (Some f') = add_text (fname f) s (text_of w (Some f))"
  by (drule (1) file_append_full, rule ext) (simp add: text_of_def add_text_def)

lemma text_of_cong: "disk w1 = disk w \<Longrightarrow> text_of w1 fo = text_of w fo"
  by (rule ext) (simp add: text_of_def)

lemma text_of_nothing_pending: "pending f = [] \<Longrightarrow> text_of w (Some f) = text_of w None"
  by (rule ext) (simp add: text_of_def)

lemma time_now_world: "time_now w = (now, w1) \<Longrightarrow> w1 = w\<lparr>times := times w1\<rparr>"
  by (auto simp: time_now_def split: list.splits)

lemma file_close_world: "file_close w f = w\<lparr>disk := disk (file_close w f)\<rparr>"
  by (simp add: file_close_def file_flush_def)

lemma rollFile_spec:
  assumes "rollFile h w l = Some (w', l')" "fwrites w = []"
  shows "\<exists>f now. l' = l\<lparr>lastRoll := now, lastFlush := now, startOfPeriod := start_of_day now, lfile := Some f\<rparr>
    \<and> writtenBytes f = length (file_flag h) \<and> fwrites w' = []
    \<and> text_of w' (Some f) = add_text (fname f) (file_flag h) (text_of w (lfile l))"
proof -
  obtain now w1 where t: "time_now w = (now, w1)" by (cases "time_now w")
  from assms(1) t obtain n f0 where g: "getLogFileName h w (basename l) = Some (n, now, w1)"
    and f0: "file_new w1 n = Some f0"
    by (auto simp: rollFile_def getLogFileName_def bind_Some_iff split: option.splits)
  define w2 where "w2 = (case lfile l of None \<Rightarrow> w1 | Some old \<Rightarrow> file_close w1 old)"
  obtain w3 f3 where a: "file_append w2 f0 (file_flag h) = (w3, f3)" by (cases "file_append w2 f0 (file_flag h)")
  have f0': "f0 = \<lparr>fname = n, pending = [], writtenBytes = 0\<rparr>"
    using f0 by (auto simp: file_new_def bind_Some_iff)
  have w1: "w1 = w\<lparr>times := times w1\<rparr>" by (rule time_now_world [OF t])
  then have d1: "disk w1 = disk w" and fw1: "fwrites w1 = []"
    using assms(2) by (metis world.ext_inject world.surjective world.update_convs(4))+
  have fw2: "fwrites w2 = []"
    using fw1 by (simp add: w2_def file_close_def file_flush_def split: option.split)
  have r: "w' = w3" "l' = l\<lparr>lastRoll := now, lastFlush := now, startOfPeriod := start_of_day now, lfile := Some f3\<rparr>"
    using assms(1) g f0 a by (auto simp: rollFile_def w2_def split: option.splits)
  have "text_of w2 None = text_of w (lfile l)"
    using text_of_cong [OF d1] by (cases "lfile l") (simp_all add: w2_def text_of_close)
  then have t2: "text_of w2 (Some f0) = text_of w (lfile l)"
    by (simp add: text_of_nothing_pending f0')
  from file_append_full [OF a fw2] text_of_append_full [OF a fw2] r t2 fw2 f0'
  show ?thesis by (intro exI [of _ f3] exI [of _ now]) auto
qed

text \<open>What one append does when \<open>fwrite\<close> takes all it is given.\<close>

lemma append_unlocked_spec:
  assumes "append_unlocked h w l s = Some (w', l')" "lfile l = Some f" "fwrites w = []"
  shows "\<exists>f' tail. lfile l' = Some f' \<and> pmutex l' = pmutex l \<and> rollSize l' = rollSize l \<and> fwrites w' = []
    \<and> text_of w' (Some f') = add_text (fname f') tail (add_text (fname f) s (text_of w (lfile l)))
    \<and> (tail = [] \<and> fname f' = fname f \<and> writtenBytes f' = writtenBytes f + length s
        \<and> writtenBytes f' \<le> rollSize l \<and> startOfPeriod l' = startOfPeriod l \<and> lastRoll l' = lastRoll l
      \<or> tail = file_flag h \<and> writtenBytes f' = length tail \<and> startOfPeriod l' = start_of_day (lastRoll l')
        \<and> (writtenBytes f + length s > rollSize l \<or> log_count l + 1 \<ge> checkEveryN))
    \<and> (0 \<le> log_count l \<and> log_count l < checkEveryN \<longrightarrow> 0 \<le> log_count l' \<and> log_count l' < checkEveryN)"
proof -
  obtain w1 f1 where a: "file_append w f s = (w1, f1)" by (cases "file_append w f s")
  from file_append_full [OF a assms(3)] have w1: "w1 = w"
    and f1: "f1 = f\<lparr>pending := pending f @ s, writtenBytes := writtenBytes f + length s\<rparr>" by auto
  have t1: "text_of w (Some f1) = add_text (fname f) s (text_of w (lfile l))"
    using text_of_append_full [OF a assms(3)] w1 assms(2) by simp
  let ?l1 = "l\<lparr>lfile := Some f1\<rparr>"
  have add_nil: "add_text n [] t = t" for n t by (simp add: add_text_def)
  have chk: "(0::int) < checkEveryN" by (simp add: checkEveryN_def)
  show ?thesis
  proof (cases "writtenBytes f1 > rollSize l")
    case True
    with assms a w1 obtain l2 where ro: "rollFile h w ?l1 = Some (w', l2)" "l' = l2\<lparr>log_count := 0\<rparr>"
      by (auto simp: append_unlocked_def Let_def bind_Some_iff)
    from rollFile_spec [OF ro(1) assms(3)] obtain g now where
      "l2 = ?l1\<lparr>lastRoll := now, lastFlush := now, startOfPeriod := start_of_day now, lfile := Some g\<rparr>"
      "writtenBytes g = length (file_flag h)" "fwrites w' = []"
      "text_of w' (Some g) = add_text (fname g) (file_flag h) (text_of w (Some f1))" by auto
    with True ro(2) t1 f1 chk show ?thesis
      by (intro exI [of _ g] exI [of _ "file_flag h"]) auto
  next
    case small: False
    show ?thesis
    proof (cases "log_count l + 1 \<ge> checkEveryN")
      case False
      with small assms a w1 have "w' = w" "l' = ?l1\<lparr>log_count := log_count l + 1\<rparr>"
        by (auto simp: append_unlocked_def Let_def)
      with small False t1 f1 assms(3) show ?thesis
        by (intro exI [of _ f1] exI [of _ "[]"]) (auto simp: add_nil)
    next
      case count: True
      obtain now w2 where t: "time_now w = (now, w2)" by (cases "time_now w")
      have d2: "disk w2 = disk w" and fw2: "fwrites w2 = []"
        using time_now_world [OF t] assms(3)
        by (metis world.ext_inject world.surjective world.update_convs(4))+
      let ?l3 = "?l1\<lparr>log_count := 0\<rparr>"
      show ?thesis
      proof (cases "start_of_day now \<noteq> startOfPeriod l")
        case True
        with small count assms a w1 t have ro: "rollFile h w2 ?l3 = Some (w', l')"
          by (simp add: append_unlocked_def Let_def)
        from rollFile_spec [OF ro fw2] obtain g nw where
          "l' = ?l3\<lparr>lastRoll := nw, lastFlush := nw, startOfPeriod := start_of_day nw, lfile := Some g\<rparr>"
          "writtenBytes g = length (file_flag h)" "fwrites w' = []"
          "text_of w' (Some g) = add_text (fname g) (file_flag h) (text_of w2 (Some f1))" by auto
        with count t1 chk text_of_cong [OF d2] show ?thesis
          by (intro exI [of _ g] exI [of _ "file_flag h"]) auto
      next
        case same: False
        show ?thesis
        proof (cases "now - lastFlush l > flushInterval l")
          case False
          with same small count assms a w1 t have "w' = w2" "l' = ?l3"
            by (auto simp: append_unlocked_def Let_def)
          with small t1 f1 fw2 chk text_of_cong [OF d2] show ?thesis
            by (intro exI [of _ f1] exI [of _ "[]"]) (auto simp: add_nil)
        next
          case True
          obtain w3 f3 where fl: "file_flush w2 f1 = (w3, f3)" by (cases "file_flush w2 f1")
          with True same small count assms a w1 t have r: "w' = w3" "l' = ?l3\<lparr>lastFlush := now, lfile := Some f3\<rparr>"
            by (auto simp: append_unlocked_def Let_def flush_file_def)
          have "f3 = f1\<lparr>pending := []\<rparr>" "fwrites w3 = []" using fl fw2 by (auto simp: file_flush_def)
          with r small t1 f1 chk text_of_cong [OF d2] text_of_flush [OF fl] show ?thesis
            by (intro exI [of _ f3] exI [of _ "[]"]) (auto simp: add_nil)
        qed
      qed
    qed
  qed
qed

text \<open>The log file object between two calls.\<close>

definition lf_inv :: "logfile \<Rightarrow> bool" where
  "lf_inv l \<longleftrightarrow> 0 \<le> log_count l \<and> log_count l < checkEveryN \<and> startOfPeriod l = start_of_day (lastRoll l)
    \<and> pmutex l \<noteq> Some True
    \<and> (\<exists>f. lfile l = Some f \<and> writtenBytes f \<le> max (rollSize l) 63)"

lemma length_file_flag: "length (file_flag h) \<le> 63"
  by (simp add: file_flag_def)

lemma logfile_append_unlocked:
  assumes "logfile_append h w l s = Some (w', l')" "lfile l = Some f" "fwrites w = []"
  shows "\<exists>l0 l1. (l0 = l \<or> l0 = l\<lparr>pmutex := Some True\<rparr>) \<and> append_unlocked h w l0 s = Some (w', l1)
    \<and> l' = l1\<lparr>pmutex := pmutex l\<rparr> \<and> pmutex l \<noteq> Some True"
proof (cases "pmutex l")
  case None
  with assms(1) have b: "append_unlocked h w l s = Some (w', l')" by (simp add: with_lock_def logfile_append_def)
  from append_unlocked_spec [OF b assms(2,3)] None b show ?thesis
    by (intro exI [of _ l] exI [of _ l']) auto
next
  case (Some held)
  with assms(1) show ?thesis by (auto simp: logfile_append_def with_lock_def bind_Some_iff)
qed

lemma start_of_day_eq: "0 \<le> t \<Longrightarrow> start_of_day t = t - t mod 86400"
  by (simp add: start_of_day_def kRollPerSeconds_def minus_mod_eq_div_mult)

text \<open>The environment of a run without a crash.\<close>

definition host_ok :: "host \<Rightarrow> world \<Rightarrow> bool" where
  "host_ok h w \<longleftrightarrow> length (hostname h) < 32 \<and> (\<forall>t. length (strftime h t) < 32) \<and> (\<forall>n. openable w n)"

lemma rollFile_total:
  assumes "host_ok h w"
  shows "rollFile h w l \<noteq> None"
proof -
  obtain now w1 where t: "time_now w = (now, w1)" by (cases "time_now w")
  have "openable w1 = openable w"
    using time_now_world [OF t] by (metis world.ext_inject world.surjective world.update_convs(4))
  with assms t show ?thesis
    by (simp add: rollFile_def getLogFileName_def host_ok_def file_new_def abort_simps Let_def split: prod.split)
qed

lemma append_unlocked_total:
  assumes "host_ok h w" "lfile l = Some f"
  shows "append_unlocked h w l s \<noteq> None"
proof -
  obtain w1 f1 where a: "file_append w f s = (w1, f1)" by (cases "file_append w f s")
  from file_append_spec [OF a] obtain e where w1: "w1 = w\<lparr>fwrites := fwrites w1, errors := e\<rparr>" by blast
  then have "openable w1 = openable w"
    by (metis world.ext_inject world.surjective world.update_convs(3,5))
  then have h1: "host_ok h w1" using assms by (simp add: host_ok_def)
  obtain now w2 where t: "time_now w1 = (now, w2)" by (cases "time_now w1")
  have "openable w2 = openable w1"
    using time_now_world [OF t] by (metis world.ext_inject world.surjective world.update_convs(4))
  then have h2: "host_ok h w2" using h1 by (simp add: host_ok_def)
  have r1: "\<exists>w' l'. rollFile h w1 l1 = Some (w', l')" and r2: "\<exists>w' l'. rollFile h w2 l1 = Some (w', l')" for l1
    using rollFile_total [OF h1, of l1] rollFile_total [OF h2, of l1] by auto
  show ?thesis
    using r1 [of "l\<lparr>lfile := Some f1\<rparr>"] r2 [of "l\<lparr>lfile := Some f1, log_count := 0\<rparr>"] assms a t
    by (auto simp: append_unlocked_def Let_def flush_file_def split: prod.splits)
qed

section \<open>Properties\<close>

text \<open>
  \<open>File::append\<close> with partial writes: the retry loop stops, what reaches the file is a prefix
  of the data with its length added to \<open>writtenBytes_\<close>, and the prefix is proper exactly when an
  \<open>fwrite\<close> of the loop failed, which is then reported once.
\<close>
theorem file_append_accounting:
  assumes "file_append w f s = (w', f')"
  shows "\<exists>n \<le> length s. pending f' = pending f @ take n s \<and> writtenBytes f' = writtenBytes f + n
    \<and> fname f' = fname f \<and> disk w' = disk w \<and> (n < length s \<longleftrightarrow> errors w' = errors w + 1)
    \<and> errors w' \<le> errors w + 1"
proof -
  from file_append_spec [OF assms] obtain n where n: "n \<le> length s"
    "f' = f\<lparr>pending := pending f @ take n s, writtenBytes := writtenBytes f + n\<rparr>"
    and w': "w' = w\<lparr>fwrites := fwrites w', errors := errors w + (if n < length s then 1 else 0)\<rparr>" by blast
  from w' have "disk w' = disk w" "errors w' = errors w + (if n < length s then 1 else 0)"
    by (metis world.ext_inject world.surjective world.update_convs(3,5))+
  with n show ?thesis by (intro exI [of _ n]) auto
qed


text \<open>
  \<open>LogFile::append\<close> keeps the roll discipline: the file in use never holds more than
  \<open>rollSize_\<close> bytes (or the flag alone), the write counter stays below \<open>checkEveryN_\<close>, the period
  is the start of the day of the last roll, and the mutex is free again.
\<close>
theorem logfile_append_inv:
  assumes "logfile_append h w l s = Some (w', l')" "lf_inv l" "fwrites w = []"
  shows "lf_inv l' \<and> fwrites w' = []"
proof -
  from assms(2) obtain f where f: "lfile l = Some f" "writtenBytes f \<le> max (rollSize l) 63"
    by (auto simp: lf_inv_def)
  from logfile_append_unlocked [OF assms(1) f(1) assms(3)] obtain l0 l1 where
    l0: "l0 = l \<or> l0 = l\<lparr>pmutex := Some True\<rparr>" and b: "append_unlocked h w l0 s = Some (w', l1)"
    and l': "l' = l1\<lparr>pmutex := pmutex l\<rparr>" by blast
  have f0: "lfile l0 = Some f" "rollSize l0 = rollSize l" "log_count l0 = log_count l"
    "startOfPeriod l0 = startOfPeriod l" "lastRoll l0 = lastRoll l" using l0 f by auto
  from append_unlocked_spec [OF b f0(1) assms(3)] l' f0 assms(2) f length_file_flag [of h]
  show ?thesis by (auto simp: lf_inv_def max_def)
qed

text \<open>
  \<open>LogFile::append\<close> does not crash or deadlock when \<open>fopen\<close> succeeds and the host name and
  the date fit their arrays, whatever \<open>fwrite\<close> returns.
\<close>
theorem logfile_append_total:
  assumes "lf_inv l" "host_ok h w"
  shows "\<exists>w' l'. logfile_append h w l s = Some (w', l')"
proof -
  from assms(1) obtain f where f: "lfile l = Some f" "pmutex l \<noteq> Some True" by (auto simp: lf_inv_def)
  then have "append_unlocked h w l s \<noteq> None" "append_unlocked h w (l\<lparr>pmutex := Some True\<rparr>) s \<noteq> None"
    using append_unlocked_total assms(2) by auto
  with f show ?thesis
    by (cases "pmutex l") (auto simp: logfile_append_def with_lock_def abort_simps)
qed

text \<open>
  After \<open>LogFile::flush\<close> every record appended so far is on disk.
\<close>
theorem logfile_flush_persists:
  assumes "logfile_flush w l = Some (w', l')"
  shows "\<forall>n. disk w' n = text_of w (lfile l) n \<and> text_of w' (lfile l') n = disk w' n"
  using assms
  by (auto simp: logfile_flush_def with_lock_def flush_file_def file_flush_def text_of_def bind_Some_iff
    split: option.splits)

definition sample_world :: world where
  "sample_world = \<lparr>disk = (\<lambda>_. []), openable = (\<lambda>_. True), fwrites = [], times = [90000], errors = 0\<rparr>"

definition sample_host :: host where
  "sample_host = \<lparr>strftime = (\<lambda>_. ''.19700102-010000.''), hostname = ''h'', pid = 7, tid = 8, next_fd = 3\<rparr>"

definition sample_file :: cfile where
  "sample_file = \<lparr>fname = ''a'', pending = [], writtenBytes = 0\<rparr>"

definition sample_log :: logfile where
  "sample_log = \<lparr>basename = ''log'', rollSize = 100, flushInterval = 3, pmutex = Some False,
    startOfPeriod = 86400, lastRoll = 90000, lastFlush = 90000, log_count = 0, lfile = Some sample_file\<rparr>"

lemma sample_logfile_inv: "lf_inv sample_log"
  by (simp add: lf_inv_def sample_log_def sample_file_def checkEveryN_def start_of_day_def kRollPerSeconds_def)

lemma sample_host_ok: "host_ok sample_host sample_world"
  by (simp add: host_ok_def sample_host_def sample_world_def)

lemma sample_append:
  "logfile_append sample_host sample_world sample_log ''hi'' =
    Some (sample_world, sample_log\<lparr>log_count := 1, lfile := Some \<lparr>fname = ''a'', pending = ''hi'', writtenBytes = 2\<rparr>\<rparr>)"
  by (simp add: logfile_append_def with_lock_def append_unlocked_def sample_log_def sample_world_def
    sample_file_def file_append_def write_unlocked_def append_loop.simps abort_simps checkEveryN_def)

theorem file_append_accounting_witness:
  "\<exists>n \<le> length ''hello''. pending (snd (file_append (sample_world\<lparr>fwrites := [2, 0]\<rparr>) sample_file ''hello''))
      = pending sample_file @ take n ''hello'' \<and>
    writtenBytes (snd (file_append (sample_world\<lparr>fwrites := [2, 0]\<rparr>) sample_file ''hello''))
      = writtenBytes sample_file + n"
  using file_append_accounting [of "sample_world\<lparr>fwrites := [2, 0]\<rparr>" sample_file "''hello''",
    OF prod.collapse [symmetric]] by blast


theorem logfile_append_inv_witness:
  "lf_inv (sample_log\<lparr>log_count := 1, lfile := Some \<lparr>fname = ''a'', pending = ''hi'', writtenBytes = 2\<rparr>\<rparr>)"
  using logfile_append_inv [OF sample_append sample_logfile_inv] by (simp add: sample_world_def)

theorem logfile_append_total_witness:
  "\<exists>w' l'. logfile_append sample_host sample_world sample_log ''hi'' = Some (w', l')"
  by (rule logfile_append_total [OF sample_logfile_inv sample_host_ok])

lemma sample_flush:
  "logfile_flush sample_world sample_log = Some (sample_world\<lparr>disk := (\<lambda>_. [])(''a'' := [])\<rparr>, sample_log)"
  by (simp add: logfile_flush_def with_lock_def flush_file_def file_flush_def sample_log_def sample_file_def
    sample_world_def abort_simps)

theorem logfile_flush_persists_witness:
  "\<forall>n. disk (sample_world\<lparr>disk := (\<lambda>_. [])(''a'' := [])\<rparr>) n = text_of sample_world (lfile sample_log) n"
  using logfile_flush_persists [OF sample_flush] by blast

end
