(* ===== verification/AsyncLogging.thy ===== *)
theory AsyncLogging
  imports LogStream LogFile
begin

text \<open>
  \<open>matelib/base/AsyncLogging.h\<close> and \<open>.cc\<close>: the double-buffered asynchronous log.

  The state is the object's fields together with the local variables and the program counter of
  the consumer thread, \<open>threadFunc\<close>. A critical section of \<open>mutex_\<close> is one step; so is each stretch
  of the consumer between two of them, which only touches its own variables. A \<open>unique_ptr\<close> is an
  \<open>option\<close> whose dereference when null is \<open>None\<close>, like a failed assertion. The calls the consumer
  makes on its \<open>LogFile\<close> are recorded in order.
\<close>

section \<open>State\<close>

datatype log_call = LAppend string | LFlush

text \<open>
  Points of \<open>threadFunc\<close>: the test of \<open>while (running_)\<close>, the mutex, the timed wait, the three
  stretches after the critical section, the flush after the loop, the end.
\<close>

datatype consumer_pc = LoopTest | EnterLock | Waiting | Discarding | Writing | Refilling | LastFlush | Finished

(* src/matelib/base/AsyncLogging.h:58-71 AsyncLogging *)
record async =
  running :: bool
  a_basename :: string
  a_rollSize :: nat
  currentBuffer :: "fixed_buffer option"
  nextBuffer :: "fixed_buffer option"
  fullBuffers :: "fixed_buffer option list"
  pc :: consumer_pc
  newBuffer1 :: "fixed_buffer option"
  newBuffer2 :: "fixed_buffer option"
  buffersToWrite :: "fixed_buffer option list"
  log_calls :: "log_call list"

section \<open>The front end\<close>

text \<open>The start waits for the consumer thread to be running: it is at its loop test.\<close>

(* src/matelib/base/AsyncLogging.h:47-53 AsyncLogging::start *)
definition async_start :: "async \<Rightarrow> async" where
  "async_start a =
     (if \<not> running a then
        a\<lparr>running := True, pc := LoopTest, newBuffer1 := Some (fb_bzero (fb_new kLargeBuffer)),
          newBuffer2 := Some (fb_bzero (fb_new kLargeBuffer)), buffersToWrite := []\<rparr>
      else a)"

(* src/matelib/base/AsyncLogging.cc:13-32 AsyncLogging::AsyncLogging *)
definition async_new :: "string \<Rightarrow> nat \<Rightarrow> async" where
  "async_new base roll = async_start
     \<lparr>running = False, a_basename = base, a_rollSize = roll,
       currentBuffer = Some (fb_bzero (fb_new kLargeBuffer)),
       nextBuffer = Some (fb_bzero (fb_new kLargeBuffer)), fullBuffers = [], pc = Finished,
       newBuffer1 = None, newBuffer2 = None, buffersToWrite = [], log_calls = []\<rparr>"

(* src/matelib/base/AsyncLogging.cc:36-63 AsyncLogging::append *)
definition async_append :: "async \<Rightarrow> string \<Rightarrow> async option" where
  "async_append a s = do {
     cur \<leftarrow> currentBuffer a;
     if avail cur > to_int32 (int (length s)) then do {
       cur1 \<leftarrow> fb_append cur s;
       Some (a\<lparr>currentBuffer := Some cur1\<rparr>)
     } else do {
       let a1 = a\<lparr>fullBuffers := fullBuffers a @ [currentBuffer a], currentBuffer := None\<rparr>;
       let a2 = (case nextBuffer a1 of
           Some b \<Rightarrow> a1\<lparr>currentBuffer := Some b, nextBuffer := None\<rparr>
         | None \<Rightarrow> a1\<lparr>currentBuffer := Some (fb_new kLargeBuffer)\<rparr>);
       cur2 \<leftarrow> currentBuffer a2;
       cur3 \<leftarrow> fb_append cur2 s;
       Some (a2\<lparr>currentBuffer := Some cur3\<rparr>)
     }
   }"

text \<open>\<open>stop\<close> then waits in \<open>join\<close> for the consumer to be finished.\<close>

(* src/matelib/base/AsyncLogging.h:36-41 AsyncLogging::stop *)
definition async_stop :: "async \<Rightarrow> async" where
  "async_stop a = a\<lparr>running := False\<rparr>"

(* src/matelib/base/AsyncLogging.h:26-31 AsyncLogging::~AsyncLogging *)
definition async_delete :: "async \<Rightarrow> async" where
  "async_delete a = (if running a then async_stop a else a)"

(* src/matelib/base/AsyncLogging.h:43-43 AsyncLogging::setBaseName *)
definition setBaseName :: "async \<Rightarrow> string \<Rightarrow> async" where
  "setBaseName a n = a\<lparr>a_basename := n\<rparr>"

(* src/matelib/base/AsyncLogging.h:44-44 AsyncLogging::setRollSize *)
definition setRollSize :: "async \<Rightarrow> nat \<Rightarrow> async" where
  "setRollSize a n = a\<lparr>a_rollSize := n\<rparr>"

section \<open>The consumer thread\<close>

definition empty_ptr :: "fixed_buffer option \<Rightarrow> bool" where
  "empty_ptr p = (case p of None \<Rightarrow> False | Some b \<Rightarrow> fb_length b = 0)"

(* src/matelib/base/AsyncLogging.cc:79-83 AsyncLogging::threadFunc *)
definition loop_test :: "async \<Rightarrow> async option" where
  "loop_test a =
     (if running a then do {
        assertc (empty_ptr (newBuffer1 a));
        assertc (empty_ptr (newBuffer2 a));
        assertc (buffersToWrite a = []);
        Some (a\<lparr>pc := EnterLock\<rparr>)
      } else Some (a\<lparr>pc := LastFlush\<rparr>))"

(* src/matelib/base/AsyncLogging.cc:97-106 AsyncLogging::threadFunc *)
definition swap_buffers :: "async \<Rightarrow> async" where
  "swap_buffers a =
     (let a1 = a\<lparr>fullBuffers := fullBuffers a @ [currentBuffer a], currentBuffer := None\<rparr>;
          a2 = a1\<lparr>buffersToWrite := fullBuffers a1, fullBuffers := buffersToWrite a1\<rparr>;
          a3 = a2\<lparr>currentBuffer := newBuffer1 a2, newBuffer1 := None\<rparr>;
          a4 = (if nextBuffer a3 = None then a3\<lparr>nextBuffer := newBuffer2 a3, newBuffer2 := None\<rparr> else a3)
      in a4\<lparr>pc := Discarding\<rparr>)"

(* src/matelib/base/AsyncLogging.cc:85-87 AsyncLogging::threadFunc *)
definition wait_test :: "async \<Rightarrow> async" where
  "wait_test a = (if fullBuffers a = [] \<and> running a then a\<lparr>pc := Waiting\<rparr> else swap_buffers a)"

text \<open>The wait ends: a notification, a spurious wakeup or the time-out.\<close>

(* src/matelib/base/AsyncLogging.cc:87-95 AsyncLogging::threadFunc *)
definition woken :: "async \<Rightarrow> async option" where
  "woken a = do {
     cur \<leftarrow> currentBuffer a;
     Some (if fb_length cur > 0 then swap_buffers a else wait_test a)
   }"

definition discard_text :: "string \<Rightarrow> nat \<Rightarrow> string" where
  "discard_text now n =
     take 127 (''Discard log messages at '' @ now @ '', '' @ show_nat n @ '' larger buffers'' @ [CHR 0x0A])"

(* src/matelib/base/AsyncLogging.cc:108-122 AsyncLogging::threadFunc *)
definition discard_surplus :: "string \<Rightarrow> async \<Rightarrow> async" where
  "discard_surplus now a =
     (if length (buffersToWrite a) > 25
      then a\<lparr>log_calls := log_calls a @ [LAppend (discard_text now (length (buffersToWrite a) - 2))],
             buffersToWrite := take 2 (buffersToWrite a), pc := Writing\<rparr>
      else a\<lparr>pc := Writing\<rparr>)"

text \<open>\<open>data()\<close> and \<open>length()\<close> of each buffer; a null pointer is a crash.\<close>

fun write_buffers :: "fixed_buffer option list \<Rightarrow> log_call list option" where
  "write_buffers [] = Some []"
| "write_buffers (p # ps) = do {
     b \<leftarrow> p;
     rest \<leftarrow> write_buffers ps;
     Some (LAppend (take (nat (fb_length b)) (written b)) # rest)
   }"

(* src/matelib/base/AsyncLogging.cc:124-130 AsyncLogging::threadFunc *)
definition write_all :: "async \<Rightarrow> async option" where
  "write_all a = do {
     calls \<leftarrow> write_buffers (buffersToWrite a);
     let a1 = a\<lparr>log_calls := log_calls a @ calls\<rparr>;
     let a2 = (if length (buffersToWrite a1) > 2
       then a1\<lparr>buffersToWrite := take 2 (buffersToWrite a1)\<rparr> else a1);
     Some (a2\<lparr>pc := Refilling\<rparr>)
   }"

text \<open>\<open>back()\<close> of an empty vector and a reset of a null buffer are crashes.\<close>

definition take_back :: "fixed_buffer option list \<Rightarrow> (fixed_buffer \<times> fixed_buffer option list) option" where
  "take_back ps = do {
     assertc (ps \<noteq> []);
     b \<leftarrow> last ps;
     Some (fb_reset b, butlast ps)
   }"

(* src/matelib/base/AsyncLogging.cc:132-145 AsyncLogging::threadFunc *)
definition refill :: "async \<Rightarrow> async option" where
  "refill a = do {
     a1 \<leftarrow> (if newBuffer1 a = None then do {
              (b, ps) \<leftarrow> take_back (buffersToWrite a);
              Some (a\<lparr>newBuffer1 := Some b, buffersToWrite := ps\<rparr>)
            } else Some a);
     a2 \<leftarrow> (if newBuffer2 a1 = None then do {
              (b, ps) \<leftarrow> take_back (buffersToWrite a1);
              Some (a1\<lparr>newBuffer2 := Some b, buffersToWrite := ps\<rparr>)
            } else Some a1);
     Some (a2\<lparr>buffersToWrite := [], log_calls := log_calls a2 @ [LFlush], pc := LoopTest\<rparr>)
   }"

(* src/matelib/base/AsyncLogging.cc:66-147 AsyncLogging::threadFunc *)
definition consumer :: "string \<Rightarrow> async \<Rightarrow> async option" where
  "consumer now a =
     (case pc a of
        LoopTest \<Rightarrow> loop_test a
      | EnterLock \<Rightarrow> Some (wait_test a)
      | Waiting \<Rightarrow> woken a
      | Discarding \<Rightarrow> Some (discard_surplus now a)
      | Writing \<Rightarrow> write_all a
      | Refilling \<Rightarrow> refill a
      | LastFlush \<Rightarrow> Some (a\<lparr>log_calls := log_calls a @ [LFlush], pc := Finished\<rparr>)
      | Finished \<Rightarrow> Some a)"

section \<open>Runs\<close>

text \<open>
  A run interleaves the front-end threads' appends, one \<open>stop\<close>, and the consumer. It remembers
  what the front end has handed over (a record of 4 MiB or more fits no buffer and is not counted)
  and whether the surplus was ever discarded.
\<close>

record arun =
  astate :: async
  accepted :: string
  surplus :: bool

definition arun_start :: "string \<Rightarrow> nat \<Rightarrow> arun" where
  "arun_start base roll = \<lparr>astate = async_new base roll, accepted = [], surplus = False\<rparr>"

inductive arun_step :: "arun \<Rightarrow> arun \<Rightarrow> bool" where
  produce: "async_append (astate r) s = Some a \<Longrightarrow> length s < 2 ^ 31 \<Longrightarrow>
    arun_step r (r\<lparr>astate := a,
      accepted := accepted r @ (if length s < kLargeBuffer then s else [])\<rparr>)"
| consume: "consumer now (astate r) = Some a \<Longrightarrow>
    arun_step r (r\<lparr>astate := a,
      surplus := surplus r \<or> pc (astate r) = Discarding \<and> length (buffersToWrite (astate r)) > 25\<rparr>)"
| stopping: "arun_step r (r\<lparr>astate := async_stop (astate r)\<rparr>)"

inductive_cases arun_stepE: "arun_step r r'"

section \<open>The buffer discipline\<close>

definition full_ptr :: "fixed_buffer option \<Rightarrow> bool" where
  "full_ptr p \<longleftrightarrow> (\<exists>b. p = Some b \<and> large_ok b)"

definition blank_ptr :: "fixed_buffer option \<Rightarrow> bool" where
  "blank_ptr p \<longleftrightarrow> (\<exists>b. p = Some b \<and> large_ok b \<and> written b = [])"

definition ptr_text :: "fixed_buffer option \<Rightarrow> string" where
  "ptr_text p = (case p of None \<Rightarrow> [] | Some b \<Rightarrow> written b)"

definition ptrs_text :: "fixed_buffer option list \<Rightarrow> string" where
  "ptrs_text ps = concat (map ptr_text ps)"

text \<open>What the consumer thread owns, by its program counter.\<close>

definition idle_pcs :: "consumer_pc set" where
  "idle_pcs = {LoopTest, EnterLock, Waiting, LastFlush, Finished}"

definition back_inv :: "async \<Rightarrow> bool" where
  "back_inv a =
     (if pc a \<in> idle_pcs
      then blank_ptr (newBuffer1 a) \<and> blank_ptr (newBuffer2 a) \<and> buffersToWrite a = []
      else newBuffer1 a = None \<and> list_all full_ptr (buffersToWrite a) \<and> buffersToWrite a \<noteq> []
        \<and> (blank_ptr (newBuffer2 a) \<or> newBuffer2 a = None \<and> length (buffersToWrite a) \<ge> 2))"

definition front_inv :: "async \<Rightarrow> bool" where
  "front_inv a \<longleftrightarrow> full_ptr (currentBuffer a) \<and> list_all full_ptr (fullBuffers a)
    \<and> (blank_ptr (nextBuffer a) \<or> nextBuffer a = None \<and> fullBuffers a \<noteq> [])"

definition async_inv :: "async \<Rightarrow> bool" where
  "async_inv a \<longleftrightarrow> front_inv a \<and> back_inv a"

lemma blank_full: "blank_ptr p \<Longrightarrow> full_ptr p"
  by (auto simp: blank_ptr_def full_ptr_def)

lemma blank_text [simp]: "blank_ptr p \<Longrightarrow> ptr_text p = []"
  by (auto simp: blank_ptr_def ptr_text_def)

lemma blank_not_None [simp]: "blank_ptr None \<longleftrightarrow> False" "full_ptr None \<longleftrightarrow> False"
  by (simp_all add: blank_ptr_def full_ptr_def)

lemma blank_new: "blank_ptr (Some (fb_new kLargeBuffer))" "blank_ptr (Some (fb_bzero (fb_new kLargeBuffer)))"
  using large_new_ok by (simp_all add: blank_ptr_def fb_new_def fb_bzero_def)

lemma blank_reset: "full_ptr p \<Longrightarrow> \<exists>b. p = Some b \<and> blank_ptr (Some (fb_reset b))"
  using lb.reset_ok lb.reset_content by (auto simp: full_ptr_def blank_ptr_def)

lemma ptrs_text_simps [simp]:
  "ptrs_text [] = []" "ptrs_text (p # ps) = ptr_text p @ ptrs_text ps"
  "ptrs_text (ps @ qs) = ptrs_text ps @ ptrs_text qs"
  by (simp_all add: ptrs_text_def)

lemma large_length: "large_ok b \<Longrightarrow> fb_length b = int (length (written b))"
  by (simp add: large_ok_def fb_ok_def fb_length_def kLargeBuffer_def)

lemma empty_ptr_blank: "blank_ptr p \<Longrightarrow> empty_ptr p"
  by (auto simp: blank_ptr_def empty_ptr_def large_length)

lemma write_buffers_ok:
  "list_all full_ptr ps \<Longrightarrow> write_buffers ps = Some (map (\<lambda>p. LAppend (ptr_text p)) ps)"
  by (induction ps) (auto simp: full_ptr_def large_length ptr_text_def)

lemma take_back_ok:
  assumes "list_all full_ptr ps" "ps \<noteq> []"
  shows "\<exists>b. take_back ps = Some (b, butlast ps) \<and> blank_ptr (Some b)"
proof -
  from assms have "full_ptr (last ps)" by (simp add: list_all_iff)
  with blank_reset obtain b where "last ps = Some b" "blank_ptr (Some (fb_reset b))" by blast
  with assms show ?thesis by (simp add: take_back_def abort_simps)
qed

text \<open>The front end's append: never a crash, and the record is at the end of the front's text.\<close>

definition front_text :: "async \<Rightarrow> string" where
  "front_text a = ptrs_text (fullBuffers a) @ ptr_text (currentBuffer a)"

lemma append_large:
  assumes "large_ok b" "length s < 2 ^ 31"
  shows "\<exists>b'. fb_append b s = Some b' \<and> large_ok b' \<and>
    written b' = (if int (length s) < avail b then written b @ s else written b)"
proof -
  from lb.append_total [OF assms] obtain b' where "fb_append b s = Some b'" "large_ok b'" by blast
  with lb.append_content [OF assms this(1)] show ?thesis by blast
qed

lemma async_append_ok:
  assumes "front_inv a" "length s < 2 ^ 31"
  shows "\<exists>a'. async_append a s = Some a' \<and> front_inv a'
    \<and> front_text a' = front_text a @ (if length s < kLargeBuffer then s else [])
    \<and> a' = a\<lparr>currentBuffer := currentBuffer a', nextBuffer := nextBuffer a', fullBuffers := fullBuffers a'\<rparr>"
proof -
  from assms obtain cur where cur: "currentBuffer a = Some cur" "large_ok cur"
    by (auto simp: front_inv_def full_ptr_def)
  have c32: "to_int32 (int (length s)) = int (length s)" using assms(2) by simp
  show ?thesis
  proof (cases "avail cur > int (length s)")
    case True
    from append_large [OF cur(2) assms(2)] True obtain b' where
      b': "fb_append cur s = Some b'" "large_ok b'" "written b' = written cur @ s" by auto
    have "int (length s) < int kLargeBuffer"
      using True lb.room_eq [OF cur(2)] by simp
    with b' cur assms(1) True c32 show ?thesis
      by (auto simp: async_append_def front_inv_def front_text_def full_ptr_def ptr_text_def)
  next
    case False
    define n where "n = (case nextBuffer a of Some b \<Rightarrow> b | None \<Rightarrow> fb_new kLargeBuffer)"
    have n: "large_ok n" "written n = []"
      using assms(1) large_new_ok
      by (auto simp: n_def front_inv_def blank_ptr_def fb_new_def split: option.splits)
    from append_large [OF n(1) assms(2)] lb.room_eq [OF n(1)] n(2) obtain b' where
      b': "fb_append n s = Some b'" "large_ok b'" "written b' = (if length s < kLargeBuffer then s else [])"
      by auto
    have "async_append a s = Some (a\<lparr>fullBuffers := fullBuffers a @ [currentBuffer a],
        nextBuffer := None, currentBuffer := Some b'\<rparr>)"
      using False cur c32 b'(1) by (cases "nextBuffer a") (simp_all add: async_append_def n_def Let_def)
    with b' cur assms(1) show ?thesis
      by (auto simp: front_inv_def front_text_def full_ptr_def ptr_text_def)
  qed
qed

section \<open>The consumer keeps the discipline\<close>

fun call_text :: "log_call \<Rightarrow> string" where
  "call_text (LAppend s) = s"
| "call_text LFlush = []"

definition logged :: "async \<Rightarrow> string" where
  "logged a = concat (map call_text (log_calls a))"

definition back_text :: "async \<Rightarrow> string" where
  "back_text a = (if pc a \<in> {Discarding, Writing} then ptrs_text (buffersToWrite a) else [])"

definition in_flight :: "async \<Rightarrow> string" where
  "in_flight a = back_text a @ front_text a"

lemma swap_buffers_eq:
  "swap_buffers a = a\<lparr>buffersToWrite := fullBuffers a @ [currentBuffer a], fullBuffers := buffersToWrite a,
     currentBuffer := newBuffer1 a, newBuffer1 := None,
     nextBuffer := (if nextBuffer a = None then newBuffer2 a else nextBuffer a),
     newBuffer2 := (if nextBuffer a = None then None else newBuffer2 a), pc := Discarding\<rparr>"
  by (simp add: swap_buffers_def Let_def)

lemma swap_buffers_ok:
  assumes "async_inv a" "pc a \<in> idle_pcs"
  shows "async_inv (swap_buffers a) \<and> logged (swap_buffers a) = logged a
    \<and> in_flight (swap_buffers a) = in_flight a \<and> front_text (swap_buffers a) = []"
proof -
  from assms have b: "blank_ptr (newBuffer1 a)" "blank_ptr (newBuffer2 a)" "buffersToWrite a = []"
    and f: "full_ptr (currentBuffer a)" "list_all full_ptr (fullBuffers a)"
      "blank_ptr (nextBuffer a) \<or> nextBuffer a = None \<and> fullBuffers a \<noteq> []"
    by (auto simp: async_inv_def front_inv_def back_inv_def)
  have len: "fullBuffers a \<noteq> [] \<Longrightarrow> Suc 0 \<le> length (fullBuffers a)"
    by (cases "fullBuffers a") auto
  have "front_inv (swap_buffers a)"
    using b f by (auto simp: swap_buffers_eq front_inv_def blank_full)
  moreover have "back_inv (swap_buffers a)"
    using b f len by (auto simp: swap_buffers_eq back_inv_def idle_pcs_def)
  moreover have "in_flight (swap_buffers a) = in_flight a \<and> front_text (swap_buffers a) = []"
    using b assms(2)
    by (auto simp: swap_buffers_eq in_flight_def back_text_def front_text_def idle_pcs_def)
  ultimately show ?thesis by (simp add: async_inv_def logged_def swap_buffers_eq)
qed

lemma pc_move_ok:
  assumes "async_inv a" "pc a \<in> idle_pcs" "p \<in> idle_pcs"
  shows "async_inv (a\<lparr>pc := p\<rparr>) \<and> logged (a\<lparr>pc := p\<rparr>) = logged a \<and> in_flight (a\<lparr>pc := p\<rparr>) = in_flight a"
  using assms by (auto simp: async_inv_def front_inv_def back_inv_def logged_def in_flight_def
    back_text_def front_text_def idle_pcs_def)

lemma wait_test_ok:
  assumes "async_inv a" "pc a \<in> idle_pcs"
  shows "async_inv (wait_test a) \<and> logged (wait_test a) = logged a \<and> in_flight (wait_test a) = in_flight a"
  using pc_move_ok [OF assms, of Waiting] swap_buffers_ok [OF assms]
  by (simp add: wait_test_def idle_pcs_def)

lemma loop_test_ok:
  assumes "async_inv a" "pc a = LoopTest"
  shows "\<exists>a'. loop_test a = Some a' \<and> async_inv a' \<and> logged a' = logged a \<and> in_flight a' = in_flight a"
proof -
  from assms have "blank_ptr (newBuffer1 a)" "blank_ptr (newBuffer2 a)" "buffersToWrite a = []"
    by (auto simp: async_inv_def back_inv_def idle_pcs_def)
  then have "loop_test a = Some (a\<lparr>pc := (if running a then EnterLock else LastFlush)\<rparr>)"
    by (simp add: loop_test_def empty_ptr_blank abort_simps)
  with pc_move_ok [OF assms(1), of "if running a then EnterLock else LastFlush"] assms(2)
  show ?thesis by (simp add: idle_pcs_def)
qed

lemma woken_ok:
  assumes "async_inv a" "pc a = Waiting"
  shows "\<exists>a'. woken a = Some a' \<and> async_inv a' \<and> logged a' = logged a \<and> in_flight a' = in_flight a"
proof -
  from assms obtain cur where "currentBuffer a = Some cur"
    by (auto simp: async_inv_def front_inv_def full_ptr_def)
  moreover have "pc a \<in> idle_pcs" using assms(2) by (simp add: idle_pcs_def)
  ultimately show ?thesis
    using swap_buffers_ok [OF assms(1)] wait_test_ok [OF assms(1)] by (simp add: woken_def)
qed

lemma discard_surplus_ok:
  assumes "async_inv a" "pc a = Discarding"
  shows "async_inv (discard_surplus now a) \<and>
    (length (buffersToWrite a) \<le> 25 \<longrightarrow> logged (discard_surplus now a) = logged a
      \<and> in_flight (discard_surplus now a) = in_flight a)"
proof -
  from assms have "list_all full_ptr (buffersToWrite a)"
    by (simp add: async_inv_def back_inv_def idle_pcs_def)
  then have "list_all full_ptr (take 2 (buffersToWrite a))"
    by (metis append_take_drop_id list_all_append)
  with assms show ?thesis
    by (auto simp: discard_surplus_def async_inv_def front_inv_def back_inv_def idle_pcs_def logged_def
      in_flight_def back_text_def front_text_def)
qed

lemma call_text_LAppend: "concat (map (call_text \<circ> (\<lambda>p. LAppend (ptr_text p))) ps) = ptrs_text ps"
  by (simp add: ptrs_text_def comp_def)

lemma write_all_ok:
  assumes "async_inv a" "pc a = Writing"
  shows "\<exists>a'. write_all a = Some a' \<and> async_inv a' \<and> logged a' = logged a @ back_text a
    \<and> logged a' @ in_flight a' = logged a @ in_flight a"
proof -
  from assms have f: "list_all full_ptr (buffersToWrite a)"
    by (simp add: async_inv_def back_inv_def idle_pcs_def)
  then have f2: "list_all full_ptr (take 2 (buffersToWrite a))"
    by (metis append_take_drop_id list_all_append)
  let ?a = "a\<lparr>log_calls := log_calls a @ map (\<lambda>p. LAppend (ptr_text p)) (buffersToWrite a),
    buffersToWrite := take 2 (buffersToWrite a), pc := Refilling\<rparr>"
  have eq: "write_all a = Some ?a"
    using write_buffers_ok [OF f] by (simp add: write_all_def Let_def)
  have l: "logged ?a = logged a @ back_text a"
    using assms(2) by (simp add: logged_def back_text_def call_text_LAppend)
  have i: "in_flight ?a = front_text a" and j: "in_flight a = back_text a @ front_text a"
    by (simp_all add: in_flight_def back_text_def front_text_def)
  have inv: "async_inv ?a"
    using assms f2 by (auto simp: async_inv_def front_inv_def back_inv_def idle_pcs_def)
  show ?thesis
    by (rule exI [of _ ?a]) (simp only: eq inv l i j append_assoc simp_thms)
qed

lemma refill_ok:
  assumes "async_inv a" "pc a = Refilling"
  shows "\<exists>a'. refill a = Some a' \<and> async_inv a' \<and> logged a' = logged a \<and> in_flight a' = in_flight a
    \<and> log_calls a' = log_calls a @ [LFlush] \<and> pc a' = LoopTest"
proof -
  from assms have n1: "newBuffer1 a = None" and f: "list_all full_ptr (buffersToWrite a)" "buffersToWrite a \<noteq> []"
    and n2: "blank_ptr (newBuffer2 a) \<or> newBuffer2 a = None \<and> length (buffersToWrite a) \<ge> 2"
    by (auto simp: async_inv_def back_inv_def idle_pcs_def)
  from take_back_ok [OF f] obtain b where b: "take_back (buffersToWrite a) = Some (b, butlast (buffersToWrite a))"
    "blank_ptr (Some b)" by blast
  have fin: "\<exists>a'. refill a = Some a' \<and> async_inv a' \<and> logged a' = logged a \<and> in_flight a' = in_flight a
      \<and> log_calls a' = log_calls a @ [LFlush] \<and> pc a' = LoopTest"
    if "refill a = Some (a\<lparr>newBuffer1 := Some b, newBuffer2 := q, buffersToWrite := [],
      log_calls := log_calls a @ [LFlush], pc := LoopTest\<rparr>)" "blank_ptr q" for q
    using that assms b(2) by (auto simp: async_inv_def front_inv_def back_inv_def idle_pcs_def logged_def
      in_flight_def back_text_def front_text_def)
  from n2 show ?thesis
  proof
    assume "blank_ptr (newBuffer2 a)"
    moreover from this have "newBuffer2 a \<noteq> None" by (auto simp: blank_ptr_def)
    ultimately show ?thesis
      using n1 b by (intro fin [of "newBuffer2 a"]) (auto simp: refill_def)
  next
    assume two: "newBuffer2 a = None \<and> length (buffersToWrite a) \<ge> 2"
    then have "butlast (buffersToWrite a) \<noteq> []" by (cases "buffersToWrite a" rule: rev_cases) auto
    moreover have "list_all full_ptr (butlast (buffersToWrite a))"
      using f by (auto simp: list_all_iff dest: in_set_butlastD)
    ultimately obtain c where c: "take_back (butlast (buffersToWrite a))
      = Some (c, butlast (butlast (buffersToWrite a)))" "blank_ptr (Some c)"
      using take_back_ok by blast
    with two n1 b show ?thesis by (intro fin [of "Some c"]) (auto simp: refill_def)
  qed
qed

lemma consumer_ok:
  assumes "async_inv a"
  shows "\<exists>a'. consumer now a = Some a' \<and> async_inv a' \<and>
    (\<not> (pc a = Discarding \<and> length (buffersToWrite a) > 25) \<longrightarrow>
      logged a' @ in_flight a' = logged a @ in_flight a)"
proof (cases "pc a")
  case LoopTest
  with loop_test_ok [OF assms] show ?thesis by (auto simp: consumer_def)
next
  case EnterLock
  with wait_test_ok [OF assms] show ?thesis by (auto simp: consumer_def idle_pcs_def)
next
  case Waiting
  with woken_ok [OF assms] show ?thesis by (auto simp: consumer_def)
next
  case Discarding
  with discard_surplus_ok [OF assms, of now] show ?thesis by (simp add: consumer_def)
next
  case Writing
  with write_all_ok [OF assms] show ?thesis by (auto simp: consumer_def)
next
  case Refilling
  with refill_ok [OF assms] show ?thesis by (auto simp: consumer_def)
next
  case LastFlush
  with pc_move_ok [OF assms, of Finished] show ?thesis
    by (auto simp: consumer_def idle_pcs_def async_inv_def front_inv_def back_inv_def logged_def
      in_flight_def back_text_def front_text_def)
next
  case Finished
  with assms show ?thesis by (simp add: consumer_def)
qed

section \<open>Invariant of the runs\<close>

definition arun_inv :: "arun \<Rightarrow> bool" where
  "arun_inv r \<longleftrightarrow> async_inv (astate r) \<and>
     (\<not> surplus r \<longrightarrow> logged (astate r) @ in_flight (astate r) = accepted r)"

lemma async_new_eq:
  "async_new base roll = \<lparr>running = True, a_basename = base, a_rollSize = roll,
     currentBuffer = Some (fb_bzero (fb_new kLargeBuffer)),
     nextBuffer = Some (fb_bzero (fb_new kLargeBuffer)), fullBuffers = [], pc = LoopTest,
     newBuffer1 = Some (fb_bzero (fb_new kLargeBuffer)),
     newBuffer2 = Some (fb_bzero (fb_new kLargeBuffer)), buffersToWrite = [], log_calls = []\<rparr>"
  by (simp add: async_new_def async_start_def)

lemma arun_start_inv: "arun_inv (arun_start base roll)"
  using blank_new
  by (auto simp: arun_inv_def arun_start_def async_new_eq async_inv_def front_inv_def back_inv_def
    idle_pcs_def blank_full logged_def in_flight_def back_text_def front_text_def)

lemma async_stop_ok:
  "async_inv a \<Longrightarrow> async_inv (async_stop a) \<and> logged (async_stop a) = logged a \<and> in_flight (async_stop a) = in_flight a"
  by (auto simp: async_stop_def async_inv_def front_inv_def back_inv_def logged_def in_flight_def
    back_text_def front_text_def)

lemma append_keeps_back:
  assumes "a' = a\<lparr>currentBuffer := x, nextBuffer := y, fullBuffers := z\<rparr>"
  shows "back_inv a' = back_inv a \<and> logged a' = logged a \<and> back_text a' = back_text a"
  unfolding assms by (simp add: back_inv_def logged_def back_text_def)

lemma arun_step_inv:
  assumes "arun_step r r'" "arun_inv r"
  shows "arun_inv r'"
  using assms(1)
proof cases
  case (produce s a)
  from assms(2) have i: "front_inv (astate r)" "back_inv (astate r)" by (auto simp: arun_inv_def async_inv_def)
  from async_append_ok [OF i(1) produce(3)] produce(2) have
    a: "front_inv a" "front_text a = front_text (astate r) @ (if length s < kLargeBuffer then s else [])"
      "a = (astate r)\<lparr>currentBuffer := currentBuffer a, nextBuffer := nextBuffer a, fullBuffers := fullBuffers a\<rparr>"
    by auto
  from append_keeps_back [OF a(3)] a(1,2) i assms(2) show ?thesis
    unfolding produce(1) by (simp add: arun_inv_def async_inv_def in_flight_def)
next
  case (consume now a)
  from assms(2) consumer_ok [of "astate r" now] consume show ?thesis
    by (auto simp: arun_inv_def)
next
  case stopping
  with assms(2) async_stop_ok show ?thesis by (simp add: arun_inv_def)
qed

interpretation ar: transition_system "\<lambda>r. \<exists>base roll. r = arun_start base roll" arun_step arun_inv
  by unfold_locales (auto intro: arun_start_inv arun_step_inv)

lemma reachable_inv: "arun_step\<^sup>*\<^sup>* (arun_start base roll) r \<Longrightarrow> arun_inv r"
  by (rule ar.inv_reachable) auto

section \<open>Properties\<close>

text \<open>
  C26. However the front-end threads, the consumer and \<open>stop\<close> interleave, no step of the
  asynchronous log fails: the three assertions at the loop head hold, \<open>currentBuffer_\<close> is never
  null when it is used, and \<open>buffersToWrite.back()\<close> is never taken of an empty vector.
\<close>
theorem async_never_crashes:
  assumes "arun_step\<^sup>*\<^sup>* (arun_start base roll) r"
  shows "consumer now (astate r) \<noteq> None \<and> (length s < 2 ^ 31 \<longrightarrow> async_append (astate r) s \<noteq> None)"
proof -
  from reachable_inv [OF assms] have "async_inv (astate r)" by (simp add: arun_inv_def)
  with consumer_ok [OF this, of now] async_append_ok [of "astate r" s] show ?thesis
    by (auto simp: async_inv_def)
qed


text \<open>
  One consumer cycle after a time-out writes and flushes everything appended before it: woken
  with text in the current buffer and no backlog, the four stretches of \<open>threadFunc\<close> bring all
  in-flight text into the log file and flush it, and the consumer is back at its loop test.
\<close>
theorem async_cycle_flushes:
  assumes "async_inv a" "pc a = Waiting" "length (fullBuffers a) < 25"
    "currentBuffer a = Some cur" "written cur \<noteq> []"
  shows "\<exists>a4. (woken a \<bind> (\<lambda>a1. write_all (discard_surplus now a1)) \<bind> refill) = Some a4
    \<and> pc a4 = LoopTest \<and> logged a4 = logged a @ in_flight a \<and> in_flight a4 = []
    \<and> last (log_calls a4) = LFlush"
proof -
  from assms have pcs: "pc a \<in> idle_pcs" and ok: "large_ok cur"
    by (auto simp: idle_pcs_def async_inv_def front_inv_def full_ptr_def)
  let ?s = "swap_buffers a"
  from ok assms have w: "woken a = Some ?s" by (simp add: woken_def large_length)
  from swap_buffers_ok [OF assms(1) pcs] have s: "async_inv ?s" "logged ?s = logged a"
    "in_flight ?s = in_flight a" "front_text ?s = []" by auto
  have d: "discard_surplus now ?s = ?s\<lparr>pc := Writing\<rparr>" (is "_ = ?d")
    using assms(3) by (simp add: discard_surplus_def swap_buffers_eq)
  have pcd: "pc ?s = Discarding" "length (buffersToWrite ?s) \<le> 25"
    using assms(3) by (simp_all add: swap_buffers_eq)
  from discard_surplus_ok [OF s(1) pcd(1), of now] pcd(2) d have di: "async_inv ?d" "logged ?d = logged ?s"
    "in_flight ?d = in_flight ?s" by auto
  have fd: "front_text ?d = []" using s(4) by (simp add: front_text_def)
  have "back_text ?d = in_flight a" using di(3) s(3) fd by (simp add: in_flight_def)
  with write_all_ok [OF di(1)] di(2) s(2) obtain a3 where
    a3: "write_all ?d = Some a3" "async_inv a3" "logged a3 = logged a @ in_flight a"
      "logged a3 @ in_flight a3 = logged ?d @ in_flight ?d" by auto
  then have pc3: "pc a3 = Refilling" by (auto simp: write_all_def bind_Some_iff Let_def)
  have e: "in_flight a3 = []" using a3(3,4) di(2,3) s(2,3) by simp
  from refill_ok [OF a3(2) pc3] obtain a4 where a4: "refill a3 = Some a4" "pc a4 = LoopTest"
    "logged a4 = logged a3" "in_flight a4 = in_flight a3" "log_calls a4 = log_calls a3 @ [LFlush]" by blast
  have "(woken a \<bind> (\<lambda>a1. write_all (discard_surplus now a1)) \<bind> refill) = Some a4"
    using w d a3(1) a4(1) by simp
  with a4 a3(3) e show ?thesis by (intro exI [of _ a4]) simp
qed

text \<open>
  Overload: with more than 25 buffers waiting, the consumer writes one message with the
  number of buffers given up, then exactly the first two buffers in full, drops all the others,
  and its cycle still completes with two blank spare buffers.
\<close>
theorem async_discards_surplus:
  assumes "async_inv a" "pc a = Discarding" "buffersToWrite a = p # q # ps" "length ps > 23"
  shows "\<exists>a2 a3. write_all (discard_surplus now a) = Some a2 \<and> refill a2 = Some a3
    \<and> log_calls a3 = log_calls a @ [LAppend (discard_text now (length ps)), LAppend (ptr_text p),
        LAppend (ptr_text q), LFlush]
    \<and> blank_ptr (newBuffer1 a3) \<and> blank_ptr (newBuffer2 a3) \<and> buffersToWrite a3 = []"
proof -
  let ?d = "discard_surplus now a"
  have d: "?d = a\<lparr>log_calls := log_calls a @ [LAppend (discard_text now (length ps))],
      buffersToWrite := [p, q], pc := Writing\<rparr>"
    using assms(3,4) by (simp add: discard_surplus_def numeral_2_eq_2)
  have inv: "async_inv ?d" using discard_surplus_ok [OF assms(1,2)] by blast
  then have f: "full_ptr p" "full_ptr q" by (auto simp: d async_inv_def back_inv_def idle_pcs_def)
  then have w: "write_all ?d = Some (?d\<lparr>log_calls := log_calls ?d @ [LAppend (ptr_text p), LAppend (ptr_text q)],
      pc := Refilling\<rparr>)"
    by (simp add: write_all_def d write_buffers_ok Let_def numeral_2_eq_2 del: write_buffers.simps)
  have pcd: "pc ?d = Writing" by (simp add: d)
  from write_all_ok [OF inv pcd] w obtain a2 where a2: "write_all ?d = Some a2" "async_inv a2"
    "pc a2 = Refilling" "log_calls a2 = log_calls ?d @ [LAppend (ptr_text p), LAppend (ptr_text q)]" by auto
  from refill_ok [OF a2(2,3)] obtain a3 where a3: "refill a2 = Some a3" "async_inv a3"
    "log_calls a3 = log_calls a2 @ [LFlush]" "pc a3 = LoopTest" by blast
  then have "blank_ptr (newBuffer1 a3) \<and> blank_ptr (newBuffer2 a3) \<and> buffersToWrite a3 = []"
    by (simp add: async_inv_def back_inv_def idle_pcs_def)
  with a2 a3 show ?thesis by (intro exI [of _ a2] exI [of _ a3]) (simp add: d)
qed

text \<open>
  A record appended just before \<open>stop\<close> is lost: the loop test sees \<open>running_\<close> false and the
  thread ends after a flush without another look at the buffers. Here a record is appended,
  \<open>stop\<close> called, and the consumer runs to its end with an empty log file.
\<close>
theorem async_stop_loses_tail:
  "\<exists>r. arun_step\<^sup>*\<^sup>* (arun_start ''log'' 100) r \<and> pc (astate r) = Finished \<and> \<not> surplus r
    \<and> accepted r = ''bye'' \<and> logged (astate r) = []"
proof -
  let ?a0 = "async_new ''log'' 100"
  have f: "front_inv ?a0" and inv: "async_inv ?a0" using arun_start_inv [of "''log''" 100]
    by (auto simp: arun_inv_def arun_start_def async_inv_def)
  from async_append_ok [OF f, of "''bye''"] obtain a1 where a1: "async_append ?a0 ''bye'' = Some a1"
    "a1 = ?a0\<lparr>currentBuffer := currentBuffer a1, nextBuffer := nextBuffer a1, fullBuffers := fullBuffers a1\<rparr>"
    by auto
  let ?r1 = "(arun_start ''log'' 100)\<lparr>astate := a1, accepted := ''bye''\<rparr>"
  have s1: "arun_step (arun_start ''log'' 100) ?r1"
    using arun_step.produce [of "arun_start ''log'' 100" "''bye''" a1] a1(1)
    by (simp add: arun_start_def kLargeBuffer_def)
  let ?a2 = "async_stop a1" and ?r2 = "?r1\<lparr>astate := async_stop a1\<rparr>"
  have s2: "arun_step ?r1 ?r2" using arun_step.stopping [of ?r1] by simp
  have pc1: "pc a1 = LoopTest" "log_calls a1 = []" by (subst a1(2), simp add: async_new_eq)+
  let ?a3 = "?a2\<lparr>pc := LastFlush\<rparr>"
  have c1: "consumer [] ?a2 = Some ?a3" using pc1 by (simp add: consumer_def loop_test_def async_stop_def)
  let ?r3 = "?r2\<lparr>astate := ?a3\<rparr>"
  have s3: "arun_step ?r2 ?r3"
    using arun_step.consume [of "[]" ?r2 ?a3] c1 pc1 by (simp add: arun_start_def async_stop_def)
  let ?a4 = "?a3\<lparr>log_calls := [LFlush], pc := Finished\<rparr>"
  have c2: "consumer [] ?a3 = Some ?a4" using pc1 by (simp add: consumer_def async_stop_def)
  let ?r4 = "?r3\<lparr>astate := ?a4\<rparr>"
  have s4: "arun_step ?r3 ?r4" using arun_step.consume [of "[]" ?r3 ?a4] c2 by (simp add: arun_start_def)
  have "arun_step\<^sup>*\<^sup>* (arun_start ''log'' 100) ?r4"
    using s1 s2 s3 s4 by (meson converse_rtranclp_into_rtranclp rtranclp.rtrancl_refl)
  then show ?thesis by (intro exI [of _ ?r4]) (simp add: arun_start_def logged_def)
qed

definition waiting_async :: async where
  "waiting_async = (async_new ''log'' 100)\<lparr>pc := Waiting,
     currentBuffer := Some ((fb_new kLargeBuffer)\<lparr>written := ''hi''\<rparr>)\<rparr>"

lemma waiting_async_inv: "async_inv waiting_async"
proof -
  have "large_ok ((fb_new kLargeBuffer)\<lparr>written := ''hi''\<rparr>)"
    by (simp add: large_ok_def fb_ok_def fb_new_def kLargeBuffer_def)
  with blank_new show ?thesis
    by (simp add: waiting_async_def async_new_eq async_inv_def front_inv_def back_inv_def idle_pcs_def full_ptr_def)
qed

theorem async_never_crashes_witness:
  "consumer [] (async_new ''log'' 100) \<noteq> None \<and>
    async_append (async_new ''log'' 100) ''hi'' \<noteq> None"
  using async_never_crashes [of "''log''" 100 "arun_start ''log'' 100" "[]" "''hi''"]
  by (simp add: arun_start_def)


theorem async_cycle_flushes_witness:
  "\<exists>a4. (woken waiting_async \<bind> (\<lambda>a1. write_all (discard_surplus [] a1)) \<bind> refill) = Some a4
    \<and> pc a4 = LoopTest \<and> logged a4 = logged waiting_async @ in_flight waiting_async \<and> in_flight a4 = []
    \<and> last (log_calls a4) = LFlush"
  by (rule async_cycle_flushes [OF waiting_async_inv,
      of "(fb_new kLargeBuffer)\<lparr>written := ''hi''\<rparr>"]) (simp_all add: waiting_async_def async_new_eq)

definition backlog_async :: async where
  "backlog_async = swap_buffers (waiting_async\<lparr>
     fullBuffers := replicate 26 (Some ((fb_new kLargeBuffer)\<lparr>written := ''hi''\<rparr>))\<rparr>)"

theorem async_discards_surplus_witness:
  "\<exists>a2 a3. write_all (discard_surplus [] backlog_async) = Some a2 \<and> refill a2 = Some a3
    \<and> log_calls a3 = [LAppend (discard_text [] 25), LAppend ''hi'', LAppend ''hi'', LFlush]"
proof -
  let ?b = "Some ((fb_new kLargeBuffer)\<lparr>written := ''hi''\<rparr>)"
  let ?w = "waiting_async\<lparr>fullBuffers := replicate 26 ?b\<rparr>"
  have b: "full_ptr ?b" by (simp add: full_ptr_def large_ok_def fb_ok_def fb_new_def kLargeBuffer_def)
  then have "async_inv ?w" using waiting_async_inv
    by (auto simp: async_inv_def front_inv_def back_inv_def waiting_async_def list_all_iff idle_pcs_def)
  moreover have "pc ?w \<in> idle_pcs" by (simp add: waiting_async_def idle_pcs_def)
  ultimately have i: "async_inv backlog_async" by (simp add: backlog_async_def swap_buffers_ok)
  have p: "pc backlog_async = Discarding" by (simp add: backlog_async_def swap_buffers_eq)
  have q: "buffersToWrite backlog_async = ?b # ?b # (replicate 24 ?b @ [?b])"
    by (simp add: backlog_async_def swap_buffers_eq waiting_async_def numeral_eq_Suc)
  have l: "log_calls backlog_async = []" "ptr_text ?b = ''hi''"
    by (simp_all add: backlog_async_def swap_buffers_eq waiting_async_def async_new_eq ptr_text_def)
  show ?thesis using async_discards_surplus [OF i p q, of "[]"] l by auto
qed

end
