(* ===== verification/Sync.thy ===== *)
theory Sync
  imports Prelude Timestamp
begin

text \<open>
  The thread primitives of \<open>matelib/base\<close>: \<open>MutexLock\<close>, \<open>Condition\<close>, \<open>CountDownLatch\<close>,
  \<open>CurrentThread\<close>, \<open>Thread\<close>, \<open>Singleton\<close> and \<open>ThreadLocal\<close>. Threads are numbers.

  The pthread functions below these classes are modelled by what POSIX promises of them: a mutex
  has an owner, a condition variable has the threads blocked on it and those it has let go (by a
  signal, a broadcast or a spurious wakeup) that contend for the mutex again.
\<close>

section \<open>MutexLock\<close>

(* src/matelib/base/MutexLock.h:44-46 MutexLock *)
record mutex =
  owner :: "nat option"

(* src/matelib/base/MutexLock.h:17-21 MutexLock::MutexLock *)
definition mutex_new :: "bool \<Rightarrow> mutex option" where
  "mutex_new init_ok = do { assertc init_ok; Some \<lparr>owner = None\<rparr> }"

text \<open>\<open>pthread_mutex_destroy\<close> fails on a locked mutex.\<close>

(* src/matelib/base/MutexLock.h:23-27 MutexLock::~MutexLock *)
definition mutex_delete :: "mutex \<Rightarrow> unit option" where
  "mutex_delete m = assertc (owner m = None)"

text \<open>\<open>None\<close>: the caller blocks, for ever when it is the owner itself.\<close>

(* src/matelib/base/MutexLock.h:29-32 MutexLock::lock *)
definition mutex_lock :: "nat \<Rightarrow> mutex \<Rightarrow> mutex option" where
  "mutex_lock t m = (if owner m = None then Some (m\<lparr>owner := Some t\<rparr>) else None)"

(* src/matelib/base/MutexLock.h:34-37 MutexLock::unlock *)
definition mutex_unlock :: "mutex \<Rightarrow> mutex" where
  "mutex_unlock m = m\<lparr>owner := None\<rparr>"

text \<open>The guard holds the mutex while its block \<open>body\<close> runs.\<close>

(* src/matelib/base/MutexLock.h:49-65 MutexLockGuard *)
definition lock_guard :: "nat \<Rightarrow> mutex \<Rightarrow> (mutex \<Rightarrow> (mutex \<times> 'a) option) \<Rightarrow> (mutex \<times> 'a) option" where
  "lock_guard t m body = do {
     m1 \<leftarrow> mutex_lock t m;
     (m2, x) \<leftarrow> body m1;
     Some (mutex_unlock m2, x)
   }"

section \<open>Condition\<close>

(* src/matelib/base/Condition.h:58-61 Condition *)
record cond =
  blocked :: "nat list"
  released :: "nat list"

(* src/matelib/base/Condition.h:21-26 Condition::Condition *)
definition cond_new :: "bool \<Rightarrow> cond option" where
  "cond_new init_ok = do { assertc init_ok; Some \<lparr>blocked = [], released = []\<rparr> }"

text \<open>\<open>pthread_cond_destroy\<close> fails while threads are blocked.\<close>

(* src/matelib/base/Condition.h:28-32 Condition::~Condition *)
definition cond_delete :: "cond \<Rightarrow> unit option" where
  "cond_delete c = assertc (blocked c = [])"

text \<open>The caller gives up the mutex and blocks; \<open>cond_resume\<close> is its return with the mutex.\<close>

(* src/matelib/base/Condition.h:34-37 Condition::wait *)
definition cond_wait :: "nat \<Rightarrow> cond \<Rightarrow> cond" where
  "cond_wait t c = c\<lparr>blocked := blocked c @ [t]\<rparr>"

definition cond_resume :: "nat \<Rightarrow> cond \<Rightarrow> cond" where
  "cond_resume t c = c\<lparr>released := remove1 t (released c)\<rparr>"

definition cond_spurious :: "nat \<Rightarrow> cond \<Rightarrow> cond" where
  "cond_spurious t c =
     (if t \<in> set (blocked c) then \<lparr>blocked = remove1 t (blocked c), released = released c @ [t]\<rparr> else c)"

text \<open>The timed wait ends like a wait, or when the clock reaches the deadline; the result says which.\<close>

(* src/matelib/base/Condition.h:40-46 Condition::waitForSeconds *)
definition waitForSeconds :: "int \<Rightarrow> int \<Rightarrow> int option \<Rightarrow> bool" where
  "waitForSeconds now seconds released_at =
     (let deadline = now + seconds
      in case released_at of None \<Rightarrow> True | Some t \<Rightarrow> t \<ge> deadline)"

text \<open>A signal lets one blocked thread go, the scheduler's choice (here the longest waiting).\<close>

(* src/matelib/base/Condition.h:48-51 Condition::notify *)
definition cond_notify :: "cond \<Rightarrow> cond" where
  "cond_notify c = (case blocked c of [] \<Rightarrow> c | t # ts \<Rightarrow> \<lparr>blocked = ts, released = released c @ [t]\<rparr>)"

(* src/matelib/base/Condition.h:53-56 Condition::notifyAll *)
definition cond_notifyAll :: "cond \<Rightarrow> cond" where
  "cond_notifyAll c = \<lparr>blocked = [], released = released c @ blocked c\<rparr>"

section \<open>CountDownLatch\<close>

text \<open>\<open>passed\<close> are the threads whose call of \<open>wait\<close> has returned.\<close>

(* src/matelib/base/CountDownLatch.h:44-48 CountDownLatch *)
record latch =
  lcond :: cond
  count :: int
  passed :: "nat list"

(* src/matelib/base/CountDownLatch.h:16-20 CountDownLatch::CountDownLatch *)
definition latch_new :: "int \<Rightarrow> latch" where
  "latch_new n = \<lparr>lcond = \<lparr>blocked = [], released = []\<rparr>, count = n, passed = []\<rparr>"

text \<open>The loop test of \<open>wait\<close>, with the mutex held: on the first entry and after every wakeup.\<close>

(* src/matelib/base/CountDownLatch.h:22-28 CountDownLatch::wait *)
definition latch_wait :: "nat \<Rightarrow> latch \<Rightarrow> latch" where
  "latch_wait t l =
     (if count l > 0 then l\<lparr>lcond := cond_wait t (lcond l)\<rparr> else l\<lparr>passed := t # passed l\<rparr>)"

definition latch_resume :: "nat \<Rightarrow> latch \<Rightarrow> latch" where
  "latch_resume t l = latch_wait t (l\<lparr>lcond := cond_resume t (lcond l)\<rparr>)"

(* src/matelib/base/CountDownLatch.h:30-37 CountDownLatch::countDown *)
definition countDown :: "latch \<Rightarrow> latch" where
  "countDown l =
     (let l1 = l\<lparr>count := count l - 1\<rparr>
      in if count l1 = 0 then l1\<lparr>lcond := cond_notifyAll (lcond l1)\<rparr> else l1)"

(* src/matelib/base/CountDownLatch.h:39-42 CountDownLatch::getCount *)
definition getCount :: "latch \<Rightarrow> int" where
  "getCount l = count l"

inductive latch_step :: "latch \<Rightarrow> latch \<Rightarrow> bool" where
  enter: "latch_step l (latch_wait t l)"
| resume: "t \<in> set (released (lcond l)) \<Longrightarrow> latch_step l (latch_resume t l)"
| spurious: "latch_step l (l\<lparr>lcond := cond_spurious t (lcond l)\<rparr>)"
| down: "latch_step l (countDown l)"

inductive_cases latch_stepE: "latch_step l l'"

definition latch_inv :: "latch \<Rightarrow> bool" where
  "latch_inv l \<longleftrightarrow> (blocked (lcond l) \<noteq> [] \<longrightarrow> count l > 0) \<and> (passed l \<noteq> [] \<longrightarrow> count l \<le> 0)"

lemma latch_wait_inv: "latch_inv l \<Longrightarrow> latch_inv (latch_wait t l)"
  by (auto simp: latch_inv_def latch_wait_def cond_wait_def)

lemma latch_resume_inv: "latch_inv l \<Longrightarrow> latch_inv (latch_resume t l)"
  unfolding latch_resume_def by (rule latch_wait_inv) (simp add: latch_inv_def cond_resume_def)

lemma countDown_inv: "latch_inv l \<Longrightarrow> latch_inv (countDown l)"
  by (auto simp: latch_inv_def countDown_def cond_notifyAll_def Let_def)

lemma latch_step_inv: "latch_step l l' \<Longrightarrow> latch_inv l \<Longrightarrow> latch_inv l'"
proof (induction rule: latch_step.induct)
  case (spurious l t)
  then show ?case by (auto simp: latch_inv_def cond_spurious_def)
qed (simp_all add: latch_wait_inv latch_resume_inv countDown_inv)

lemma latch_count_antimono: "latch_step l l' \<Longrightarrow> count l' \<le> count l"
  by (induction rule: latch_step.induct)
    (auto simp: latch_wait_def latch_resume_def countDown_def Let_def)

interpretation la: transition_system "\<lambda>l. \<exists>n. l = latch_new n" latch_step latch_inv
proof unfold_locales
  fix l assume "\<exists>n. l = latch_new n"
  then show "latch_inv l" by (auto simp: latch_inv_def latch_new_def)
qed (rule latch_step_inv)

section \<open>CurrentThread\<close>

(* src/matelib/base/Thread.cc:26-28 CurrentThread *)
record thread_vars =
  t_cachedTid :: int
  t_tidString :: string
  t_threadName :: string

definition thread_vars_new :: thread_vars where
  "thread_vars_new = \<lparr>t_cachedTid = 0, t_tidString = [], t_threadName = ''unknown''\<rparr>"

text \<open>\<open>gettid\<close> is an input: the kernel's number of the calling thread.\<close>

(* src/matelib/base/Thread.cc:30-37 CurrentThread::cachedId *)
definition cachedId :: "int \<Rightarrow> thread_vars \<Rightarrow> thread_vars option" where
  "cachedId gettid v =
     (if t_cachedTid v = 0 then
        let v1 = v\<lparr>t_cachedTid := gettid\<rparr>; s = blank_pad 5 (show_int gettid) @ '' '' in do {
          assertc (length s = 6);
          Some (v1\<lparr>t_tidString := take 31 s\<rparr>)
        }
      else Some v)"

(* src/matelib/base/CurrentThread.h:19-25 CurrentThread::tid *)
definition current_tid :: "int \<Rightarrow> thread_vars \<Rightarrow> (thread_vars \<times> int) option" where
  "current_tid gettid v = do {
     v1 \<leftarrow> (if t_cachedTid v = 0 then cachedId gettid v else Some v);
     Some (v1, t_cachedTid v1)
   }"

(* src/matelib/base/CurrentThread.h:27-33 CurrentThread::tidString *)
definition tidString :: "int \<Rightarrow> thread_vars \<Rightarrow> (thread_vars \<times> string) option" where
  "tidString gettid v = do {
     v1 \<leftarrow> (if t_cachedTid v = 0 then cachedId gettid v else Some v);
     Some (v1, t_tidString v1)
   }"

(* src/matelib/base/CurrentThread.h:35-38 CurrentThread::name *)
definition current_name :: "thread_vars \<Rightarrow> string" where
  "current_name v = t_threadName v"

section \<open>Thread\<close>

text \<open>
  The new thread's progress, and what the thread calling \<open>start\<close> does: it passes the latch
  (thread number 0 there) when \<open>start\<close> returns.
\<close>

datatype child_pc = NotCreated | Created | Named | InFunc | Ended

(* src/matelib/base/Thread.h:37-42 Thread *)
record thread =
  started :: bool
  pthreadId :: nat
  thread_tid :: int
  thread_name :: string
  latch :: latch
  child :: child_pc
  tvars :: thread_vars

(* src/matelib/base/Thread.cc:45-53 Thread::Thread *)
definition thread_new :: "string \<Rightarrow> thread" where
  "thread_new name = \<lparr>started = False, pthreadId = 0, thread_tid = 0, thread_name = name,
     latch = latch_new 1, child = NotCreated, tvars = thread_vars_new\<rparr>"

text \<open>\<open>create\<close> is the result of \<open>pthread_create\<close>: 0 and the new identifier.\<close>

(* src/matelib/base/Thread.cc:59-68 Thread::start *)
definition thread_start :: "int \<times> nat \<Rightarrow> thread \<Rightarrow> thread option" where
  "thread_start create t = do {
     assertc (\<not> started t);
     let t1 = t\<lparr>started := True\<rparr>;
     assertc (fst create = 0);
     let t2 = t1\<lparr>pthreadId := snd create, child := Created\<rparr>;
     Some (t2\<lparr>latch := latch_wait 0 (latch t2)\<rparr>)
   }"

text \<open>\<open>None\<close> also when the caller would wait: the result of \<open>pthread_join\<close> once the thread has ended.\<close>

(* src/matelib/base/Thread.cc:70-74 Thread::join *)
definition thread_join :: "thread \<Rightarrow> int option" where
  "thread_join t = do {
     assertc (started t);
     if child t = Ended then Some 0 else None
   }"

text \<open>
  \<open>runInThread\<close> in the new thread: its number and name, the latch, the function and the end.
  \<open>gettid\<close> is the kernel's number of the thread.
\<close>

(* src/matelib/base/Thread.cc:85-93 Thread::runInThread *)
definition thread_prepare :: "int \<Rightarrow> thread \<Rightarrow> thread option" where
  "thread_prepare gettid t = do {
     (v, n) \<leftarrow> current_tid gettid (tvars t);
     let t1 = t\<lparr>thread_tid := n, tvars := v\<rparr>;
     let t2 = (if thread_name t1 = [] then t1\<lparr>thread_name := take 127 (''thread'' @ show_int n)\<rparr> else t1);
     Some (t2\<lparr>tvars := (tvars t2)\<lparr>t_threadName := thread_name t2\<rparr>, child := Named\<rparr>)
   }"

(* src/matelib/base/Thread.cc:78-98 Thread::startThread *)
definition runInThread :: "int \<Rightarrow> thread \<Rightarrow> thread option" where
  "runInThread gettid t =
     (case child t of
        NotCreated \<Rightarrow> Some t
      | Created \<Rightarrow> thread_prepare gettid t
      | Named \<Rightarrow> Some (t\<lparr>latch := countDown (latch t), child := InFunc\<rparr>)
      | InFunc \<Rightarrow> Some (t\<lparr>tvars := (tvars t)\<lparr>t_threadName := ''finished''\<rparr>, child := Ended\<rparr>)
      | Ended \<Rightarrow> Some t)"

text \<open>The steps after \<open>start\<close> was called: of the new thread, and of the one waiting at the latch.\<close>

inductive thread_step :: "int \<Rightarrow> thread \<Rightarrow> thread \<Rightarrow> bool" for gettid where
  run: "runInThread gettid t = Some t' \<Longrightarrow> thread_step gettid t t'"
| resume_start: "0 \<in> set (released (lcond (latch t))) \<Longrightarrow>
    thread_step gettid t (t\<lparr>latch := latch_resume 0 (latch t)\<rparr>)"
| spurious_start: "thread_step gettid t (t\<lparr>latch := (latch t)\<lparr>lcond := cond_spurious 0 (lcond (latch t))\<rparr>\<rparr>)"

definition thread_inv :: "int \<Rightarrow> thread \<Rightarrow> bool" where
  "thread_inv gettid t \<longleftrightarrow> latch_inv (latch t) \<and> child t \<noteq> NotCreated \<and> started t
    \<and> count (latch t) = (if child t \<in> {Created, Named} then 1 else 0)
    \<and> (child t = Created \<longrightarrow> tvars t = thread_vars_new)
    \<and> (child t \<noteq> Created \<longrightarrow> thread_tid t = gettid \<and> thread_name t \<noteq> [])"

lemma latch_resume_count [simp]: "count (latch_resume t l) = count l"
  by (simp add: latch_resume_def latch_wait_def)

lemma countDown_count [simp]: "count (countDown l) = count l - 1"
  by (simp add: countDown_def Let_def)

lemma prepare_Some:
  assumes "thread_prepare gettid t = Some t'" "tvars t = thread_vars_new"
  shows "thread_tid t' = gettid \<and> thread_name t' \<noteq> [] \<and> latch t' = latch t \<and> child t' = Named
    \<and> started t' = started t"
  using assms
  by (auto simp: thread_prepare_def current_tid_def cachedId_def thread_vars_new_def bind_Some_iff Let_def
    split: if_splits)

lemma latch_spurious_inv: "latch_inv l \<Longrightarrow> latch_inv (l\<lparr>lcond := cond_spurious t (lcond l)\<rparr>)"
  by (rule latch_step_inv [OF latch_step.spurious])

lemma thread_step_inv: "thread_step gettid t t' \<Longrightarrow> thread_inv gettid t \<Longrightarrow> thread_inv gettid t'"
proof (induction rule: thread_step.induct)
  case (run t t')
  show ?case
  proof (cases "child t")
    case Created
    with run prepare_Some [of gettid t t'] show ?thesis
      by (auto simp: runInThread_def thread_inv_def)
  qed (use run in \<open>auto simp: runInThread_def thread_inv_def countDown_inv\<close>)
next
  case (resume_start t)
  then show ?case by (auto simp: thread_inv_def latch_resume_inv)
next
  case (spurious_start t)
  then show ?case by (auto simp: thread_inv_def latch_spurious_inv)
qed

lemma thread_start_inv:
  assumes "thread_start create (thread_new name) = Some t"
  shows "thread_inv gettid t"
proof -
  have "t = (thread_new name)\<lparr>started := True, pthreadId := snd create, child := Created,
      latch := latch_wait 0 (latch_new 1)\<rparr>"
    using assms by (auto simp: thread_start_def thread_new_def bind_Some_iff Let_def)
  then show ?thesis
    using latch_wait_inv [of "latch_new 1" 0]
    by (simp add: thread_inv_def thread_new_def) (simp add: latch_inv_def latch_new_def latch_wait_def cond_wait_def)
qed

interpretation th: transition_system
  "\<lambda>t. \<exists>create name. thread_start create (thread_new name) = Some t" "thread_step gettid" "thread_inv gettid"
  for gettid
proof unfold_locales
  fix t assume "\<exists>create name. thread_start create (thread_new name) = Some t"
  then show "thread_inv gettid t" using thread_start_inv by blast
qed (rule thread_step_inv)

section \<open>Singleton\<close>

text \<open>The static members: whether \<open>ponce_\<close> has run, and the object \<open>value_\<close> points to.\<close>

datatype 'a pointee = Null | Alive 'a | Deleted

(* src/matelib/base/Singleton.h:39-40 Singleton *)
record 'a singleton =
  ponce :: bool
  s_value :: "'a pointee"
  at_exit :: nat

definition singleton_new :: "'a singleton" where
  "singleton_new = \<lparr>ponce = False, s_value = Null, at_exit = 0\<rparr>"

(* src/matelib/base/Singleton.h:29-33 Singleton::init *)
definition singleton_init :: "'a \<Rightarrow> 'a singleton \<Rightarrow> 'a singleton" where
  "singleton_init obj s = s\<lparr>s_value := Alive obj, at_exit := Suc (at_exit s)\<rparr>"

(* src/matelib/base/Singleton.h:19-23 Singleton::instance *)
definition singleton_instance :: "'a \<Rightarrow> 'a singleton \<Rightarrow> ('a singleton \<times> 'a) option" where
  "singleton_instance fresh s =
     (let s1 = (if ponce s then s else singleton_init fresh (s\<lparr>ponce := True\<rparr>))
      in case s_value s1 of Alive x \<Rightarrow> Some (s1, x) | _ \<Rightarrow> None)"

(* src/matelib/base/Singleton.h:34-37 Singleton::destroy *)
definition singleton_destroy :: "'a singleton \<Rightarrow> 'a singleton" where
  "singleton_destroy s = s\<lparr>s_value := Deleted\<rparr>"

section \<open>ThreadLocal\<close>

text \<open>The value the key has in each thread, and the objects no pointer is left to.\<close>

(* src/matelib/base/ThreadLocal.h:57-59 ThreadLocal *)
record 'a thread_local =
  slots :: "nat \<Rightarrow> 'a option"
  leaked :: "'a list"

(* src/matelib/base/ThreadLocal.h:23-31 ThreadLocal::ThreadLocal *)
definition tl_new :: "'a thread_local" where
  "tl_new = \<lparr>slots = (\<lambda>_. None), leaked = []\<rparr>"

(* src/matelib/base/ThreadLocal.h:38-41 ThreadLocal::initValue *)
definition tl_initValue :: "nat \<Rightarrow> 'a \<Rightarrow> 'a thread_local \<Rightarrow> 'a thread_local" where
  "tl_initValue t obj v =
     v\<lparr>slots := (slots v)(t := Some obj),
       leaked := (case slots v t of None \<Rightarrow> leaked v | Some x \<Rightarrow> leaked v @ [x])\<rparr>"

(* src/matelib/base/ThreadLocal.h:43-49 ThreadLocal::value *)
definition tl_value :: "nat \<Rightarrow> 'a thread_local \<Rightarrow> 'a option" where
  "tl_value t v = slots v t"

text \<open>The destructor of the key runs when a thread with a value exits.\<close>

(* src/matelib/base/ThreadLocal.h:52-55 ThreadLocal::destructor *)
definition tl_thread_exit :: "nat \<Rightarrow> 'a thread_local \<Rightarrow> 'a thread_local" where
  "tl_thread_exit t v = v\<lparr>slots := (slots v)(t := None)\<rparr>"

text \<open>Deleting the key runs no destructor: the values the threads still hold are leaked.\<close>

(* src/matelib/base/ThreadLocal.h:33-36 ThreadLocal::~ThreadLocal *)
definition tl_delete :: "nat list \<Rightarrow> 'a thread_local \<Rightarrow> 'a list" where
  "tl_delete threads v = leaked v @ List.map_filter (slots v) threads"

section \<open>Properties\<close>

text \<open>
  C35. \<open>CountDownLatch\<close>: in every interleaving of \<open>wait\<close>, \<open>countDown\<close> and spurious wakeups, a
  call of \<open>wait\<close> has returned only if the count is down to zero, and once it is, no thread is left
  blocked in the condition variable: no wakeup is lost.
\<close>
theorem latch_correct:
  assumes "latch_step\<^sup>*\<^sup>* (latch_new n) l"
  shows "(passed l \<noteq> [] \<longrightarrow> count l \<le> 0) \<and> (count l \<le> 0 \<longrightarrow> blocked (lcond l) = [])"
proof -
  have "latch_inv l" by (rule la.inv_reachable [OF _ assms]) blast
  then show ?thesis by (auto simp: latch_inv_def)
qed

text \<open>
  \<open>Thread::start\<close> returns only after the new thread has stored its kernel number in \<open>tid_\<close> and
  given itself a name, and it does not wait for the thread's function to end.
\<close>
theorem thread_start_waits_for_tid:
  assumes "thread_start create (thread_new name) = Some t" "(thread_step gettid)\<^sup>*\<^sup>* t t'"
  shows "(passed (latch t') \<noteq> [] \<longrightarrow> thread_tid t' = gettid \<and> thread_name t' \<noteq> [] \<and> child t' \<in> {InFunc, Ended})
    \<and> (child t' \<in> {InFunc, Ended} \<longrightarrow> blocked (lcond (latch t')) = [])"
proof -
  have "thread_inv gettid t'" by (rule th.inv_reachable [OF _ assms(2)]) (use assms(1) in blast)
  then show ?thesis
    by (cases "child t'") (auto simp: thread_inv_def latch_inv_def)
qed

lemma show_int_length_6:
  assumes "0 < n"
  shows "length (blank_pad 5 (show_int n) @ '' '') = 6 \<longleftrightarrow> n < 100000"
proof (cases "n < 100000")
  case True
  then have "length (show_nat (nat n)) \<le> 5" by (intro length_show_nat) auto
  with True assms show ?thesis by (simp add: blank_pad_def show_int_def)
next
  case False
  have "\<not> length (show_nat (nat n)) \<le> 5"
  proof
    assume l: "length (show_nat (nat n)) \<le> 5"
    have "dec_val (show_nat (nat n)) < 10 ^ length (show_nat (nat n))"
      by (rule dec_val_bound) (auto dest: show_nat_digits)
    also have "\<dots> \<le> 10 ^ 5" using l by (rule power_increasing) simp
    finally show False using False by simp
  qed
  with False assms show ?thesis by (simp add: blank_pad_def show_int_def)
qed

text \<open>
  \<open>cachedId\<close> asserts that "%5d " prints six characters: it works for thread numbers below
  100000 and stops the process for every larger one, which Linux hands out up to 4194304.
\<close>
theorem cachedId_needs_small_tid:
  assumes "0 < gettid"
  shows "cachedId gettid thread_vars_new \<noteq> None \<longleftrightarrow> gettid < 100000"
proof -
  have "cachedId gettid thread_vars_new \<noteq> None \<longleftrightarrow> length (blank_pad 5 (show_int gettid) @ '' '') = 6"
    by (simp only: cachedId_def thread_vars_new_def thread_vars.simps Let_def abort_simps if_True) simp
  then show ?thesis using show_int_length_6 [OF assms] by simp
qed

text \<open>
  \<open>Singleton::instance\<close> constructs its object exactly once and returns the same object at
  every call; a call after the \<open>atexit\<close> destruction uses a deleted object.
\<close>
theorem singleton_constructed_once:
  assumes "singleton_instance x singleton_new = Some (s, y)"
  shows "y = x \<and> at_exit s = 1 \<and> singleton_instance z s = Some (s, x)
    \<and> singleton_instance z (singleton_destroy s) = None"
  using assms
  by (auto simp: singleton_instance_def singleton_new_def singleton_init_def singleton_destroy_def)

text \<open>
  A \<open>ThreadLocal\<close> value is seen by its thread only, a thread that has not called \<open>initValue\<close>
  dereferences null, and a second \<open>initValue\<close> leaks the first object.
\<close>
theorem thread_local_isolated:
  "tl_value u (tl_initValue t x v) = (if u = t then Some x else tl_value u v)
    \<and> tl_value u tl_new = None
    \<and> leaked (tl_initValue t y (tl_initValue t x tl_new)) = [x]"
  by (simp add: tl_value_def tl_initValue_def tl_new_def)

theorem latch_correct_witness:
  "passed (latch_resume 3 (countDown (latch_wait 3 (latch_new 1)))) = [3]
    \<and> count (latch_resume 3 (countDown (latch_wait 3 (latch_new 1)))) \<le> 0"
proof -
  have 1: "latch_step\<^sup>*\<^sup>* (latch_new 1) (countDown (latch_wait 3 (latch_new 1)))"
    by (meson latch_step.enter latch_step.down converse_rtranclp_into_rtranclp rtranclp.rtrancl_refl)
  have "latch_step\<^sup>*\<^sup>* (latch_new 1) (latch_resume 3 (countDown (latch_wait 3 (latch_new 1))))"
    by (rule rtranclp.rtrancl_into_rtrancl [OF 1 latch_step.resume])
      (simp add: latch_wait_def latch_new_def countDown_def cond_wait_def cond_notifyAll_def)
  moreover have "passed (latch_resume 3 (countDown (latch_wait 3 (latch_new 1)))) = [3]"
    by (simp add: latch_resume_def latch_wait_def latch_new_def countDown_def)
  ultimately show ?thesis using latch_correct [of 1] by fastforce
qed

theorem thread_start_waits_for_tid_witness:
  "\<exists>t' :: thread. child t' = InFunc \<and> blocked (lcond (latch t')) = []"
proof -
  let ?t0 = "(thread_new ''w'')\<lparr>started := True, pthreadId := 9, child := Created, latch := latch_wait 0 (latch_new 1)\<rparr>"
  have st: "thread_start (0, 9) (thread_new ''w'') = Some ?t0"
    by (simp add: thread_start_def thread_new_def abort_simps Let_def)
  let ?t1 = "?t0\<lparr>thread_tid := 77, tvars := \<lparr>t_cachedTid = 77, t_tidString = take 31 (blank_pad 5 (show_int 77) @ '' ''), t_threadName = ''w''\<rparr>, child := Named\<rparr>"
  have s1: "thread_step 77 ?t0 ?t1"
    using show_int_length_6 [of 77]
    by (intro thread_step.run) (simp add: runInThread_def thread_prepare_def current_tid_def cachedId_def
      thread_new_def thread_vars_new_def abort_simps Let_def)
  let ?t2 = "?t1\<lparr>latch := countDown (latch ?t1), child := InFunc\<rparr>"
  have s2: "thread_step 77 ?t1 ?t2" by (rule thread_step.run) (simp add: runInThread_def)
  have "(thread_step 77)\<^sup>*\<^sup>* ?t0 ?t2"
    using s1 s2 by (meson rtranclp.rtrancl_into_rtrancl rtranclp.rtrancl_refl)
  from thread_start_waits_for_tid [OF st this] show ?thesis
    by (intro exI [of _ ?t2]) simp
qed

theorem cachedId_needs_small_tid_witness:
  "cachedId 100000 thread_vars_new = None \<and> cachedId 99999 thread_vars_new \<noteq> None"
  using cachedId_needs_small_tid [of 100000] cachedId_needs_small_tid [of 99999] by simp

theorem singleton_constructed_once_witness:
  "singleton_instance z \<lparr>ponce = True, s_value = Alive (5::nat), at_exit = 1\<rparr>
    = Some (\<lparr>ponce = True, s_value = Alive 5, at_exit = 1\<rparr>, 5)"
proof -
  have "singleton_instance (5::nat) singleton_new = Some (\<lparr>ponce = True, s_value = Alive 5, at_exit = 1\<rparr>, 5)"
    by (simp add: singleton_instance_def singleton_new_def singleton_init_def)
  from singleton_constructed_once [OF this, of z] show ?thesis by blast
qed

end
