(* ===== verification/ThreadPool.thy ===== *)
theory ThreadPool
  imports Sync "HOL-Library.Multiset"
begin

text \<open>
  \<open>matelib/base/ThreadPool.h\<close> and \<open>.cc\<close>: worker threads that take tasks from one queue.

  A critical section of \<open>mutex_\<close> is one step. Workers are numbered by their position in
  \<open>threads_\<close>. A task is a value of any type; \<open>taken\<close> and \<open>executed\<close> remember the order in which
  tasks leave the queue and the tasks that were run.
\<close>

section \<open>State\<close>

text \<open>
  Where a worker is: at the test of \<open>while (running_)\<close>, about to enter \<open>take\<close>, in the condition
  variable (blocked, or released by it), returned from \<open>take\<close>, or at its end.
\<close>

datatype 'a worker = AtTest | AtTake | InWait | Holding "'a option" | WorkerEnded

(* src/matelib/base/ThreadPool.h:36-42 ThreadPool *)
record 'a pool =
  pcond :: cond
  threadNum :: nat
  pool_name :: string
  pool_running :: bool
  tasks :: "'a list"
  thread_names :: "string option list"
  workers :: "'a worker list"
  taken :: "'a list"
  executed :: "'a list"

(* src/matelib/base/ThreadPool.cc:12-18 ThreadPool::ThreadPool *)
definition pool_new :: "nat \<Rightarrow> string \<Rightarrow> 'a pool" where
  "pool_new n name = \<lparr>pcond = \<lparr>blocked = [], released = []\<rparr>, threadNum = n, pool_name = name,
     pool_running = False, tasks = [], thread_names = [], workers = [], taken = [], executed = []\<rparr>"

definition worker_name :: "string \<Rightarrow> nat \<Rightarrow> string" where
  "worker_name name i = name @ take 31 (''-thread'' @ show_nat i)"

text \<open>
  \<open>threads_\<close> is the list of the names of its threads, a null pointer \<open>None\<close>. Starting one through
  a null pointer stops the process. Each start waits for the new thread to run.
\<close>

(* src/matelib/base/ThreadPool.cc:27-45 ThreadPool::start *)
definition pool_start :: "'a pool \<Rightarrow> 'a pool option" where
  "pool_start p = do {
     assertc (\<not> pool_running p);
     let p1 = p\<lparr>pool_running := True\<rparr>;
     let p2 = p1\<lparr>thread_names := thread_names p1 @
       map (\<lambda>i. Some (worker_name (pool_name p1) i)) [0..<threadNum p1]\<rparr>;
     assertc (None \<notin> set (thread_names p2));
     Some (p2\<lparr>workers := replicate (length (thread_names p2)) AtTest\<rparr>)
   }"

text \<open>The first block of \<open>stop\<close>, then, once the workers have ended, the joins and resets.\<close>

(* src/matelib/base/ThreadPool.cc:47-53 ThreadPool::stop *)
definition pool_stop :: "'a pool \<Rightarrow> 'a pool" where
  "pool_stop p = p\<lparr>pool_running := False, pcond := cond_notifyAll (pcond p)\<rparr>"

(* src/matelib/base/ThreadPool.cc:55-64 ThreadPool::stop *)
definition pool_join :: "'a pool \<Rightarrow> 'a pool option" where
  "pool_join p = do {
     assertc (None \<notin> set (thread_names p));
     if list_all (\<lambda>w. w = WorkerEnded) (workers p)
     then Some (p\<lparr>thread_names := map (\<lambda>_. None) (thread_names p)\<rparr>)
     else None
   }"

(* src/matelib/base/ThreadPool.cc:20-25 ThreadPool::~ThreadPool *)
definition pool_delete :: "'a pool \<Rightarrow> 'a pool" where
  "pool_delete p = (if pool_running p then pool_stop p else p)"

(* src/matelib/base/ThreadPool.cc:66-76 ThreadPool::run *)
definition pool_run :: "'a \<Rightarrow> 'a pool \<Rightarrow> 'a pool" where
  "pool_run task p =
     (if thread_names p = [] then p\<lparr>executed := executed p @ [task]\<rparr>
      else p\<lparr>tasks := tasks p @ [task], pcond := cond_notify (pcond p)\<rparr>)"

text \<open>\<open>take\<close> with the mutex held: on entry and after each return from the wait.\<close>

(* src/matelib/base/ThreadPool.cc:89-105 ThreadPool::take *)
definition pool_take :: "nat \<Rightarrow> 'a pool \<Rightarrow> 'a pool" where
  "pool_take i p =
     (if tasks p = [] \<and> pool_running p
      then p\<lparr>pcond := cond_wait i (pcond p), workers := (workers p)[i := InWait]\<rparr>
      else case tasks p of
          [] \<Rightarrow> p\<lparr>workers := (workers p)[i := Holding None]\<rparr>
        | t # ts \<Rightarrow> p\<lparr>tasks := ts, taken := taken p @ [t], workers := (workers p)[i := Holding (Some t)]\<rparr>)"

(* src/matelib/base/ThreadPool.cc:78-87 ThreadPool::runInThread *)
definition worker_step :: "nat \<Rightarrow> 'a pool \<Rightarrow> 'a pool" where
  "worker_step i p =
     (case workers p ! i of
        AtTest \<Rightarrow> p\<lparr>workers := (workers p)[i := (if pool_running p then AtTake else WorkerEnded)]\<rparr>
      | AtTake \<Rightarrow> pool_take i p
      | InWait \<Rightarrow> (if i \<in> set (released (pcond p))
                  then pool_take i (p\<lparr>pcond := cond_resume i (pcond p)\<rparr>) else p)
      | Holding t \<Rightarrow> p\<lparr>workers := (workers p)[i := AtTest],
          executed := (case t of None \<Rightarrow> executed p | Some x \<Rightarrow> executed p @ [x])\<rparr>
      | WorkerEnded \<Rightarrow> p)"

section \<open>Runs after the start\<close>

inductive pool_step :: "'a pool \<Rightarrow> 'a pool \<Rightarrow> bool" where
  submit: "pool_step p (pool_run t p)"
| work: "i < length (workers p) \<Longrightarrow> pool_step p (worker_step i p)"
| spurious: "pool_step p (p\<lparr>pcond := cond_spurious i (pcond p)\<rparr>)"
| stopping: "pool_step p (pool_stop p)"

inductive_cases pool_stepE: "pool_step p q"

text \<open>
  The condition variable and the workers agree; a stopped pool has nobody blocked; tasks never
  wait in the queue while every worker is blocked.
\<close>

definition pool_inv :: "'a pool \<Rightarrow> bool" where
  "pool_inv p \<longleftrightarrow>
     distinct (blocked (pcond p) @ released (pcond p))
     \<and> (\<forall>i < length (workers p). (workers p ! i = InWait) = (i \<in> set (blocked (pcond p) @ released (pcond p))))
     \<and> set (blocked (pcond p) @ released (pcond p)) \<subseteq> {0..<length (workers p)}
     \<and> (\<not> pool_running p \<longrightarrow> blocked (pcond p) = [])
     \<and> (tasks p \<noteq> [] \<longrightarrow> (\<exists>i < length (workers p). i \<notin> set (blocked (pcond p))))
     \<and> length (workers p) = length (thread_names p)"

lemma pool_run_inv: "pool_inv p \<Longrightarrow> pool_inv (pool_run t p)"
proof -
  assume inv: "pool_inv p"
  show ?thesis
  proof (cases "blocked (pcond p)")
    case Nil
    with inv show ?thesis
      by (auto simp: pool_run_def pool_inv_def cond_notify_def)
  next
    case (Cons b bs)
    have "b < length (workers p)" using inv Cons by (auto simp: pool_inv_def)
    with inv Cons show ?thesis
      by (auto simp: pool_run_def pool_inv_def cond_notify_def)
  qed
qed

lemma pool_stop_inv: "pool_inv p \<Longrightarrow> pool_inv (pool_stop p)"
  by (auto simp: pool_stop_def pool_inv_def cond_notifyAll_def)

lemma pool_spurious_inv: "pool_inv p \<Longrightarrow> pool_inv (p\<lparr>pcond := cond_spurious i (pcond p)\<rparr>)"
  by (auto simp: pool_inv_def cond_spurious_def dest: notin_set_remove1)

text \<open>The state between a worker's return from the wait, or its entry, and its next test in \<open>take\<close>.\<close>

definition take_ready :: "nat \<Rightarrow> 'a pool \<Rightarrow> bool" where
  "take_ready i p \<longleftrightarrow> i < length (workers p)
     \<and> distinct (blocked (pcond p) @ released (pcond p))
     \<and> i \<notin> set (blocked (pcond p) @ released (pcond p))
     \<and> (\<forall>j < length (workers p). j \<noteq> i \<longrightarrow>
          (workers p ! j = InWait) = (j \<in> set (blocked (pcond p) @ released (pcond p))))
     \<and> set (blocked (pcond p) @ released (pcond p)) \<subseteq> {0..<length (workers p)}
     \<and> (\<not> pool_running p \<longrightarrow> blocked (pcond p) = [])
     \<and> length (workers p) = length (thread_names p)"

lemma pool_take_inv:
  assumes "take_ready i p"
  shows "pool_inv (pool_take i p)"
proof (cases "tasks p")
  case Nil
  show ?thesis
  proof (cases "pool_running p")
    case True
    with Nil have "pool_take i p = p\<lparr>pcond := cond_wait i (pcond p), workers := (workers p)[i := InWait]\<rparr>"
      by (simp add: pool_take_def)
    with assms Nil True show ?thesis
      by (auto simp: pool_inv_def take_ready_def cond_wait_def nth_list_update)
  next
    case False
    with Nil have "pool_take i p = p\<lparr>workers := (workers p)[i := Holding None]\<rparr>"
      by (simp add: pool_take_def)
    with assms Nil False show ?thesis
      by (auto simp: pool_inv_def take_ready_def nth_list_update)
  qed
next
  case (Cons t ts)
  then have "pool_take i p = p\<lparr>tasks := ts, taken := taken p @ [t], workers := (workers p)[i := Holding (Some t)]\<rparr>"
    by (simp add: pool_take_def)
  with assms show ?thesis
    by (auto simp: pool_inv_def take_ready_def nth_list_update)
qed

lemma take_ready_enter:
  "pool_inv p \<Longrightarrow> i < length (workers p) \<Longrightarrow> workers p ! i = AtTake \<Longrightarrow> take_ready i p"
  by (auto simp: pool_inv_def take_ready_def)

lemma take_ready_resume:
  assumes "pool_inv p" "i < length (workers p)" "i \<in> set (released (pcond p))"
  shows "take_ready i (p\<lparr>pcond := cond_resume i (pcond p)\<rparr>)"
  using assms by (auto simp: pool_inv_def take_ready_def cond_resume_def)

lemma worker_move_inv:
  assumes "pool_inv p" "i < length (workers p)" "workers p ! i \<noteq> InWait" "w \<noteq> InWait"
  shows "pool_inv (p\<lparr>workers := (workers p)[i := w]\<rparr>)"
  using assms by (auto simp: pool_inv_def nth_list_update)

lemma pool_inv_executed [simp]: "pool_inv (p\<lparr>executed := e\<rparr>) = pool_inv p"
  "pool_inv (p\<lparr>workers := w, executed := e\<rparr>) = pool_inv (p\<lparr>workers := w\<rparr>)"
  by (simp_all add: pool_inv_def)

lemma worker_step_inv:
  assumes "pool_inv p" "i < length (workers p)"
  shows "pool_inv (worker_step i p)"
proof (cases "workers p ! i")
  case AtTest
  with worker_move_inv [OF assms, of "if pool_running p then AtTake else WorkerEnded"] show ?thesis
    by (simp add: worker_step_def split: if_splits)
next
  case AtTake
  with pool_take_inv [OF take_ready_enter [OF assms]] show ?thesis by (simp add: worker_step_def)
next
  case InWait
  with pool_take_inv [OF take_ready_resume [OF assms]] assms show ?thesis by (simp add: worker_step_def)
next
  case (Holding t)
  with worker_move_inv [OF assms, of AtTest] have "pool_inv (p\<lparr>workers := (workers p)[i := AtTest]\<rparr>)" by simp
  with Holding show ?thesis by (simp add: worker_step_def)
next
  case WorkerEnded
  with assms show ?thesis by (simp add: worker_step_def)
qed

lemma pool_step_inv: "pool_step p q \<Longrightarrow> pool_inv p \<Longrightarrow> pool_inv q"
  by (induction rule: pool_step.induct)
    (simp_all add: pool_run_inv worker_step_inv pool_spurious_inv pool_stop_inv)

lemma pool_start_inv:
  assumes "pool_start (pool_new n name) = Some p" "0 < n"
  shows "pool_inv p"
  using assms by (auto simp: pool_start_def pool_new_def pool_inv_def bind_Some_iff Let_def)

interpretation po: transition_system
  "\<lambda>p. \<exists>n name. 0 < n \<and> pool_start (pool_new n name) = Some p" pool_step pool_inv
proof unfold_locales
  fix p :: "'a pool"
  assume "\<exists>n name. 0 < n \<and> pool_start (pool_new n name) = Some p"
  then show "pool_inv p" using pool_start_inv by blast
qed (rule pool_step_inv)

section \<open>Tasks\<close>

fun held :: "'a worker \<Rightarrow> 'a list" where
  "held (Holding (Some t)) = [t]"
| "held w = []"

definition all_held :: "'a pool \<Rightarrow> 'a list" where
  "all_held p = concat (map held (workers p))"

text \<open>A run with the list of tasks submitted in it.\<close>

inductive pool_trace :: "'a pool \<Rightarrow> 'a list \<Rightarrow> 'a pool \<Rightarrow> bool" for p where
  t_start: "pool_trace p [] p"
| t_submit: "pool_trace p ts q \<Longrightarrow> pool_trace p (ts @ [t]) (pool_run t q)"
| t_work: "pool_trace p ts q \<Longrightarrow> i < length (workers q) \<Longrightarrow> pool_trace p ts (worker_step i q)"
| t_spurious: "pool_trace p ts q \<Longrightarrow> pool_trace p ts (q\<lparr>pcond := cond_spurious i (pcond q)\<rparr>)"
| t_stop: "pool_trace p ts q \<Longrightarrow> pool_trace p ts (pool_stop q)"

definition tasks_inv :: "'a pool \<Rightarrow> 'a list \<Rightarrow> bool" where
  "tasks_inv q ts \<longleftrightarrow> taken q @ tasks q = ts \<and> mset (taken q) = mset (executed q) + mset (all_held q)
     \<and> thread_names q \<noteq> []"

lemma mset_held_update:
  "i < length ws \<Longrightarrow> mset (concat (map held (ws[i := w]))) + mset (held (ws ! i))
     = mset (concat (map held ws)) + mset (held w)"
proof (induction ws arbitrary: i)
  case Nil
  then show ?case by simp
next
  case (Cons v ws)
  show ?case
  proof (cases i)
    case 0
    then show ?thesis by (simp add: ac_simps)
  next
    case (Suc j)
    with Cons have "mset (concat (map held (ws[j := w]))) + mset (held (ws ! j))
      = mset (concat (map held ws)) + mset (held w)" by simp
    with Suc show ?thesis by (simp add: ac_simps)
  qed
qed

lemma pool_take_tasks:
  assumes "tasks_inv q ts" "i < length (workers q)" "held (workers q ! i) = []"
  shows "tasks_inv (pool_take i q) ts"
proof -
  have upd: "mset (concat (map held ((workers q)[i := w]))) = mset (all_held q) + mset (held w)" for w
    using mset_held_update [OF assms(2), of w] assms(3) by (simp add: all_held_def)
  show ?thesis
  proof (cases "tasks q")
    case Nil
    with assms(1) upd show ?thesis by (auto simp: tasks_inv_def pool_take_def all_held_def)
  next
    case (Cons t us)
    with assms(1) upd [of "Holding (Some t)"] show ?thesis
      by (simp add: tasks_inv_def pool_take_def all_held_def)
  qed
qed

lemma tasks_inv_pcond [simp]: "tasks_inv (q\<lparr>pcond := c\<rparr>) ts = tasks_inv q ts"
  by (simp add: tasks_inv_def all_held_def)

lemma worker_step_tasks:
  assumes "tasks_inv q ts" "i < length (workers q)"
  shows "tasks_inv (worker_step i q) ts"
proof (cases "workers q ! i")
  case AtTest
  with mset_held_update [OF assms(2), of "if pool_running q then AtTake else WorkerEnded"] assms
  show ?thesis by (auto simp: worker_step_def tasks_inv_def all_held_def)
next
  case AtTake
  with pool_take_tasks [OF assms] show ?thesis by (simp add: worker_step_def)
next
  case InWait
  with pool_take_tasks [of "q\<lparr>pcond := cond_resume i (pcond q)\<rparr>" ts i] assms show ?thesis
    by (simp add: worker_step_def)
next
  case (Holding t)
  with mset_held_update [OF assms(2), of AtTest] assms show ?thesis
    by (cases t) (auto simp: worker_step_def tasks_inv_def all_held_def)
next
  case WorkerEnded
  with assms show ?thesis by (simp add: worker_step_def)
qed

lemma pool_trace_tasks:
  assumes "pool_trace p ts q" "tasks_inv p []"
  shows "tasks_inv q ts"
  using assms
proof (induction rule: pool_trace.induct)
  case (t_submit ts q t)
  then have "tasks_inv q ts" by simp
  then show ?case by (auto simp: tasks_inv_def pool_run_def all_held_def)
next
  case (t_stop ts q)
  then have "tasks_inv q ts" by simp
  then show ?case by (simp add: tasks_inv_def pool_stop_def all_held_def)
qed (simp_all add: worker_step_tasks)

lemma pool_start_tasks:
  "pool_start (pool_new n name) = Some p \<Longrightarrow> 0 < n \<Longrightarrow> tasks_inv p []"
  by (auto simp: pool_start_def pool_new_def bind_Some_iff Let_def tasks_inv_def all_held_def)

section \<open>Stopping\<close>

text \<open>The number of steps a worker of a stopped pool is from its end.\<close>

fun rank :: "'a worker \<Rightarrow> nat" where
  "rank WorkerEnded = 0" | "rank AtTest = 1" | "rank (Holding t) = 2" | "rank AtTake = 3" | "rank InWait = 3"

lemma stopped_step:
  assumes "pool_inv p" "\<not> pool_running p" "i < length (workers p)"
  shows "pool_inv (worker_step i p) \<and> \<not> pool_running (worker_step i p)
    \<and> length (workers (worker_step i p)) = length (workers p)
    \<and> rank (workers (worker_step i p) ! i) \<le> rank (workers p ! i) - 1"
proof -
  have inv: "pool_inv (worker_step i p)" by (rule worker_step_inv [OF assms(1,3)])
  have rel: "workers p ! i = InWait \<Longrightarrow> i \<in> set (released (pcond p))"
    using assms by (auto simp: pool_inv_def)
  have tk: "\<not> pool_running (pool_take i q) \<and> length (workers (pool_take i q)) = length (workers p)
      \<and> rank (workers (pool_take i q) ! i) = 2" if "\<not> pool_running q" "workers q = workers p" for q
    using that assms(3) by (cases "tasks q") (simp_all add: pool_take_def)
  show ?thesis
    using inv assms(2,3) rel tk [of p] tk [of "p\<lparr>pcond := cond_resume i (pcond p)\<rparr>"]
    by (cases "workers p ! i") (simp_all add: worker_step_def)
qed

lemma rank_3: "rank w \<le> 3"
  by (cases w) simp_all

lemma rank_0: "rank w = 0 \<longleftrightarrow> w = WorkerEnded"
  by (cases w) simp_all

section \<open>Properties\<close>

text \<open>
  C27. Tasks leave the queue in the order they were submitted, each at most once, and each task
  taken has been executed or is in the hands of exactly one worker, whatever the interleaving of
  submissions, workers, wakeups and \<open>stop\<close>.
\<close>
theorem pool_runs_each_task_once:
  assumes "pool_start (pool_new n name) = Some p" "0 < n" "pool_trace p ts q"
  shows "taken q @ tasks q = ts \<and> mset ts = mset (executed q) + mset (all_held q) + mset (tasks q)"
proof -
  have "tasks_inv q ts" by (rule pool_trace_tasks [OF assms(3) pool_start_tasks [OF assms(1,2)]])
  then have a: "taken q @ tasks q = ts" and b: "mset (taken q) = mset (executed q) + mset (all_held q)"
    by (auto simp: tasks_inv_def)
  from a have "mset ts = mset (taken q) + mset (tasks q)" by (metis mset_append)
  with a b show ?thesis by simp
qed

text \<open>
  No wakeup is lost: queued tasks never coexist with all workers blocked in the condition
  variable, and in a stopped pool no worker is blocked there.
\<close>
theorem pool_no_lost_wakeup:
  assumes "pool_start (pool_new n name) = Some p" "0 < n" "pool_step\<^sup>*\<^sup>* p q"
  shows "(tasks q \<noteq> [] \<longrightarrow> (\<exists>i < length (workers q). i \<notin> set (blocked (pcond q))))
    \<and> (\<not> pool_running q \<longrightarrow> blocked (pcond q) = [])"
proof -
  have "pool_inv q" by (rule po.inv_reachable [OF _ assms(3)]) (use assms(1,2) in blast)
  then show ?thesis unfolding pool_inv_def by blast
qed

text \<open>
  \<open>stop\<close> returns: after its broadcast every worker reaches the end of \<open>runInThread\<close> within
  three of its own steps, so that the joins do not wait for ever.
\<close>
theorem pool_stop_ends_workers:
  assumes "pool_inv p" "i < length (workers p)"
  shows "workers ((worker_step i ^^ 3) (pool_stop p)) ! i = WorkerEnded"
proof -
  define q where "q = pool_stop p"
  have q: "pool_inv q" "\<not> pool_running q" "i < length (workers q)"
    using pool_stop_inv [OF assms(1)] assms(2) by (simp_all add: q_def pool_stop_def)
  note s1 = stopped_step [OF q]
  have l1: "i < length (workers (worker_step i q))" using s1 q(3) by simp
  from s1 have "pool_inv (worker_step i q)" "\<not> pool_running (worker_step i q)" by auto
  note s2 = stopped_step [OF this l1]
  have l2: "i < length (workers (worker_step i (worker_step i q)))" using s2 l1 by simp
  from s2 have "pool_inv (worker_step i (worker_step i q))" "\<not> pool_running (worker_step i (worker_step i q))" by auto
  note s3 = stopped_step [OF this l2]
  have "rank (workers (worker_step i (worker_step i (worker_step i q))) ! i) = 0"
    using s1 s2 s3 rank_3 [of "workers q ! i"] by linarith
  then show ?thesis by (simp add: rank_0 q_def numeral_3_eq_3)
qed

text \<open>
  A pool cannot be started again: \<open>stop\<close> leaves the null pointers of its threads in
  \<open>threads_\<close>, and the next \<open>start\<close> calls \<open>start\<close> through the first of them.
\<close>
theorem pool_restart_crashes:
  assumes "pool_start (pool_new n name) = Some p" "0 < n" "thread_names q = thread_names p" "pool_join q = Some r"
  shows "pool_start r = None"
proof -
  have "thread_names p \<noteq> []"
    using assms(1,2) by (auto simp: pool_start_def pool_new_def bind_Some_iff Let_def)
  moreover have "thread_names r = map (\<lambda>_. None) (thread_names p)"
    using assms(3,4) by (auto simp: pool_join_def bind_Some_iff split: if_splits)
  ultimately have "None \<in> set (thread_names r)" by (cases "thread_names p") auto
  then show ?thesis by (simp add: pool_start_def abort_simps Let_def)
qed

definition one_worker :: "nat pool" where
  "one_worker = (pool_new 1 ''p'')\<lparr>pool_running := True, thread_names := [Some (worker_name ''p'' 0)],
     workers := [AtTest]\<rparr>"

lemma one_worker_start: "pool_start (pool_new 1 ''p'') = Some one_worker"
  by (simp add: one_worker_def pool_start_def pool_new_def abort_simps Let_def)

theorem pool_runs_each_task_once_witness:
  "taken (pool_run 5 one_worker) @ tasks (pool_run 5 one_worker) = [5]"
  using pool_runs_each_task_once [OF one_worker_start _ pool_trace.t_submit [OF pool_trace.t_start, of _ 5]]
  by simp

theorem pool_no_lost_wakeup_witness:
  "\<exists>i < length (workers (pool_run 5 one_worker)). i \<notin> set (blocked (pcond (pool_run 5 one_worker)))"
proof -
  have "tasks (pool_run 5 one_worker) \<noteq> []" by (simp add: pool_run_def one_worker_def)
  with pool_no_lost_wakeup [OF one_worker_start _ r_into_rtranclp [of pool_step],
      OF _ pool_step.submit [of one_worker 5]]
  show ?thesis by simp
qed

theorem pool_stop_ends_workers_witness:
  "workers ((worker_step 0 ^^ 3) (pool_stop one_worker)) ! 0 = WorkerEnded"
  by (rule pool_stop_ends_workers [OF pool_start_inv [OF one_worker_start]]) (simp_all add: one_worker_def)

theorem pool_restart_crashes_witness:
  "pool_start (one_worker\<lparr>pool_running := False, workers := [WorkerEnded], thread_names := [None]\<rparr>) = None"
  by (rule pool_restart_crashes [OF one_worker_start, of "one_worker\<lparr>pool_running := False, workers := [WorkerEnded]\<rparr>"])
    (simp_all add: one_worker_def pool_join_def abort_simps)

end
