(* ===== verification/Logging.thy ===== *)
theory Logging
  imports LogStream AsyncLogging Sync
begin

text \<open>
  \<open>matelib/base/Logging.h\<close> and \<open>.cc\<close>: one log statement, from the level test of the macros to the
  destructor of the temporary \<open>Logger\<close>, which sends the line to the asynchronous log or to the
  synchronous output.
\<close>

section \<open>Levels and outputs\<close>

(* src/matelib/base/Logging.h:19-25 Logger::LogLevel *)
datatype log_level = DEBUG | INFO | WARN | ERROR | NONLOG

fun level_num :: "log_level \<Rightarrow> nat" where
  "level_num DEBUG = 0" | "level_num INFO = 1" | "level_num WARN = 2"
| "level_num ERROR = 3" | "level_num NONLOG = 4"

instantiation log_level :: linorder
begin

definition less_eq_log_level :: "log_level \<Rightarrow> log_level \<Rightarrow> bool" where
  "less_eq_log_level a b = (level_num a \<le> level_num b)"

definition less_log_level :: "log_level \<Rightarrow> log_level \<Rightarrow> bool" where
  "less_log_level a b = (level_num a < level_num b)"

instance
proof
  fix a b c :: log_level
  show "(a < b) = (a \<le> b \<and> \<not> b \<le> a)" by (auto simp: less_log_level_def less_eq_log_level_def)
  show "a \<le> a" by (simp add: less_eq_log_level_def)
  show "a \<le> b \<Longrightarrow> b \<le> c \<Longrightarrow> a \<le> c" by (simp add: less_eq_log_level_def)
  show "a \<le> b \<Longrightarrow> b \<le> a \<Longrightarrow> a = b" by (cases a; cases b; simp add: less_eq_log_level_def)
  show "a \<le> b \<or> b \<le> a" by (auto simp: less_eq_log_level_def)
qed

end

text \<open>The array has four names; \<open>LogLevelName[NONLOG]\<close> would be out of range.\<close>

(* src/matelib/base/Logging.cc:27-33 detail::LogLevelName *)
fun LogLevelName :: "log_level \<Rightarrow> string option" where
  "LogLevelName DEBUG = Some ''DEBUG  ''"
| "LogLevelName INFO = Some '' INFO  ''"
| "LogLevelName WARN = Some '' WARN  ''"
| "LogLevelName ERROR = Some ''ERROR  ''"
| "LogLevelName NONLOG = None"

text \<open>
  The process-wide state: level, output and flush functions (\<open>None\<close> a null flush), and what the
  outputs have received. \<open>g_output\<close> is the number of the installed function, 0 the default one.
\<close>

(* src/matelib/base/Logging.cc:24-25 detail::g_output *)
record log_globals =
  logLevel :: log_level
  g_output :: nat
  g_flush :: "nat option"
  outputs :: "(nat \<times> string) list"
  flushes :: "nat list"
  alog :: "async singleton"

(* src/matelib/base/Logging.cc:43-43 Logger::logLevel_ *)
definition log_globals_new :: log_globals where
  "log_globals_new = \<lparr>logLevel = INFO, g_output = 0, g_flush = Some 0, outputs = [], flushes = [],
     alog = singleton_new\<rparr>"

(* src/matelib/base/Logging.h:35-37 Logger::setLogLevel *)
definition setLogLevel :: "log_level \<Rightarrow> log_globals \<Rightarrow> log_globals" where
  "setLogLevel l g = g\<lparr>logLevel := l\<rparr>"

(* src/matelib/base/Logging.cc:122-125 Logger::setOutput *)
definition setOutput :: "nat \<Rightarrow> log_globals \<Rightarrow> log_globals" where
  "setOutput f g = g\<lparr>g_output := f, g_flush := None\<rparr>"

(* src/matelib/base/Logging.cc:127-127 Logger::setFlush *)
definition setFlush :: "nat option \<Rightarrow> log_globals \<Rightarrow> log_globals" where
  "setFlush f g = g\<lparr>g_flush := f\<rparr>"

section \<open>Logger\<close>

text \<open>The thread's cache of the formatted second.\<close>

(* src/matelib/base/Logging.cc:37-38 lfp::t_time *)
record time_cache =
  t_time :: string
  t_lastCache :: int

definition time_cache_new :: time_cache where
  "time_cache_new = \<lparr>t_time = [], t_lastCache = 0\<rparr>"

(* src/matelib/base/Logging.h:53-55 Logger::Impl *)
record impl =
  stream :: log_stream
  line :: "32 word"
  impl_basename :: string

text \<open>\<open>gettimeofday\<close> and \<open>strftime\<close> of \<open>localtime\<close> are inputs. A text of 32 bytes or more does not fit
  \<open>t_time\<close>; its contents are then undefined.\<close>

(* src/matelib/base/Logging.cc:96-114 Logger::Impl::formatTime *)
definition formatTime ::
  "(int \<Rightarrow> string) \<Rightarrow> int \<times> int \<Rightarrow> time_cache \<Rightarrow> impl \<Rightarrow> (time_cache \<times> impl) option" where
  "formatTime strf tv c i =
     (let sec = fst tv; usec = to_int32 (snd tv) in do {
        c1 \<leftarrow> (if t_lastCache c \<noteq> sec then do {
                 assertc (length (strf sec) < 32);
                 Some (c\<lparr>t_lastCache := sec, t_time := strf sec\<rparr>)
               } else Some c);
        s1 \<leftarrow> put_cstr (stream i) (Some (t_time c1 @ [CHR 0x00]));
        s2 \<leftarrow> put_cstr s1 (Some (take 15 (''.'' @ zero_pad_int 6 usec @ '' '') @ [CHR 0x00]));
        Some (c1, i\<lparr>stream := s2\<rparr>)
      })"

text \<open>\<open>strrchr(file, '/')\<close>: what follows the last slash, or the whole name.\<close>

definition base_name :: "string \<Rightarrow> string" where
  "base_name file = rev (takeWhile (\<lambda>c. c \<noteq> CHR ''/'') (rev file))"

(* src/matelib/base/Logging.cc:77-94 Logger::Impl::Impl *)
definition impl_new ::
  "(int \<Rightarrow> string) \<Rightarrow> int \<times> int \<Rightarrow> int \<Rightarrow> time_cache \<times> thread_vars \<Rightarrow> string \<Rightarrow> 32 word \<Rightarrow> log_level \<Rightarrow>
    ((time_cache \<times> thread_vars) \<times> impl) option" where
  "impl_new strf tv gettid tls file lno level = do {
     let i0 = \<lparr>stream = log_stream_new, line = lno, impl_basename = base_name file\<rparr>;
     (c1, i1) \<leftarrow> formatTime strf tv (fst tls) i0;
     (v1, tid) \<leftarrow> tidString gettid (snd tls);
     s2 \<leftarrow> put_cstr (stream i1) (Some (tid @ [CHR 0x00]));
     name \<leftarrow> LogLevelName level;
     s3 \<leftarrow> put_cstr s2 (Some (name @ [CHR 0x00]));
     Some ((c1, v1), i1\<lparr>stream := s3\<rparr>)
   }"

(* src/matelib/base/Logging.cc:117-119 Logger::Impl::finish *)
definition impl_finish :: "impl \<Rightarrow> impl option" where
  "impl_finish i = do {
     s1 \<leftarrow> put_cstr (stream i) (Some ('' - '' @ [CHR 0x00]));
     s2 \<leftarrow> put_string s1 (impl_basename i);
     s3 \<leftarrow> put_char s2 (CHR '':'');
     s4 \<leftarrow> put_int s3 (line i);
     s5 \<leftarrow> put_char s4 (CHR 0x0A);
     Some (i\<lparr>stream := s5\<rparr>)
   }"

text \<open>The destructor: \<open>fresh\<close> is the asynchronous log the singleton constructs when it is first used.\<close>

(* src/matelib/base/Logging.cc:59-75 Logger::~Logger *)
definition logger_delete :: "async \<Rightarrow> bool \<Rightarrow> impl \<Rightarrow> log_globals \<Rightarrow> log_globals option" where
  "logger_delete fresh isAsync i g = do {
     i1 \<leftarrow> impl_finish i;
     let msg = take (nat (fb_length (stream i1))) (written (stream i1));
     if isAsync then do {
       (sing, a) \<leftarrow> singleton_instance fresh (alog g);
       a1 \<leftarrow> async_append a msg;
       Some (g\<lparr>alog := sing\<lparr>s_value := Alive a1\<rparr>\<rparr>)
     } else
       let g1 = g\<lparr>outputs := outputs g @ [(g_output g, msg)]\<rparr>
       in Some (case g_flush g1 of None \<Rightarrow> g1 | Some f \<Rightarrow> g1\<lparr>flushes := flushes g1 @ [f]\<rparr>)
   }"

text \<open>The per-call inputs of a statement.\<close>

record log_env =
  env_strf :: "int \<Rightarrow> string"
  env_tv :: "int \<times> int"
  env_gettid :: int
  env_fresh :: async

text \<open>A statement \<open>LOG_INFO << x << y\<close> or \<open>STDLOG_INFO << x << y\<close>, with its file and line.\<close>

(* src/matelib/base/Logging.h:68-76 LOG_INFO *)
definition log_statement ::
  "log_env \<Rightarrow> string \<Rightarrow> 32 word \<Rightarrow> log_level \<Rightarrow> bool \<Rightarrow> item list \<Rightarrow> (time_cache \<times> thread_vars) \<times> log_globals
    \<Rightarrow> ((time_cache \<times> thread_vars) \<times> log_globals) option" where
  "log_statement e file lno level isAsync xs st =
     (case st of (tls, g) \<Rightarrow>
       if logLevel g \<le> level then do {
         (tl1, i) \<leftarrow> impl_new (env_strf e) (env_tv e) (env_gettid e) tls file lno level;
         s \<leftarrow> puts (stream i) xs;
         g1 \<leftarrow> logger_delete (env_fresh e) isAsync (i\<lparr>stream := s\<rparr>) g;
         Some (tl1, g1)
       } else Some (tls, g))"

(* src/matelib/base/Logging.h:80-80 SET_ASYNCLOG_BASENAME *)
definition set_asynclog_basename :: "async \<Rightarrow> string \<Rightarrow> log_globals \<Rightarrow> log_globals option" where
  "set_asynclog_basename fresh n g = do {
     (sing, a) \<leftarrow> singleton_instance fresh (alog g);
     Some (g\<lparr>alog := sing\<lparr>s_value := Alive (setBaseName a n)\<rparr>\<rparr>)
   }"

(* src/matelib/base/Logging.h:81-81 SET_ASYNCLOG_ROLLSIZE *)
definition set_asynclog_rollsize :: "async \<Rightarrow> nat \<Rightarrow> log_globals \<Rightarrow> log_globals option" where
  "set_asynclog_rollsize fresh n g = do {
     (sing, a) \<leftarrow> singleton_instance fresh (alog g);
     Some (g\<lparr>alog := sing\<lparr>s_value := Alive (setRollSize a n)\<rparr>\<rparr>)
   }"

(* src/matelib/base/Logging.h:82-82 ASYNCLOG_STOP *)
definition asynclog_stop :: "async \<Rightarrow> log_globals \<Rightarrow> log_globals option" where
  "asynclog_stop fresh g = do {
     (sing, a) \<leftarrow> singleton_instance fresh (alog g);
     Some (g\<lparr>alog := sing\<lparr>s_value := Alive (async_stop a)\<rparr>\<rparr>)
   }"

section \<open>The text of a line\<close>

lemma puts_append: "puts s (xs @ ys) = puts s xs \<bind> (\<lambda>t. puts t ys)"
  by (induction xs arbitrary: s) (simp_all add: bind_assoc)

definition cstr_item :: "string \<Rightarrow> item" where
  "cstr_item t = ICStr (Some (t @ [CHR 0x00]))"

lemma c_string_term: "CHR 0x00 \<notin> set t \<Longrightarrow> c_string (t @ [CHR 0x00]) = t"
  by (induction t) (auto simp: c_string_def)

lemma cstr_item_text: "CHR 0x00 \<notin> set t \<Longrightarrow> item_text (cstr_item t) = t"
  by (simp add: cstr_item_def c_string_term)

definition cache_ok :: "(int \<Rightarrow> string) \<Rightarrow> time_cache \<Rightarrow> bool" where
  "cache_ok strf c \<longleftrightarrow> (t_lastCache c \<noteq> 0 \<longrightarrow> t_time c = strf (t_lastCache c))"

definition tid_ok :: "int \<Rightarrow> thread_vars \<Rightarrow> bool" where
  "tid_ok gettid v \<longleftrightarrow> t_cachedTid v = 0 \<or>
     t_cachedTid v = gettid \<and> t_tidString v = blank_pad 5 (show_int gettid) @ '' ''"

lemma formatTime_ok:
  assumes "cache_ok strf c" "fst tv \<noteq> 0" "length (strf (fst tv)) < 32" "0 \<le> snd tv" "snd tv < 1000000"
  shows "formatTime strf tv c i = do {
      s \<leftarrow> puts (stream i) [cstr_item (strf (fst tv)), cstr_item (''.'' @ zero_pad 6 (nat (snd tv)) @ '' '')];
      Some (\<lparr>t_time = strf (fst tv), t_lastCache = fst tv\<rparr>, i\<lparr>stream := s\<rparr>) }"
proof -
  have l: "length (''.'' @ zero_pad 6 (nat (snd tv)) @ '' '') = 8" using assms(4,5) by simp
  then have u: "take 15 (''.'' @ zero_pad_int 6 (to_int32 (snd tv)) @ '' '')
      = ''.'' @ zero_pad 6 (nat (snd tv)) @ '' ''"
    using assms(4,5) by (simp add: zero_pad_int_def)
  have c: "(if t_lastCache c \<noteq> fst tv then do { assertc (length (strf (fst tv)) < 32);
        Some (c\<lparr>t_lastCache := fst tv, t_time := strf (fst tv)\<rparr>) } else Some c)
      = Some \<lparr>t_time = strf (fst tv), t_lastCache = fst tv\<rparr>"
    using assms(1-3) by (cases c) (auto simp: abort_simps cache_ok_def)
  show ?thesis unfolding formatTime_def Let_def c u by (simp add: cstr_item_def bind_assoc)
qed

lemma tidString_ok:
  assumes "tid_ok gettid v" "0 < gettid" "gettid < 100000"
  shows "\<exists>v'. tidString gettid v = Some (v', blank_pad 5 (show_int gettid) @ '' '') \<and> tid_ok gettid v'"
proof (cases "t_cachedTid v = 0")
  case True
  have "length (blank_pad 5 (show_int gettid) @ '' '') = 6"
    using show_int_length_6 assms(2,3) by blast
  with True assms show ?thesis
    by (simp add: tidString_def cachedId_def abort_simps Let_def tid_ok_def)
next
  case False
  with assms show ?thesis by (auto simp: tidString_def tid_ok_def)
qed

text \<open>A statement's line as one list of insertions.\<close>

definition line_items ::
  "(int \<Rightarrow> string) \<Rightarrow> int \<times> int \<Rightarrow> int \<Rightarrow> string \<Rightarrow> string \<Rightarrow> 32 word \<Rightarrow> item list \<Rightarrow> item list" where
  "line_items strf tv gettid nm file lno xs =
     [cstr_item (strf (fst tv)), cstr_item (''.'' @ zero_pad 6 (nat (snd tv)) @ '' ''),
      cstr_item (blank_pad 5 (show_int gettid) @ '' ''), cstr_item nm] @ xs @
     [cstr_item '' - '', IStr (base_name file), IChar (CHR '':''), IInt lno, IChar (CHR 0x0A)]"

definition line_text ::
  "(int \<Rightarrow> string) \<Rightarrow> int \<times> int \<Rightarrow> int \<Rightarrow> string \<Rightarrow> string \<Rightarrow> 32 word \<Rightarrow> item list \<Rightarrow> string" where
  "line_text strf tv gettid nm file lno xs =
     strf (fst tv) @ ''.'' @ zero_pad 6 (nat (snd tv)) @ '' '' @ blank_pad 5 (show_int gettid) @ '' '' @
     nm @ concat (map item_text xs) @ '' - '' @ base_name file @ '':'' @ show_int (sint lno) @ [CHR 0x0A]"

lemma impl_new_ok:
  assumes "cache_ok strf c" "tid_ok gettid v" "LogLevelName level = Some nm"
    "fst tv \<noteq> 0" "length (strf (fst tv)) < 32" "0 \<le> snd tv" "snd tv < 1000000" "0 < gettid" "gettid < 100000"
  shows "\<exists>v'. tid_ok gettid v' \<and> impl_new strf tv gettid (c, v) file lno level = do {
      s \<leftarrow> puts log_stream_new [cstr_item (strf (fst tv)), cstr_item (''.'' @ zero_pad 6 (nat (snd tv)) @ '' ''),
        cstr_item (blank_pad 5 (show_int gettid) @ '' ''), cstr_item nm];
      Some ((\<lparr>t_time = strf (fst tv), t_lastCache = fst tv\<rparr>, v'),
        \<lparr>stream = s, line = lno, impl_basename = base_name file\<rparr>) }"
proof -
  from tidString_ok [OF assms(2,8,9)] obtain v' where v':
    "tidString gettid v = Some (v', blank_pad 5 (show_int gettid) @ '' '')" "tid_ok gettid v'" by blast
  show ?thesis
    using v' assms(3) formatTime_ok [of strf c tv, OF assms(1,4,5,6,7)]
    by (intro exI [of _ v']) (simp add: impl_new_def bind_assoc cstr_item_def)
qed

lemma impl_finish_eq:
  "impl_finish i = do {
     s \<leftarrow> puts (stream i) [cstr_item '' - '', IStr (impl_basename i), IChar (CHR '':''), IInt (line i), IChar (CHR 0x0A)];
     Some (i\<lparr>stream := s\<rparr>) }"
  by (simp add: impl_finish_def cstr_item_def bind_assoc)

lemma show_nat_no_NUL: "CHR 0x00 \<notin> set (show_nat n)"
  using show_nat_digits [of "CHR 0x00" n] by (auto simp: is_digit_def)

lemma level_name: "LogLevelName level = Some nm \<Longrightarrow> CHR 0x00 \<notin> set nm \<and> length nm = 7"
  by (cases level) auto

lemma blank_pad_set: "set (blank_pad w t) \<subseteq> insert (CHR '' '') (set t)"
  by (auto simp: blank_pad_def)

lemma tid_text_no_NUL: "CHR 0x00 \<notin> set (blank_pad 5 (show_int gettid) @ '' '')"
  using blank_pad_set [of 5 "show_int gettid"] show_nat_no_NUL by (auto simp: show_int_def)

lemma usec_text_no_NUL: "CHR 0x00 \<notin> set (''.'' @ zero_pad 6 n @ '' '')"
  using show_nat_no_NUL by (auto simp: zero_pad_def)

lemma line_items_text:
  assumes "CHR 0x00 \<notin> set (strf (fst tv))" "CHR 0x00 \<notin> set nm"
  shows "concat (map item_text (line_items strf tv gettid nm file lno xs)) = line_text strf tv gettid nm file lno xs"
  using assms tid_text_no_NUL [of gettid] usec_text_no_NUL [of "nat (snd tv)"]
  by (simp add: line_items_def line_text_def cstr_item_text del: set_append)

lemma cstr_item_need: "CHR 0x00 \<notin> set t \<Longrightarrow> item_need (cstr_item t) = length t + 1"
  by (simp add: cstr_item_def c_string_term)

lemma cstr_item_ok: "CHR 0x00 \<notin> set t \<Longrightarrow> length t < 2 ^ 31 \<Longrightarrow> item_ok (cstr_item t)"
  by (simp add: item_ok_def cstr_item_text)

text \<open>What stands between the thread number and the operands.\<close>

definition tag_ok :: "string \<Rightarrow> bool" where
  "tag_ok nm \<longleftrightarrow> CHR 0x00 \<notin> set nm \<and> length nm \<le> 7"

lemma tag_level: "LogLevelName level = Some nm \<Longrightarrow> tag_ok nm"
  using level_name by (simp add: tag_ok_def)

lemma line_items_need:
  assumes "CHR 0x00 \<notin> set (strf (fst tv))" "length (strf (fst tv)) < 32" "0 \<le> snd tv" "snd tv < 1000000"
    "tag_ok nm" "0 < gettid" "gettid < 100000"
  shows "total_need (line_items strf tv gettid nm file lno xs) \<le> total_need xs + length (base_name file) + 97"
proof -
  have u: "length (''.'' @ zero_pad 6 (nat (snd tv)) @ '' '') = 8" using assms(3,4) by simp
  have t: "length (blank_pad 5 (show_int gettid) @ '' '') = 6" using show_int_length_6 assms(6,7) by blast
  show ?thesis
    using assms(1,2,5) u t tid_text_no_NUL [of gettid] usec_text_no_NUL [of "nat (snd tv)"]
    by (simp add: line_items_def total_need_def cstr_item_need tag_ok_def del: set_append length_append)
qed

text \<open>The conditions under which a statement's whole line fits.\<close>

definition env_ok :: "log_env \<Rightarrow> bool" where
  "env_ok e \<longleftrightarrow> fst (env_tv e) \<noteq> 0 \<and> 0 \<le> snd (env_tv e) \<and> snd (env_tv e) < 1000000
     \<and> length (env_strf e (fst (env_tv e))) < 32 \<and> CHR 0x00 \<notin> set (env_strf e (fst (env_tv e)))
     \<and> 0 < env_gettid e \<and> env_gettid e < 100000"

definition thread_ok :: "log_env \<Rightarrow> time_cache \<times> thread_vars \<Rightarrow> bool" where
  "thread_ok e tls \<longleftrightarrow> cache_ok (env_strf e) (fst tls) \<and> tid_ok (env_gettid e) (snd tls)"

definition line_fits :: "string \<Rightarrow> item list \<Rightarrow> bool" where
  "line_fits file xs \<longleftrightarrow> list_all item_ok xs \<and> total_need xs + length (base_name file) + 97 \<le> kSmallBuffer"

definition the_line :: "log_env \<Rightarrow> string \<Rightarrow> 32 word \<Rightarrow> string \<Rightarrow> item list \<Rightarrow> string" where
  "the_line e file lno nm xs = line_text (env_strf e) (env_tv e) (env_gettid e) nm file lno xs"

lemma line_items_ok:
  assumes "env_ok e" "tag_ok nm" "line_fits file xs"
  shows "list_all item_ok (line_items (env_strf e) (env_tv e) (env_gettid e) nm file lno xs)"
proof -
  have u: "length (''.'' @ zero_pad 6 (nat (snd (env_tv e))) @ '' '') = 8"
    using assms(1) by (auto simp: env_ok_def)
  have t: "length (blank_pad 5 (show_int (env_gettid e)) @ '' '') = 6"
    using show_int_length_6 assms(1) unfolding env_ok_def by blast
  have n: "length (show_int (sint lno)) < 2 ^ 31"
    using length_convertInt [of "sint lno"] sint32_bound [of lno] by (simp add: convertInt_eq)
  have b: "length (base_name file) < 2 ^ 31" using assms(3) by (simp add: line_fits_def kSmallBuffer_def)
  have c: "item_ok (cstr_item (env_strf e (fst (env_tv e))))" "item_ok (cstr_item nm)" "item_ok (cstr_item '' - '')"
    using assms(1,2) by (auto intro!: cstr_item_ok simp: env_ok_def tag_ok_def)
  have c2: "item_ok (cstr_item (''.'' @ zero_pad 6 (nat (snd (env_tv e))) @ '' ''))"
    by (rule cstr_item_ok [OF usec_text_no_NUL]) (simp only: u, simp)
  have c3: "item_ok (cstr_item (blank_pad 5 (show_int (env_gettid e)) @ '' ''))"
    by (rule cstr_item_ok [OF tid_text_no_NUL]) (simp only: t, simp)
  note c = c c2 c3
  with n b assms(3) show ?thesis by (simp add: line_items_def line_fits_def item_ok_def)
qed

lemma puts_line:
  assumes "env_ok e" "tag_ok nm" "line_fits file xs"
  shows "puts log_stream_new (line_items (env_strf e) (env_tv e) (env_gettid e) nm file lno xs)
    = Some (log_stream_new\<lparr>written := the_line e file lno nm xs\<rparr>)"
    and "length (the_line e file lno nm xs) < kSmallBuffer"
proof -
  let ?xs = "line_items (env_strf e) (env_tv e) (env_gettid e) nm file lno xs"
  have ok: "fb_ok log_stream_new"
    by (simp add: log_stream_new_def fb_ok_def fb_new_def kSmallBuffer_def)
  have t: "concat (map item_text ?xs) = the_line e file lno nm xs"
    using line_items_text assms(1,2) by (simp add: the_line_def env_ok_def tag_ok_def)
  have "total_need ?xs \<le> total_need xs + length (base_name file) + 97"
    using assms(1) by (intro line_items_need [OF _ _ _ _ assms(2)]) (simp_all add: env_ok_def)
  with assms(3) have n: "length (written log_stream_new) + total_need ?xs \<le> bufSize log_stream_new"
    by (simp add: line_fits_def log_stream_new_def fb_new_def)
  from puts_all [OF ok line_items_ok [OF assms] n] t
  show "puts log_stream_new ?xs = Some (log_stream_new\<lparr>written := the_line e file lno nm xs\<rparr>)"
    by (simp add: log_stream_new_def fb_new_def)
  with puts_subseq [OF ok line_items_ok [OF assms, of lno]]
  show "length (the_line e file lno nm xs) < kSmallBuffer"
    by (auto simp: fb_ok_def log_stream_new_def fb_new_def)
qed

lemma log_statement_line:
  assumes "env_ok e" "thread_ok e tls" "LogLevelName level = Some nm" "line_fits file xs" "logLevel g \<le> level"
  shows "\<exists>tls' i. thread_ok e tls' \<and> log_statement e file lno level isAsync xs (tls, g) =
      (logger_delete (env_fresh e) isAsync i g \<bind> (\<lambda>g1. Some (tls', g1)))
    \<and> impl_finish i = Some (i\<lparr>stream := log_stream_new\<lparr>written := the_line e file lno nm xs\<rparr>\<rparr>)"
proof -
  obtain c v where tls: "tls = (c, v)" by (cases tls)
  let ?pre = "[cstr_item (env_strf e (fst (env_tv e))), cstr_item (''.'' @ zero_pad 6 (nat (snd (env_tv e))) @ '' ''),
        cstr_item (blank_pad 5 (show_int (env_gettid e)) @ '' ''), cstr_item nm]"
  let ?post = "[cstr_item '' - '', IStr (base_name file), IChar (CHR '':''), IInt lno, IChar (CHR 0x0A)]"
  have e: "fst (env_tv e) \<noteq> 0" "length (env_strf e (fst (env_tv e))) < 32" "0 \<le> snd (env_tv e)"
    "snd (env_tv e) < 1000000" "0 < env_gettid e" "env_gettid e < 100000"
    using assms(1) by (simp_all add: env_ok_def)
  have tok: "cache_ok (env_strf e) c" "tid_ok (env_gettid e) v" using assms(2) tls by (simp_all add: thread_ok_def)
  from impl_new_ok [OF tok assms(3) e] obtain v' where v': "tid_ok (env_gettid e) v'"
    "impl_new (env_strf e) (env_tv e) (env_gettid e) (c, v) file lno level = do {
      s \<leftarrow> puts log_stream_new ?pre;
      Some ((\<lparr>t_time = env_strf e (fst (env_tv e)), t_lastCache = fst (env_tv e)\<rparr>, v'),
        \<lparr>stream = s, line = lno, impl_basename = base_name file\<rparr>) }" by blast
  have "puts log_stream_new (?pre @ xs @ ?post) = Some (log_stream_new\<lparr>written := the_line e file lno nm xs\<rparr>)"
    using puts_line(1) [OF assms(1) tag_level [OF assms(3)] assms(4)] by (simp only: line_items_def)
  then obtain s1 s2 where s: "puts log_stream_new ?pre = Some s1" "puts s1 xs = Some s2"
    "puts s2 ?post = Some (log_stream_new\<lparr>written := the_line e file lno nm xs\<rparr>)"
    unfolding puts_append bind_Some_iff by blast
  let ?tls' = "(\<lparr>t_time = env_strf e (fst (env_tv e)), t_lastCache = fst (env_tv e)\<rparr>, v')"
  let ?i = "\<lparr>stream = s2, line = lno, impl_basename = base_name file\<rparr>"
  have "thread_ok e ?tls'" using v'(1) by (simp add: thread_ok_def cache_ok_def)
  moreover have "log_statement e file lno level isAsync xs (tls, g) =
      (logger_delete (env_fresh e) isAsync ?i g \<bind> (\<lambda>g1. Some (?tls', g1)))"
    unfolding log_statement_def tls prod.case v'(2) s(1) using assms(5) s(2) by simp
  moreover have "impl_finish ?i = Some (?i\<lparr>stream := log_stream_new\<lparr>written := the_line e file lno nm xs\<rparr>\<rparr>)"
    unfolding impl_finish_eq using s(3) by simp
  ultimately show ?thesis by blast
qed

lemma small_line_whole:
  "length t < kSmallBuffer \<Longrightarrow>
    take (nat (fb_length (log_stream_new\<lparr>written := t\<rparr>))) (written (log_stream_new\<lparr>written := t\<rparr>)) = t"
  by (simp add: fb_length_def kSmallBuffer_def)

section \<open>Properties\<close>

text \<open>
  A statement below the current level does nothing at all: no output, no state change, no
  formatting of its operands.
\<close>
theorem log_level_filter:
  assumes "level < logLevel g"
  shows "log_statement e file lno level isAsync xs (tls, g) = Some (tls, g)"
  using assms by (simp add: log_statement_def not_less [symmetric])

text \<open>
  A synchronous statement whose line fits the buffer sends exactly one line to the output
  function: time of the second, microseconds in six digits, thread number, level, the operands in
  order, file name without its path and line number; then it flushes if a flush function is set.
  The cached second and thread number never change the text.
\<close>
theorem stdlog_writes_line:
  assumes "env_ok e" "thread_ok e tls" "LogLevelName level = Some nm" "line_fits file xs" "logLevel g \<le> level"
  shows "\<exists>tls'. thread_ok e tls' \<and> log_statement e file lno level False xs (tls, g) = Some (tls',
    g\<lparr>outputs := outputs g @ [(g_output g, the_line e file lno nm xs)],
      flushes := flushes g @ (case g_flush g of None \<Rightarrow> [] | Some f \<Rightarrow> [f])\<rparr>)"
proof -
  from log_statement_line [OF assms, of lno False] obtain tls' i where s: "thread_ok e tls'"
    "log_statement e file lno level False xs (tls, g) =
      (logger_delete (env_fresh e) False i g \<bind> (\<lambda>g1. Some (tls', g1)))"
    "impl_finish i = Some (i\<lparr>stream := log_stream_new\<lparr>written := the_line e file lno nm xs\<rparr>\<rparr>)" by blast
  have "logger_delete (env_fresh e) False i g = Some (
    g\<lparr>outputs := outputs g @ [(g_output g, the_line e file lno nm xs)],
      flushes := flushes g @ (case g_flush g of None \<Rightarrow> [] | Some f \<Rightarrow> [f])\<rparr>)"
    using s(3) small_line_whole [OF puts_line(2) [OF assms(1) tag_level [OF assms(3)] assms(4)]]
    by (cases "g_flush g") (simp_all add: logger_delete_def Let_def)
  with s(1,2) show ?thesis by (intro exI [of _ tls']) simp
qed

text \<open>
  An asynchronous statement hands its whole line to the asynchronous log: the text on the
  front end's side grows by exactly that line, and the synchronous output is untouched.
\<close>
theorem log_reaches_async:
  assumes "env_ok e" "thread_ok e tls" "LogLevelName level = Some nm" "line_fits file xs" "logLevel g \<le> level"
    "ponce (alog g)" "s_value (alog g) = Alive a" "front_inv a"
  shows "\<exists>tls' g' a'. log_statement e file lno level True xs (tls, g) = Some (tls', g')
    \<and> s_value (alog g') = Alive a' \<and> front_inv a'
    \<and> front_text a' = front_text a @ the_line e file lno nm xs \<and> outputs g' = outputs g"
proof -
  from log_statement_line [OF assms(1-5), of lno True] obtain tls' i where s:
    "log_statement e file lno level True xs (tls, g) =
      (logger_delete (env_fresh e) True i g \<bind> (\<lambda>g1. Some (tls', g1)))"
    "impl_finish i = Some (i\<lparr>stream := log_stream_new\<lparr>written := the_line e file lno nm xs\<rparr>\<rparr>)" by blast
  have l: "length (the_line e file lno nm xs) < kSmallBuffer" by (rule puts_line(2) [OF assms(1) tag_level [OF assms(3)] assms(4)])
  then have l2: "length (the_line e file lno nm xs) < 2 ^ 31" "length (the_line e file lno nm xs) < kLargeBuffer"
    by (simp_all add: kSmallBuffer_def kLargeBuffer_def)
  from async_append_ok [OF assms(8) l2(1)] l2(2) obtain a' where a':
    "async_append a (the_line e file lno nm xs) = Some a'" "front_inv a'"
    "front_text a' = front_text a @ the_line e file lno nm xs" by auto
  have "logger_delete (env_fresh e) True i g = Some (g\<lparr>alog := (alog g)\<lparr>s_value := Alive a'\<rparr>\<rparr>)"
    using s(2) small_line_whole [OF l] a'(1) assms(6,7)
    by (simp add: logger_delete_def Let_def singleton_instance_def)
  with s(1) a' show ?thesis by auto
qed

definition sample_env :: log_env where
  "sample_env = \<lparr>env_strf = (\<lambda>_. ''2020.01.02-03:04:05''), env_tv = (5, 42), env_gettid = 77,
     env_fresh = async_new ''log'' 100\<rparr>"

lemma sample_env_ok: "env_ok sample_env"
  by (simp add: env_ok_def sample_env_def)

lemma sample_thread_ok: "thread_ok sample_env (time_cache_new, thread_vars_new)"
  by (simp add: thread_ok_def cache_ok_def tid_ok_def time_cache_new_def thread_vars_new_def)

lemma sample_fits: "line_fits ''src/a.cc'' [IStr ''hi'']"
  by (simp add: line_fits_def item_ok_def total_need_def base_name_def kSmallBuffer_def)

theorem log_level_filter_witness:
  "log_statement sample_env ''a.cc'' 3 DEBUG False [IStr ''x''] ((time_cache_new, thread_vars_new), log_globals_new)
    = Some ((time_cache_new, thread_vars_new), log_globals_new)"
  by (rule log_level_filter) (simp add: log_globals_new_def less_log_level_def)

theorem stdlog_writes_line_witness:
  "\<exists>tls'. thread_ok sample_env tls' \<and>
    log_statement sample_env ''src/a.cc'' 3 INFO False [IStr ''hi''] ((time_cache_new, thread_vars_new), log_globals_new)
    = Some (tls', log_globals_new\<lparr>outputs := outputs log_globals_new
        @ [(g_output log_globals_new, the_line sample_env ''src/a.cc'' 3 '' INFO  '' [IStr ''hi''])],
      flushes := flushes log_globals_new @ (case g_flush log_globals_new of None \<Rightarrow> [] | Some f \<Rightarrow> [f])\<rparr>)"
  by (rule stdlog_writes_line [OF sample_env_ok sample_thread_ok _ sample_fits])
    (simp_all add: log_globals_new_def)

theorem log_reaches_async_witness:
  "\<exists>tls' g' a'. log_statement sample_env ''src/a.cc'' 3 INFO True [IStr ''hi''] ((time_cache_new, thread_vars_new),
      log_globals_new\<lparr>alog := \<lparr>ponce = True, s_value = Alive (async_new ''log'' 100), at_exit = 1\<rparr>\<rparr>) = Some (tls', g')
    \<and> s_value (alog g') = Alive a' \<and> front_inv a'
    \<and> front_text a' = front_text (async_new ''log'' 100) @ the_line sample_env ''src/a.cc'' 3 '' INFO  '' [IStr ''hi'']
    \<and> outputs g' = outputs (log_globals_new\<lparr>alog := \<lparr>ponce = True, s_value = Alive (async_new ''log'' 100), at_exit = 1\<rparr>\<rparr>)"
  by (rule log_reaches_async [OF sample_env_ok sample_thread_ok _ sample_fits])
    (use arun_start_inv [of "''log''" 100] in \<open>simp_all add: log_globals_new_def arun_inv_def arun_start_def async_inv_def\<close>)

end
