(* ===== verification/Channel.thy ===== *)
theory Channel
  imports Prelude
begin

text \<open>
  \<open>matelib/Channel.h\<close> and \<open>.cc\<close>: one file descriptor of an event loop, the events it is watched
  for and its callbacks; and the state of the loop's poller the channel's operations reach.

  Channels live in a heap, since a callback may change or delete any of them; reading through a
  pointer to a deleted channel is \<open>None\<close>. A callback is a token that an interpreter, a parameter,
  gives its meaning as a function on the whole state, so the record of the state can be extended
  by the parts of the program that register callbacks. The debug log lines are not modelled.
\<close>

unbundle bit_operations_syntax

section \<open>Events\<close>

type_synonym events = "32 word"

text \<open>The bits of \<open>sys/epoll.h\<close>.\<close>

definition EPOLLIN :: events where "EPOLLIN = 1"
definition EPOLLPRI :: events where "EPOLLPRI = 2"
definition EPOLLOUT :: events where "EPOLLOUT = 4"
definition EPOLLERR :: events where "EPOLLERR = 8"
definition EPOLLHUP :: events where "EPOLLHUP = 16"
definition EPOLLRDHUP :: events where "EPOLLRDHUP = 8192"

lemmas epoll_bits = EPOLLIN_def EPOLLPRI_def EPOLLOUT_def EPOLLERR_def EPOLLHUP_def EPOLLRDHUP_def

(* src/matelib/Channel.cc:31-31 Channel::kNoneEvent *)
definition kNoneEvent :: events where "kNoneEvent = 0"

(* src/matelib/Channel.cc:32-32 Channel::kReadEvent *)
definition kReadEvent :: events where "kReadEvent = EPOLLIN OR EPOLLPRI"

(* src/matelib/Channel.cc:33-33 Channel::kWriteEvent *)
definition kWriteEvent :: events where "kWriteEvent = EPOLLOUT"

definition has :: "events \<Rightarrow> events \<Rightarrow> bool" where
  "has e m \<longleftrightarrow> e AND m \<noteq> 0"

section \<open>Channel\<close>

(* src/matelib/Channel.h:63-73 Channel *)
record 'c channel =
  ch_fd :: int
  ch_events :: events
  ch_revents :: events
  ch_state :: int
  eventHandling :: bool
  readCallback :: "'c option"
  writeCallback :: "'c option"
  closeCallback :: "'c option"
  errorCallback :: "'c option"

text \<open>
  The loop's state below the callbacks: the heap of channels, the poller's members, whether the
  running thread is the loop's, and the interest list the kernel keeps for \<open>epollfd_\<close>: per
  descriptor, the events and the channel pointer stored with them.
\<close>

(* src/matelib/EpollPoller.h:43-46 EpollPoller *)
record 'c reactor =
  chans :: "nat \<Rightarrow> 'c channel option"
  channels :: "int \<Rightarrow> nat option"
  evlist_size :: nat
  interest :: "int \<Rightarrow> (events \<times> nat) option"
  in_loop_thread :: bool

(* src/matelib/Channel.cc:35-42 Channel::Channel *)
definition channel_new :: "int \<Rightarrow> 'c channel" where
  "channel_new fd = \<lparr>ch_fd = fd, ch_events = 0, ch_revents = 0, ch_state = -1, eventHandling = False,
     readCallback = None, writeCallback = None, closeCallback = None, errorCallback = None\<rparr>"

definition upd_channel :: "nat \<Rightarrow> ('c channel \<Rightarrow> 'c channel) \<Rightarrow> ('c, 'm) reactor_scheme \<Rightarrow> ('c, 'm) reactor_scheme option" where
  "upd_channel c f w = (case chans w c of None \<Rightarrow> None | Some ch \<Rightarrow> Some (w\<lparr>chans := (chans w)(c := Some (f ch))\<rparr>))"

(* src/matelib/Channel.cc:44-47 Channel::~Channel *)
definition channel_delete :: "nat \<Rightarrow> ('c, 'm) reactor_scheme \<Rightarrow> ('c, 'm) reactor_scheme option" where
  "channel_delete c w = do {
     ch \<leftarrow> chans w c;
     assertc (\<not> eventHandling ch);
     Some (w\<lparr>chans := (chans w)(c := None)\<rparr>)
   }"

(* src/matelib/Channel.h:24-25 Channel::setReadCallback *)
definition setReadCallback :: "'c \<Rightarrow> 'c channel \<Rightarrow> 'c channel" where
  "setReadCallback cb ch = ch\<lparr>readCallback := Some cb\<rparr>"

(* src/matelib/Channel.h:26-27 Channel::setWriteCallback *)
definition setWriteCallback :: "'c \<Rightarrow> 'c channel \<Rightarrow> 'c channel" where
  "setWriteCallback cb ch = ch\<lparr>writeCallback := Some cb\<rparr>"

(* src/matelib/Channel.h:28-29 Channel::setCloseCallback *)
definition setCloseCallback :: "'c \<Rightarrow> 'c channel \<Rightarrow> 'c channel" where
  "setCloseCallback cb ch = ch\<lparr>closeCallback := Some cb\<rparr>"

(* src/matelib/Channel.h:30-31 Channel::setErrorCallback *)
definition setErrorCallback :: "'c \<Rightarrow> 'c channel \<Rightarrow> 'c channel" where
  "setErrorCallback cb ch = ch\<lparr>errorCallback := Some cb\<rparr>"

(* src/matelib/Channel.h:38-38 Channel::isWriting *)
definition isWriting :: "'c channel \<Rightarrow> bool" where
  "isWriting ch = has (ch_events ch) kWriteEvent"

(* src/matelib/Channel.h:44-44 Channel::isNoneEvent *)
definition isNoneEvent :: "'c channel \<Rightarrow> bool" where
  "isNoneEvent ch = (ch_events ch = kNoneEvent)"

(* src/matelib/Channel.h:43-43 Channel::setRevents *)
definition setRevents :: "events \<Rightarrow> 'c channel \<Rightarrow> 'c channel" where
  "setRevents r ch = ch\<lparr>ch_revents := r\<rparr>"

(* src/matelib/Channel.h:47-47 Channel::setState *)
definition setState :: "int \<Rightarrow> 'c channel \<Rightarrow> 'c channel" where
  "setState s ch = ch\<lparr>ch_state := s\<rparr>"

section \<open>Event dispatch\<close>

text \<open>One guarded callback of \<open>handleEvent\<close>: the test reads the channel as it is at that moment.\<close>

definition call_if ::
  "('c \<Rightarrow> ('c, 'm) reactor_scheme \<Rightarrow> ('c, 'm) reactor_scheme option) \<Rightarrow> nat \<Rightarrow> ('c channel \<Rightarrow> bool) \<Rightarrow>
    ('c channel \<Rightarrow> 'c option) \<Rightarrow> ('c, 'm) reactor_scheme \<Rightarrow> ('c, 'm) reactor_scheme option" where
  "call_if run c test cb w =
     (case chans w c of None \<Rightarrow> None
      | Some ch \<Rightarrow> if test ch then (case cb ch of None \<Rightarrow> Some w | Some k \<Rightarrow> run k w) else Some w)"

(* src/matelib/Channel.cc:54-58 Channel::handleEvent *)
definition wants_close :: "'c channel \<Rightarrow> bool" where
  "wants_close ch \<longleftrightarrow> has (ch_revents ch) EPOLLHUP \<and> \<not> has (ch_revents ch) EPOLLIN"

(* src/matelib/Channel.cc:59-65 Channel::handleEvent *)
definition wants_error :: "'c channel \<Rightarrow> bool" where
  "wants_error ch \<longleftrightarrow> has (ch_revents ch) EPOLLERR \<and> ch_fd ch > 0"

(* src/matelib/Channel.cc:66-69 Channel::handleEvent *)
definition wants_read :: "'c channel \<Rightarrow> bool" where
  "wants_read ch \<longleftrightarrow> has (ch_revents ch) (EPOLLIN OR EPOLLPRI OR EPOLLRDHUP)"

(* src/matelib/Channel.cc:70-73 Channel::handleEvent *)
definition wants_write :: "'c channel \<Rightarrow> bool" where
  "wants_write ch \<longleftrightarrow> has (ch_revents ch) EPOLLOUT"

(* src/matelib/Channel.cc:49-76 Channel::handleEvent *)
definition handleEvent ::
  "('c \<Rightarrow> ('c, 'm) reactor_scheme \<Rightarrow> ('c, 'm) reactor_scheme option) \<Rightarrow> nat \<Rightarrow>
    ('c, 'm) reactor_scheme \<Rightarrow> ('c, 'm) reactor_scheme option" where
  "handleEvent run c w = do {
     w0 \<leftarrow> upd_channel c (\<lambda>ch. ch\<lparr>eventHandling := True\<rparr>) w;
     w1 \<leftarrow> call_if run c wants_close closeCallback w0;
     w2 \<leftarrow> call_if run c wants_error errorCallback w1;
     w3 \<leftarrow> call_if run c wants_read readCallback w2;
     w4 \<leftarrow> call_if run c wants_write writeCallback w3;
     upd_channel c (\<lambda>ch. ch\<lparr>eventHandling := False\<rparr>) w4
   }"

section \<open>Debug strings\<close>

definition flag_name :: "events \<Rightarrow> events \<Rightarrow> string \<Rightarrow> string" where
  "flag_name e m n = (if has e m then n else [])"

(* src/matelib/Channel.cc:94-117 Channel::eventsToString *)
definition eventsToString :: "'c channel \<Rightarrow> string" where
  "eventsToString ch =
     (let e = ch_events ch
      in if e = 0 then ''null ''
         else flag_name e EPOLLIN ''IN '' @ flag_name e EPOLLPRI ''PRI '' @ flag_name e EPOLLOUT ''OUT '' @
           flag_name e EPOLLHUP ''HUP '' @ flag_name e EPOLLRDHUP ''RDHUP '' @ flag_name e EPOLLERR ''ERR '')"

(* src/matelib/Channel.cc:119-137 Channel::reventsToString *)
definition reventsToString :: "'c channel \<Rightarrow> string" where
  "reventsToString ch =
     (let e = ch_revents ch
      in flag_name e EPOLLIN ''IN '' @ flag_name e EPOLLPRI ''PRI '' @ flag_name e EPOLLOUT ''OUT '' @
           flag_name e EPOLLHUP ''HUP '' @ flag_name e EPOLLRDHUP ''RDHUP '' @ flag_name e EPOLLERR ''ERR '')"

section \<open>Which callbacks run\<close>

text \<open>The callbacks due for a channel, in the order of \<open>handleEvent\<close>.\<close>

definition due_if :: "bool \<Rightarrow> 'c option \<Rightarrow> 'c list" where
  "due_if b cb = (if b then (case cb of None \<Rightarrow> [] | Some k \<Rightarrow> [k]) else [])"

lemma due_if_simps [simp]: "due_if True (Some k) = [k]" "due_if True None = []" "due_if False cb = []"
  by (simp_all add: due_if_def)

definition due :: "'c channel \<Rightarrow> 'c list" where
  "due ch = due_if (wants_close ch) (closeCallback ch) @ due_if (wants_error ch) (errorCallback ch)
     @ due_if (wants_read ch) (readCallback ch) @ due_if (wants_write ch) (writeCallback ch)"

fun run_all :: "('c \<Rightarrow> 'w \<Rightarrow> 'w option) \<Rightarrow> 'c list \<Rightarrow> 'w \<Rightarrow> 'w option" where
  "run_all run [] w = Some w"
| "run_all run (k # ks) w = do { w' \<leftarrow> run k w; run_all run ks w' }"

lemma run_all_append: "run_all run (ks @ ls) = (\<lambda>w. run_all run ks w \<bind> run_all run ls)"
proof (induction ks)
  case Nil
  then show ?case by (simp add: fun_eq_iff)
next
  case (Cons k ks)
  show ?case by (rule ext) (simp add: Cons bind_assoc)
qed

lemma run_all_single [simp]: "run_all run [k] = run k"
  by (rule ext, rename_tac w) (case_tac "run k w", simp_all)

lemma has_or: "has e (a OR b) \<longleftrightarrow> has e a \<or> has e b"
  by (simp add: has_def bit.conj_disj_distrib or_eq_0_iff)

text \<open>The part of a channel its dispatch reads.\<close>

definition same_dispatch :: "'c channel \<Rightarrow> 'c channel \<Rightarrow> bool" where
  "same_dispatch a b \<longleftrightarrow> ch_revents a = ch_revents b \<and> ch_fd a = ch_fd b \<and> readCallback a = readCallback b
     \<and> writeCallback a = writeCallback b \<and> closeCallback a = closeCallback b \<and> errorCallback a = errorCallback b"

definition keeps_channel :: "('c \<Rightarrow> ('c, 'm) reactor_scheme \<Rightarrow> ('c, 'm) reactor_scheme option) \<Rightarrow> nat \<Rightarrow> 'c channel \<Rightarrow> bool" where
  "keeps_channel run c ch0 \<longleftrightarrow> (\<forall>k w w' ch. chans w c = Some ch \<longrightarrow> same_dispatch ch ch0 \<longrightarrow> run k w = Some w' \<longrightarrow>
     (\<exists>ch'. chans w' c = Some ch' \<and> same_dispatch ch' ch0))"

lemma same_dispatch_wants:
  "same_dispatch a b \<Longrightarrow> wants_close a = wants_close b" "same_dispatch a b \<Longrightarrow> wants_error a = wants_error b"
  "same_dispatch a b \<Longrightarrow> wants_read a = wants_read b" "same_dispatch a b \<Longrightarrow> wants_write a = wants_write b"
  by (simp_all add: same_dispatch_def wants_close_def wants_error_def wants_read_def wants_write_def)

definition alive_like :: "('c, 'm) reactor_scheme \<Rightarrow> nat \<Rightarrow> 'c channel \<Rightarrow> bool" where
  "alive_like w c ch0 \<longleftrightarrow> (\<exists>ch. chans w c = Some ch \<and> same_dispatch ch ch0)"

lemma call_if_due:
  assumes "alive_like w c ch0" "keeps_channel run c ch0"
    "\<And>ch. same_dispatch ch ch0 \<Longrightarrow> test ch = test ch0 \<and> cb ch = cb ch0"
  shows "call_if run c test cb w = run_all run (due_if (test ch0) (cb ch0)) w
    \<and> (\<forall>w'. call_if run c test cb w = Some w' \<longrightarrow> alive_like w' c ch0)"
proof -
  from assms(1) obtain ch where ch: "chans w c = Some ch" "same_dispatch ch ch0" by (auto simp: alive_like_def)
  with assms(3) have t: "test ch = test ch0" "cb ch = cb ch0" by auto
  show ?thesis
    using ch t assms(1,2) by (auto simp: call_if_def due_if_def alive_like_def keeps_channel_def split: option.splits)
qed

lemma bind_cong_keep:
  assumes "m = m'" "\<And>x. m' = Some x \<Longrightarrow> f x = g x"
  shows "m \<bind> f = m' \<bind> g"
  using assms by (cases m') auto

lemma handleEvent_due:
  assumes "chans w c = Some ch" "keeps_channel run c ch"
  shows "handleEvent run c w =
    (upd_channel c (\<lambda>ch. ch\<lparr>eventHandling := True\<rparr>) w \<bind> run_all run (due ch)
      \<bind> upd_channel c (\<lambda>ch. ch\<lparr>eventHandling := False\<rparr>))"
proof -
  let ?w0 = "w\<lparr>chans := (chans w)(c := Some (ch\<lparr>eventHandling := True\<rparr>))\<rparr>"
  have u: "upd_channel c (\<lambda>ch. ch\<lparr>eventHandling := True\<rparr>) w = Some ?w0"
    using assms(1) by (simp add: upd_channel_def)
  have a0: "alive_like ?w0 c ch" by (simp add: alive_like_def same_dispatch_def)
  have sd: "same_dispatch x ch \<Longrightarrow> closeCallback x = closeCallback ch \<and> errorCallback x = errorCallback ch
    \<and> readCallback x = readCallback ch \<and> writeCallback x = writeCallback ch" for x
    by (simp add: same_dispatch_def)
  note step = call_if_due [OF _ assms(2)]
  have e1: "call_if run c wants_close closeCallback v = run_all run (due_if (wants_close ch) (closeCallback ch)) v
      \<and> (\<forall>w'. call_if run c wants_close closeCallback v = Some w' \<longrightarrow> alive_like w' c ch)" if "alive_like v c ch" for v
    using step [OF that, of wants_close closeCallback] same_dispatch_wants(1) sd by blast
  have e2: "call_if run c wants_error errorCallback v = run_all run (due_if (wants_error ch) (errorCallback ch)) v
      \<and> (\<forall>w'. call_if run c wants_error errorCallback v = Some w' \<longrightarrow> alive_like w' c ch)" if "alive_like v c ch" for v
    using step [OF that, of wants_error errorCallback] same_dispatch_wants(2) sd by blast
  have e3: "call_if run c wants_read readCallback v = run_all run (due_if (wants_read ch) (readCallback ch)) v
      \<and> (\<forall>w'. call_if run c wants_read readCallback v = Some w' \<longrightarrow> alive_like w' c ch)" if "alive_like v c ch" for v
    using step [OF that, of wants_read readCallback] same_dispatch_wants(3) sd by blast
  have e4: "call_if run c wants_write writeCallback v = run_all run (due_if (wants_write ch) (writeCallback ch)) v"
    if "alive_like v c ch" for v
    using step [OF that, of wants_write writeCallback] same_dispatch_wants(4) sd by blast
  have d: "due ch = due_if (wants_close ch) (closeCallback ch) @ due_if (wants_error ch) (errorCallback ch)
      @ due_if (wants_read ch) (readCallback ch) @ due_if (wants_write ch) (writeCallback ch)"
    by (rule due_def)
  have "(call_if run c wants_close closeCallback ?w0 \<bind> (\<lambda>w1. call_if run c wants_error errorCallback w1
      \<bind> (\<lambda>w2. call_if run c wants_read readCallback w2 \<bind> call_if run c wants_write writeCallback)))
    = run_all run (due ch) ?w0"
    unfolding d run_all_append
    by (intro bind_cong_keep) (use a0 e1 e2 e3 e4 in metis)+
  note disp = this
  show ?thesis unfolding u bind.bind_lunit disp [symmetric] by (simp add: handleEvent_def u bind_assoc)
qed

section \<open>Properties\<close>

text \<open>
  Event dispatch: as long as the callbacks neither delete the channel nor change what it is
  watching, \<open>handleEvent\<close> runs exactly the callbacks due for the returned events, close before
  error before read before write, and ends with the channel not handling an event.
\<close>
theorem handleEvent_dispatch:
  assumes "chans w c = Some ch" "keeps_channel run c ch"
  shows "handleEvent run c w =
    (upd_channel c (\<lambda>ch. ch\<lparr>eventHandling := True\<rparr>) w \<bind> run_all run (due ch)
      \<bind> upd_channel c (\<lambda>ch. ch\<lparr>eventHandling := False\<rparr>))"
  by (rule handleEvent_due [OF assms])

lemma wants_read_iff:
  "wants_read ch \<longleftrightarrow> has (ch_revents ch) EPOLLIN \<or> has (ch_revents ch) EPOLLPRI \<or> has (ch_revents ch) EPOLLRDHUP"
  unfolding wants_read_def has_or by blast

lemma due_close: "closeCallback ch = Some k \<Longrightarrow> wants_close ch \<Longrightarrow> due ch = k # tl (due ch)"
  by (simp add: due_def due_if_def)

lemma due_read: "readCallback ch = Some r \<Longrightarrow> wants_read ch \<Longrightarrow> r \<in> set (due ch)"
  by (simp add: due_def)

text \<open>
  A hang-up reported together with urgent data or a peer shutdown but without ordinary data
  runs the close callback and the read callback both, in this order; with ordinary data pending
  the close callback does not run.
\<close>
theorem hangup_dispatch:
  assumes "closeCallback ch = Some k" "readCallback ch = Some r" "has (ch_revents ch) EPOLLHUP"
  shows "(\<not> has (ch_revents ch) EPOLLIN \<and> has (ch_revents ch) EPOLLRDHUP \<longrightarrow>
      hd (due ch) = k \<and> r \<in> set (tl (due ch)))
    \<and> (has (ch_revents ch) EPOLLIN \<longrightarrow> r \<in> set (due ch) \<and> \<not> wants_close ch)"
proof (intro conjI impI)
  assume h: "\<not> has (ch_revents ch) EPOLLIN \<and> has (ch_revents ch) EPOLLRDHUP"
  then have "wants_close ch" "wants_read ch" using assms(3) unfolding wants_close_def wants_read_iff by blast+
  with assms(1,2) show "hd (due ch) = k" "r \<in> set (tl (due ch))" by (simp_all add: due_def)
next
  assume h: "has (ch_revents ch) EPOLLIN"
  then have w: "wants_read ch" unfolding wants_read_iff by blast
  with assms(2) show "r \<in> set (due ch)" by (rule due_read)
  from h show "\<not> wants_close ch" unfolding wants_close_def by blast
qed

text \<open>A state that counts the callbacks it ran: the interpreter appends its token.\<close>

definition sample_channel :: "nat channel" where
  "sample_channel = (channel_new 5)\<lparr>ch_revents := 8208, readCallback := Some 1, closeCallback := Some 2\<rparr>"

definition sample_reactor :: "nat reactor" where
  "sample_reactor = \<lparr>chans = (\<lambda>c. if c = 0 then Some sample_channel else None), channels = (\<lambda>_. None),
     evlist_size = 16, interest = (\<lambda>_. None), in_loop_thread = True\<rparr>"

definition sample_run :: "nat \<Rightarrow> nat reactor \<Rightarrow> nat reactor option" where
  "sample_run k w = Some (w\<lparr>evlist_size := 10 * evlist_size w + k\<rparr>)"

theorem handleEvent_dispatch_witness:
  "handleEvent sample_run 0 sample_reactor =
    (upd_channel 0 (\<lambda>ch. ch\<lparr>eventHandling := True\<rparr>) sample_reactor \<bind> run_all sample_run (due sample_channel)
      \<bind> upd_channel 0 (\<lambda>ch. ch\<lparr>eventHandling := False\<rparr>))"
proof (rule handleEvent_dispatch)
  show "chans sample_reactor 0 = Some sample_channel" by (simp add: sample_reactor_def)
  show "keeps_channel sample_run 0 sample_channel" by (auto simp: keeps_channel_def sample_run_def)
qed

theorem hangup_dispatch_witness:
  "hd (due sample_channel) = 2 \<and> 1 \<in> set (tl (due sample_channel))"
  using hangup_dispatch [of sample_channel 2 1]
  by (simp add: sample_channel_def has_def epoll_bits)

end
