(* ===== verification/EpollPoller.thy ===== *)
theory EpollPoller
  imports Channel
begin

text \<open>
  \<open>matelib/EpollPoller.h\<close> and \<open>.cc\<close>: the map from descriptors to channels and its agreement with
  the kernel's interest list.

  \<open>epoll_ctl\<close> is modelled by its manual page: adding a descriptor that is there fails (EEXIST),
  changing or deleting one that is not fails (ENOENT). A failure other than of a deletion aborts.
  \<open>epoll_wait\<close> is an input: \<open>None\<close> for an error, else the events it returned, at most as many as
  the event list has room for.
\<close>

section \<open>The poller's operations\<close>

(* src/matelib/EpollPoller.cc:16-16 kNew *)
definition kNew :: int where "kNew = -1"

(* src/matelib/EpollPoller.cc:17-17 kAdded *)
definition kAdded :: int where "kAdded = 1"

(* src/matelib/EpollPoller.cc:18-18 kDeleted *)
definition kDeleted :: int where "kDeleted = 2"

lemma state_neq [simp]:
  "kNew \<noteq> kAdded" "kAdded \<noteq> kNew" "kNew \<noteq> kDeleted" "kDeleted \<noteq> kNew" "kAdded \<noteq> kDeleted" "kDeleted \<noteq> kAdded"
  by (simp_all add: kNew_def kAdded_def kDeleted_def)

datatype ctl_op = EPOLL_CTL_ADD | EPOLL_CTL_MOD | EPOLL_CTL_DEL

definition epoll_ctl ::
  "ctl_op \<Rightarrow> int \<Rightarrow> events \<times> nat \<Rightarrow> (int \<Rightarrow> (events \<times> nat) option) \<Rightarrow> (int \<Rightarrow> (events \<times> nat) option) option" where
  "epoll_ctl operation fd ev il =
     (case operation of
        EPOLL_CTL_ADD \<Rightarrow> if il fd = None then Some (il(fd := Some ev)) else None
      | EPOLL_CTL_MOD \<Rightarrow> if il fd \<noteq> None then Some (il(fd := Some ev)) else None
      | EPOLL_CTL_DEL \<Rightarrow> if il fd \<noteq> None then Some (il(fd := None)) else None)"

(* src/matelib/EpollPoller.cc:21-33 EpollPoller::EpollPoller *)
definition poller_new :: "int \<Rightarrow> 'c reactor option" where
  "poller_new epollfd = do {
     assertc (epollfd \<ge> 0);
     Some \<lparr>chans = (\<lambda>_. None), channels = (\<lambda>_. None), evlist_size = 16, interest = (\<lambda>_. None),
       in_loop_thread = True\<rparr>
   }"

(* src/matelib/EpollPoller.cc:161-178 EpollPoller::update *)
definition poller_update :: "ctl_op \<Rightarrow> nat \<Rightarrow> ('c, 'm) reactor_scheme \<Rightarrow> ('c, 'm) reactor_scheme option" where
  "poller_update operation c w = do {
     ch \<leftarrow> chans w c;
     case epoll_ctl operation (ch_fd ch) (ch_events ch, c) (interest w) of
       Some il \<Rightarrow> Some (w\<lparr>interest := il\<rparr>)
     | None \<Rightarrow> (if operation \<noteq> EPOLL_CTL_DEL then None else Some w)
   }"

(* src/matelib/EpollPoller.cc:71-114 EpollPoller::updateChannel *)
definition updateChannel :: "nat \<Rightarrow> ('c, 'm) reactor_scheme \<Rightarrow> ('c, 'm) reactor_scheme option" where
  "updateChannel c w = do {
     ch \<leftarrow> chans w c;
     let state = ch_state ch;
     assertc (in_loop_thread w);
     if state = kNew \<or> state = kDeleted then do {
       let fd = ch_fd ch;
       w1 \<leftarrow> (if state = kNew then do {
                assertc (channels w fd = None);
                Some (w\<lparr>channels := (channels w)(fd := Some c)\<rparr>)
              } else do {
                assertc (channels w fd \<noteq> None);
                assertc (channels w fd = Some c);
                Some w
              });
       w2 \<leftarrow> upd_channel c (setState kAdded) w1;
       poller_update EPOLL_CTL_ADD c w2
     } else do {
       let fd = ch_fd ch;
       assertc (channels w fd \<noteq> None);
       assertc (channels w fd = Some c);
       assertc (state = kAdded);
       if isNoneEvent ch then do {
         w1 \<leftarrow> poller_update EPOLL_CTL_DEL c w;
         upd_channel c (setState kDeleted) w1
       } else poller_update EPOLL_CTL_MOD c w
     }
   }"

text \<open>\<open>channels_[fd]\<close> of a missing descriptor is a null pointer, which no channel equals.\<close>

(* src/matelib/EpollPoller.cc:116-135 EpollPoller::removeChannel *)
definition removeChannel :: "nat \<Rightarrow> ('c, 'm) reactor_scheme \<Rightarrow> ('c, 'm) reactor_scheme option" where
  "removeChannel c w = do {
     ch \<leftarrow> chans w c;
     let fd = ch_fd ch;
     let state = ch_state ch;
     assertc (in_loop_thread w);
     assertc (isNoneEvent ch);
     assertc (channels w fd = Some c);
     assertc (state = kAdded \<or> state = kDeleted);
     let w1 = w\<lparr>channels := (channels w)(fd := None)\<rparr>;
     w2 \<leftarrow> (if state = kAdded then poller_update EPOLL_CTL_DEL c w1 else Some w1);
     upd_channel c (setState kNew) w2
   }"

(* src/matelib/EpollPoller.cc:150-159 EpollPoller::fillActiveChannels *)
fun fillActiveChannels ::
  "(events \<times> nat) list \<Rightarrow> ('c, 'm) reactor_scheme \<Rightarrow> (('c, 'm) reactor_scheme \<times> nat list) option" where
  "fillActiveChannels [] w = Some (w, [])"
| "fillActiveChannels ((ev, c) # evs) w = do {
     w1 \<leftarrow> upd_channel c (setRevents ev) w;
     (w2, cs) \<leftarrow> fillActiveChannels evs w1;
     Some (w2, c # cs)
   }"

(* src/matelib/EpollPoller.cc:40-69 EpollPoller::poll *)
definition poller_poll ::
  "(events \<times> nat) list option \<Rightarrow> nat list \<Rightarrow> ('c, 'm) reactor_scheme \<Rightarrow>
    (('c, 'm) reactor_scheme \<times> nat list \<times> int) option" where
  "poller_poll result active w =
     (case result of
        None \<Rightarrow> Some (w, active, -1)
      | Some evs \<Rightarrow> do {
          assertc (length evs \<le> evlist_size w);
          if length evs > 0 then do {
            (w1, cs) \<leftarrow> fillActiveChannels evs w;
            let w2 = (if evlist_size w1 = length evs then w1\<lparr>evlist_size := evlist_size w1 * 2\<rparr> else w1);
            Some (w2, active @ cs, int (length evs))
          } else Some (w, active, 0)
        })"

section \<open>The channel's operations that reach the poller\<close>

definition set_events :: "nat \<Rightarrow> (events \<Rightarrow> events) \<Rightarrow> ('c, 'm) reactor_scheme \<Rightarrow> ('c, 'm) reactor_scheme option" where
  "set_events c f w = do {
     w1 \<leftarrow> upd_channel c (\<lambda>ch. ch\<lparr>ch_events := f (ch_events ch)\<rparr>) w;
     updateChannel c w1
   }"

(* src/matelib/Channel.h:33-33 Channel::enableReading *)
definition enableReading :: "nat \<Rightarrow> ('c, 'm) reactor_scheme \<Rightarrow> ('c, 'm) reactor_scheme option" where
  "enableReading c w = set_events c (\<lambda>e. e OR kReadEvent) w"

(* src/matelib/Channel.h:34-34 Channel::disableReading *)
definition disableReading :: "nat \<Rightarrow> ('c, 'm) reactor_scheme \<Rightarrow> ('c, 'm) reactor_scheme option" where
  "disableReading c w = set_events c (\<lambda>e. e AND NOT kReadEvent) w"

(* src/matelib/Channel.h:35-35 Channel::enableWriting *)
definition enableWriting :: "nat \<Rightarrow> ('c, 'm) reactor_scheme \<Rightarrow> ('c, 'm) reactor_scheme option" where
  "enableWriting c w = set_events c (\<lambda>e. e OR kWriteEvent) w"

(* src/matelib/Channel.h:36-36 Channel::disableWriting *)
definition disableWriting :: "nat \<Rightarrow> ('c, 'm) reactor_scheme \<Rightarrow> ('c, 'm) reactor_scheme option" where
  "disableWriting c w = set_events c (\<lambda>e. e AND NOT kWriteEvent) w"

(* src/matelib/Channel.h:37-37 Channel::disableAll *)
definition disableAll :: "nat \<Rightarrow> ('c, 'm) reactor_scheme \<Rightarrow> ('c, 'm) reactor_scheme option" where
  "disableAll c w = set_events c (\<lambda>e. kNoneEvent) w"

(* src/matelib/Channel.cc:80-84 Channel::remove *)
definition channel_remove :: "nat \<Rightarrow> ('c, 'm) reactor_scheme \<Rightarrow> ('c, 'm) reactor_scheme option" where
  "channel_remove c w = do {
     ch \<leftarrow> chans w c;
     assertc (isNoneEvent ch);
     removeChannel c w
   }"

section \<open>What the operations leave alone\<close>

lemma poller_update_more: "poller_update a c w = Some w' \<Longrightarrow> reactor.more w' = reactor.more w"
  by (auto simp: poller_update_def bind_Some_iff split: option.splits if_splits)

lemma upd_channel_more: "upd_channel c f w = Some w' \<Longrightarrow> reactor.more w' = reactor.more w"
  by (auto simp: upd_channel_def split: option.splits)

lemma updateChannel_more: "updateChannel c w = Some w' \<Longrightarrow> reactor.more w' = reactor.more w"
  by (auto simp: updateChannel_def abort_simps bind_Some_iff Let_def split: if_splits
      dest!: poller_update_more upd_channel_more)

lemma set_events_more: "set_events c f w = Some w' \<Longrightarrow> reactor.more w' = reactor.more w"
  by (auto simp: set_events_def abort_simps bind_Some_iff split: if_splits
      dest!: updateChannel_more upd_channel_more)

lemma updateChannel_frame:
  "updateChannel c w = Some w' \<Longrightarrow> in_loop_thread w' = in_loop_thread w \<and> evlist_size w' = evlist_size w
    \<and> (\<forall>d. d \<noteq> c \<longrightarrow> chans w' d = chans w d)
    \<and> (\<exists>ch st. chans w c = Some ch \<and> chans w' c = Some (ch\<lparr>ch_state := st\<rparr>))"
proof -
  have k: "\<exists>st. ch = ch\<lparr>ch_state := st\<rparr>" for ch :: "'a channel" by (rule exI [of _ "ch_state ch"]) simp
  assume "updateChannel c w = Some w'"
  then show ?thesis
    by (auto simp: updateChannel_def poller_update_def upd_channel_def setState_def abort_simps Let_def bind_eq_Some_conv k
        split: if_splits option.splits) blast+
qed

lemma enableReading_frame:
  assumes "enableReading c w = Some w'"
  shows "in_loop_thread w' = in_loop_thread w \<and> evlist_size w' = evlist_size w \<and> (\<forall>d. d \<noteq> c \<longrightarrow> chans w' d = chans w d)
    \<and> (\<exists>ch e st. chans w c = Some ch \<and> chans w' c = Some (ch\<lparr>ch_events := e, ch_state := st\<rparr>))"
proof -
  from assms obtain ch where ch: "chans w c = Some ch"
    "updateChannel c (w\<lparr>chans := (chans w)(c := Some (ch\<lparr>ch_events := ch_events ch OR kReadEvent\<rparr>))\<rparr>) = Some w'"
    by (cases "chans w c") (simp_all add: enableReading_def set_events_def upd_channel_def)
  from updateChannel_frame [OF ch(2)] ch(1) show ?thesis by auto
qed

section \<open>The poller's invariant\<close>

definition kernel_entry :: "('c, 'm) reactor_scheme \<Rightarrow> int \<Rightarrow> (events \<times> nat) option" where
  "kernel_entry w fd =
     (case channels w fd of None \<Rightarrow> None | Some c \<Rightarrow>
        case chans w c of None \<Rightarrow> None | Some ch \<Rightarrow>
          if ch_state ch = kAdded then Some (ch_events ch, c) else None)"

definition poller_inv :: "('c, 'm) reactor_scheme \<Rightarrow> bool" where
  "poller_inv w \<longleftrightarrow>
     (\<forall>fd c. channels w fd = Some c \<longrightarrow>
        (\<exists>ch. chans w c = Some ch \<and> ch_fd ch = fd \<and> (ch_state ch = kAdded \<or> ch_state ch = kDeleted)))
     \<and> (\<forall>c ch. chans w c = Some ch \<longrightarrow> ch_state ch = kNew \<or> channels w (ch_fd ch) = Some c)
     \<and> (\<forall>fd. interest w fd = kernel_entry w fd)"

lemma poller_inv_registered:
  "poller_inv w \<Longrightarrow> channels w fd = Some c \<Longrightarrow>
    \<exists>ch. chans w c = Some ch \<and> ch_fd ch = fd \<and> (ch_state ch = kAdded \<or> ch_state ch = kDeleted)"
  by (simp add: poller_inv_def)

lemma poller_inv_state:
  assumes "poller_inv w" "chans w c = Some ch"
  shows "ch_state ch = kNew \<and> (\<forall>fd. channels w fd \<noteq> Some c) \<or>
    (ch_state ch = kAdded \<or> ch_state ch = kDeleted) \<and> channels w (ch_fd ch) = Some c"
proof (cases "ch_state ch = kNew")
  case True
  have "channels w fd \<noteq> Some c" for fd
  proof
    assume "channels w fd = Some c"
    from poller_inv_registered [OF assms(1) this] assms(2) True show False
      by auto
  qed
  with True show ?thesis by simp
next
  case False
  with assms have r: "channels w (ch_fd ch) = Some c" by (auto simp: poller_inv_def)
  from poller_inv_registered [OF assms(1) r] assms(2) r show ?thesis by auto
qed

lemma poller_inv_interest: "poller_inv w \<Longrightarrow> interest w fd = kernel_entry w fd"
  by (simp add: poller_inv_def)

text \<open>A new channel's descriptor must not be another channel's.\<close>

definition can_update :: "nat \<Rightarrow> ('c, 'm) reactor_scheme \<Rightarrow> bool" where
  "can_update c w \<longleftrightarrow> in_loop_thread w \<and>
     (\<exists>ch. chans w c = Some ch \<and> (ch_state ch = kNew \<longrightarrow> channels w (ch_fd ch) = None))"

definition updated :: "nat \<Rightarrow> 'c channel \<Rightarrow> events \<Rightarrow> ('c, 'm) reactor_scheme \<Rightarrow> ('c, 'm) reactor_scheme" where
  "updated c ch e w =
     (let st = (if ch_state ch = kAdded \<and> e = kNoneEvent then kDeleted else kAdded)
      in w\<lparr>chans := (chans w)(c := Some (ch\<lparr>ch_events := e, ch_state := st\<rparr>)),
           channels := (channels w)(ch_fd ch := Some c),
           interest := (interest w)(ch_fd ch := (if st = kAdded then Some (e, c) else None))\<rparr>)"

lemma set_events_eq:
  assumes "poller_inv w" "can_update c w" "chans w c = Some ch"
  shows "set_events c f w = Some (updated c ch (f (ch_events ch)) w)"
proof -
  let ?e = "f (ch_events ch)"
  let ?w1 = "w\<lparr>chans := (chans w)(c := Some (ch\<lparr>ch_events := ?e\<rparr>))\<rparr>"
  have u: "upd_channel c (\<lambda>ch. ch\<lparr>ch_events := f (ch_events ch)\<rparr>) w = Some ?w1"
    using assms(3) by (simp add: upd_channel_def)
  have loop: "in_loop_thread w" and new: "ch_state ch = kNew \<longrightarrow> channels w (ch_fd ch) = None"
    using assms(2,3) by (auto simp: can_update_def)
  have int: "interest w (ch_fd ch) = kernel_entry w (ch_fd ch)" by (rule poller_inv_interest [OF assms(1)])
  have cases: "ch_state ch = kNew \<or> (ch_state ch = kAdded \<or> ch_state ch = kDeleted) \<and> channels w (ch_fd ch) = Some c"
    using poller_inv_state [OF assms(1,3)] by auto
  have same: "(channels w)(ch_fd ch := Some c) = channels w" if "channels w (ch_fd ch) = Some c"
    using that by (auto simp: fun_eq_iff)
  show ?thesis
  proof (cases "ch_state ch = kNew")
    case True
    with new int have "channels w (ch_fd ch) = None" "interest w (ch_fd ch) = None"
      by (simp_all add: kernel_entry_def)
    with True loop u show ?thesis
      by (simp add: set_events_def updateChannel_def abort_simps Let_def upd_channel_def poller_update_def
        setState_def epoll_ctl_def updated_def)
  next
    case False
    with cases have r: "channels w (ch_fd ch) = Some c" by simp
    show ?thesis
    proof (cases "ch_state ch = kDeleted")
      case True
      with int r assms(3) have "interest w (ch_fd ch) = None" by (simp add: kernel_entry_def)
      with True False loop u r same [OF r] show ?thesis
        by (simp add: set_events_def updateChannel_def abort_simps Let_def upd_channel_def poller_update_def
          setState_def epoll_ctl_def updated_def)
    next
      case False
      with cases \<open>ch_state ch \<noteq> kNew\<close> have a: "ch_state ch = kAdded" by simp
      from int r assms(3) a have "interest w (ch_fd ch) \<noteq> None" by (simp add: kernel_entry_def)
      moreover have st: "ch\<lparr>ch_events := ?e, ch_state := kAdded\<rparr> = ch\<lparr>ch_events := ?e\<rparr>"
        using a by (cases ch) simp
      ultimately show ?thesis using a loop u r same [OF r]
        by (cases "?e = kNoneEvent")
          (simp_all add: st set_events_def updateChannel_def abort_simps Let_def upd_channel_def poller_update_def
          setState_def epoll_ctl_def updated_def isNoneEvent_def)
    qed
  qed
qed

lemma updated_inv:
  assumes "poller_inv w" "can_update c w" "chans w c = Some ch"
  shows "poller_inv (updated c ch e w)"
proof -
  let ?st = "if ch_state ch = kAdded \<and> e = kNoneEvent then kDeleted else kAdded"
  let ?ch = "ch\<lparr>ch_events := e, ch_state := ?st\<rparr>"
  let ?w = "updated c ch e w"
  have f: "chans ?w = (chans w)(c := Some ?ch)" "channels ?w = (channels w)(ch_fd ch := Some c)"
    "interest ?w = (interest w)(ch_fd ch := (if ?st = kAdded then Some (e, c) else None))"
    by (simp_all add: updated_def Let_def)
  have new: "ch_state ch = kNew \<longrightarrow> channels w (ch_fd ch) = None"
    using assms(2,3) by (auto simp: can_update_def)
  note st = poller_inv_state [OF assms(1,3)]
  have only: "channels w fd = Some c \<Longrightarrow> fd = ch_fd ch" for fd
    using poller_inv_registered [OF assms(1), of fd c] assms(3) by auto
  have own: "channels w (ch_fd ch) = Some d \<Longrightarrow> d = c" for d
    using st new by auto
  have A: "\<exists>x. chans ?w d = Some x \<and> ch_fd x = fd \<and> (ch_state x = kAdded \<or> ch_state x = kDeleted)"
    if "channels ?w fd = Some d" for fd d
  proof (cases "fd = ch_fd ch")
    case True
    with that have "d = c" by (simp add: f)
    with True show ?thesis by (simp add: f)
  next
    case False
    with that have "channels w fd = Some d" by (simp add: f)
    with poller_inv_registered [OF assms(1) this] only [of fd] False show ?thesis by (auto simp: f)
  qed
  have B: "ch_state x = kNew \<or> channels ?w (ch_fd x) = Some d" if "chans ?w d = Some x" for d x
  proof (cases "d = c")
    case True
    with that show ?thesis by (auto simp: f)
  next
    case False
    with that have h: "chans w d = Some x" by (simp add: f)
    with poller_inv_state [OF assms(1) h] own [of d] False show ?thesis by (auto simp: f)
  qed
  have C: "interest ?w fd = kernel_entry ?w fd" for fd
  proof (cases "fd = ch_fd ch")
    case True
    then show ?thesis by (simp add: kernel_entry_def f)
  next
    case False
    then have "channels w fd \<noteq> Some c" using only by blast
    with False poller_inv_interest [OF assms(1), of fd] show ?thesis
      by (auto simp: kernel_entry_def f split: option.splits)
  qed
  show ?thesis unfolding poller_inv_def using A B C by blast
qed

definition removed :: "nat \<Rightarrow> 'c channel \<Rightarrow> ('c, 'm) reactor_scheme \<Rightarrow> ('c, 'm) reactor_scheme" where
  "removed c ch w = w\<lparr>chans := (chans w)(c := Some (ch\<lparr>ch_state := kNew\<rparr>)),
     channels := (channels w)(ch_fd ch := None), interest := (interest w)(ch_fd ch := None)\<rparr>"

lemma channel_remove_eq:
  assumes "poller_inv w" "in_loop_thread w" "chans w c = Some ch" "isNoneEvent ch" "ch_state ch \<noteq> kNew"
  shows "channel_remove c w = Some (removed c ch w)"
proof -
  from poller_inv_state [OF assms(1,3)] assms(5) have
    st: "ch_state ch = kAdded \<or> ch_state ch = kDeleted" and r: "channels w (ch_fd ch) = Some c" by auto
  have int: "interest w (ch_fd ch) = kernel_entry w (ch_fd ch)" by (rule poller_inv_interest [OF assms(1)])
  show ?thesis
  proof (cases "ch_state ch = kAdded")
    case True
    with int r assms(3) have "interest w (ch_fd ch) \<noteq> None" by (simp add: kernel_entry_def)
    with True r assms show ?thesis
      by (auto simp: channel_remove_def removeChannel_def abort_simps Let_def upd_channel_def poller_update_def
        setState_def epoll_ctl_def removed_def)
  next
    case False
    with int r assms(3) have "interest w (ch_fd ch) = None" by (simp add: kernel_entry_def)
    then have "(interest w)(ch_fd ch := None) = interest w" by auto
    with False st r assms show ?thesis
      by (simp add: channel_remove_def removeChannel_def abort_simps Let_def upd_channel_def
        setState_def removed_def)
  qed
qed

lemma removed_inv:
  assumes "poller_inv w" "chans w c = Some ch" "ch_state ch \<noteq> kNew"
  shows "poller_inv (removed c ch w)"
proof -
  let ?w = "removed c ch w"
  have f: "chans ?w = (chans w)(c := Some (ch\<lparr>ch_state := kNew\<rparr>))" "channels ?w = (channels w)(ch_fd ch := None)"
    "interest ?w = (interest w)(ch_fd ch := None)"
    by (simp_all add: removed_def)
  from poller_inv_state [OF assms(1,2)] assms(3) have r: "channels w (ch_fd ch) = Some c" by auto
  have only: "channels w fd = Some c \<Longrightarrow> fd = ch_fd ch" for fd
    using poller_inv_registered [OF assms(1), of fd c] assms(2) by auto
  have A: "\<exists>x. chans ?w d = Some x \<and> ch_fd x = fd \<and> (ch_state x = kAdded \<or> ch_state x = kDeleted)"
    if "channels ?w fd = Some d" for fd d
    using that only [of fd] poller_inv_registered [OF assms(1), of fd d] by (auto simp: f split: if_splits)
  have B: "ch_state x = kNew \<or> channels ?w (ch_fd x) = Some d" if "chans ?w d = Some x" for d x
  proof (cases "d = c")
    case False
    with that have h: "chans w d = Some x" by (simp add: f)
    with poller_inv_state [OF assms(1) h] r False show ?thesis by (auto simp: f)
  qed (use that in \<open>auto simp: f\<close>)
  have C: "interest ?w fd = kernel_entry ?w fd" for fd
  proof (cases "fd = ch_fd ch")
    case False
    then have "channels w fd \<noteq> Some c" using only by blast
    with False poller_inv_interest [OF assms(1), of fd] show ?thesis
      by (auto simp: kernel_entry_def f split: option.splits)
  qed (simp add: kernel_entry_def f)
  show ?thesis unfolding poller_inv_def using A B C by blast
qed

section \<open>The interface of the channels' owners\<close>

text \<open>
  What the owner of a channel relies on (the timer queue, the acceptor, a connection): changing
  the events of interest always succeeds while the descriptor is its own, and removing is possible
  once no event is of interest.
\<close>

locale event_registry =
  fixes inv :: "'w \<Rightarrow> bool"
    and usable :: "'w \<Rightarrow> bool"
    and registered :: "'w \<Rightarrow> bool"
    and wants :: "'w \<Rightarrow> events"
    and watched :: "'w \<Rightarrow> events option"
    and set_ev :: "(events \<Rightarrow> events) \<Rightarrow> 'w \<Rightarrow> 'w option"
    and unregister :: "'w \<Rightarrow> 'w option"
  assumes set_ok: "inv w \<Longrightarrow> usable w \<Longrightarrow>
      \<exists>w'. set_ev f w = Some w' \<and> inv w' \<and> usable w' \<and> registered w' \<and> wants w' = f (wants w)
        \<and> (f (wants w) \<noteq> kNoneEvent \<longrightarrow> watched w' = Some (f (wants w)))"
    and unregister_ok: "inv w \<Longrightarrow> usable w \<Longrightarrow> registered w \<Longrightarrow> wants w = kNoneEvent \<Longrightarrow>
      \<exists>w'. unregister w = Some w' \<and> inv w' \<and> usable w' \<and> \<not> registered w' \<and> watched w' = None"
begin

text \<open>The life of a channel: any changes of interest, then none at all, then its removal.\<close>

lemma changes_ok: "inv w \<Longrightarrow> usable w \<Longrightarrow> \<exists>w'. run_all set_ev fs w = Some w' \<and> inv w' \<and> usable w'"
proof (induction fs arbitrary: w)
  case Nil
  then show ?case by simp
next
  case (Cons f fs)
  from set_ok [OF Cons.prems, of f] obtain w1 where "set_ev f w = Some w1" "inv w1" "usable w1" by blast
  with Cons.IH [of w1] show ?case by simp
qed

lemma life_cycle:
  assumes "inv w" "usable w"
  shows "\<exists>w1 w2 w3. run_all set_ev fs w = Some w1 \<and> set_ev (\<lambda>_. kNoneEvent) w1 = Some w2
    \<and> unregister w2 = Some w3 \<and> inv w3 \<and> \<not> registered w3 \<and> watched w3 = None"
proof -
  from changes_ok [OF assms, of fs] obtain w1 where w1: "run_all set_ev fs w = Some w1" "inv w1" "usable w1" by blast
  from set_ok [OF w1(2,3), of "\<lambda>_. kNoneEvent"] obtain w2 where w2: "set_ev (\<lambda>_. kNoneEvent) w1 = Some w2"
    "inv w2" "usable w2" "registered w2" "wants w2 = kNoneEvent" by blast
  from unregister_ok [OF w2(2-5)] w1 w2 show ?thesis by blast
qed

end

definition ch_wants :: "nat \<Rightarrow> ('c, 'm) reactor_scheme \<Rightarrow> events" where
  "ch_wants c w = (case chans w c of Some ch \<Rightarrow> ch_events ch | None \<Rightarrow> kNoneEvent)"

definition ch_registered :: "nat \<Rightarrow> ('c, 'm) reactor_scheme \<Rightarrow> bool" where
  "ch_registered c w = (\<exists>ch. chans w c = Some ch \<and> ch_state ch \<noteq> kNew)"

definition ch_watched :: "nat \<Rightarrow> ('c, 'm) reactor_scheme \<Rightarrow> events option" where
  "ch_watched c w = (case chans w c of Some ch \<Rightarrow> map_option fst (interest w (ch_fd ch)) | None \<Rightarrow> None)"

lemma updated_can_update: "can_update c w \<Longrightarrow> can_update c (updated c ch e w)"
  by (auto simp: can_update_def updated_def Let_def)

interpretation reg: event_registry poller_inv "can_update c" "ch_registered c" "ch_wants c" "ch_watched c"
  "set_events c" "channel_remove c" for c
proof unfold_locales
  fix w :: "('a, 'b) reactor_scheme" and f
  assume i: "poller_inv w" and u: "can_update c w"
  then obtain ch where ch: "chans w c = Some ch" by (auto simp: can_update_def)
  let ?w = "updated c ch (f (ch_events ch)) w"
  have "ch_registered c ?w \<and> ch_wants c ?w = f (ch_wants c w)
      \<and> (f (ch_wants c w) \<noteq> kNoneEvent \<longrightarrow> ch_watched c ?w = Some (f (ch_wants c w)))"
    using ch by (auto simp: ch_registered_def ch_wants_def ch_watched_def updated_def Let_def)
  with set_events_eq [OF i u ch] updated_inv [OF i u ch] updated_can_update [OF u]
  show "\<exists>w'. set_events c f w = Some w' \<and> poller_inv w' \<and> can_update c w' \<and> ch_registered c w'
    \<and> ch_wants c w' = f (ch_wants c w) \<and> (f (ch_wants c w) \<noteq> kNoneEvent \<longrightarrow> ch_watched c w' = Some (f (ch_wants c w)))"
    by blast
next
  fix w :: "('a, 'b) reactor_scheme"
  assume i: "poller_inv w" and u: "can_update c w" and r: "ch_registered c w" and n: "ch_wants c w = kNoneEvent"
  then obtain ch where ch: "chans w c = Some ch" "ch_state ch \<noteq> kNew" by (auto simp: ch_registered_def)
  with n have none: "isNoneEvent ch" by (simp add: ch_wants_def isNoneEvent_def)
  have l: "in_loop_thread w" using u by (simp add: can_update_def)
  let ?w = "removed c ch w"
  have "can_update c ?w \<and> \<not> ch_registered c ?w \<and> ch_watched c ?w = None"
    using l by (simp add: removed_def can_update_def ch_registered_def ch_watched_def)
  with channel_remove_eq [OF i l ch(1) none ch(2)] removed_inv [OF i ch]
  show "\<exists>w'. channel_remove c w = Some w' \<and> poller_inv w' \<and> can_update c w' \<and> \<not> ch_registered c w'
    \<and> ch_watched c w' = None" by blast
qed

section \<open>Polling\<close>

lemma fill_spec:
  "fillActiveChannels evs w = Some (w', cs) \<Longrightarrow> cs = map snd evs
    \<and> (\<forall>c ch. chans w c = Some ch \<longrightarrow> (\<exists>r. chans w' c = Some (ch\<lparr>ch_revents := r\<rparr>)))
    \<and> (\<forall>c. chans w c = None \<longrightarrow> chans w' c = None)
    \<and> w' = w\<lparr>chans := chans w'\<rparr>"
proof (induction evs arbitrary: w w' cs)
  case Nil
  then show ?case by auto (metis channel.surjective channel.update_convs(3))
next
  case (Cons e evs)
  obtain ev c where e: "e = (ev, c)" by (cases e)
  from Cons.prems e obtain ch w1 ds where h: "chans w c = Some ch"
    and w1: "w1 = w\<lparr>chans := (chans w)(c := Some (setRevents ev ch))\<rparr>"
    and r: "fillActiveChannels evs w1 = Some (w', ds)" and cs: "cs = c # ds"
    by (auto simp: bind_Some_iff upd_channel_def split: option.splits)
  note ih = Cons.IH [OF r]
  have "\<exists>r. chans w' d = Some (x\<lparr>ch_revents := r\<rparr>)" if "chans w d = Some x" for d x
  proof (cases "d = c")
    case True
    with that h w1 have "chans w1 d = Some (x\<lparr>ch_revents := ev\<rparr>)" by (simp add: setRevents_def)
    with ih show ?thesis by fastforce
  next
    case False
    with that w1 have "chans w1 d = Some x" by simp
    with ih show ?thesis by blast
  qed
  moreover have "chans w d = None \<Longrightarrow> chans w' d = None" for d
    using ih w1 h by (cases "d = c") auto
  moreover have "w' = w\<lparr>chans := chans w'\<rparr>"
  proof -
    from ih have "w' = w1\<lparr>chans := chans w'\<rparr>" by blast
    also have "\<dots> = w\<lparr>chans := chans w'\<rparr>" using w1 by simp
    finally show ?thesis .
  qed
  ultimately show ?case using ih cs e by auto
qed

lemma fill_total: "(\<forall>(ev, c) \<in> set evs. chans w c \<noteq> None) \<Longrightarrow> fillActiveChannels evs w \<noteq> None"
proof (induction evs arbitrary: w)
  case Nil
  then show ?case by simp
next
  case (Cons e evs)
  obtain ev c where e: "e = (ev, c)" by (cases e)
  with Cons.prems obtain ch where h: "chans w c = Some ch" by auto
  let ?w1 = "w\<lparr>chans := (chans w)(c := Some (setRevents ev ch))\<rparr>"
  have "\<forall>(ev, d) \<in> set evs. chans ?w1 d \<noteq> None" using Cons.prems by auto
  from Cons.IH [OF this] show ?case using e h by (auto simp: upd_channel_def)
qed

section \<open>Properties\<close>


text \<open>
  The life of a channel: after any sequence of changes of interest, disabling all events and
  removing the channel succeed, the poller has forgotten it and the kernel does not watch its
  descriptor any more.
\<close>
theorem channel_life_cycle:
  assumes "poller_inv w" "can_update c w"
  shows "\<exists>w1 w2 w3. run_all (set_events c) fs w = Some w1 \<and> disableAll c w1 = Some w2
    \<and> channel_remove c w2 = Some w3 \<and> poller_inv w3 \<and> \<not> ch_registered c w3 \<and> ch_watched c w3 = None"
  using reg.life_cycle [OF assms, of fs] by (simp add: disableAll_def)

text \<open>
  Polling: with events the kernel has for watched descriptors, every channel pointer it
  returns is alive, the active channels are appended in the order of the events, only their
  \<open>revents_\<close> change, and the event list doubles exactly when it was filled.
\<close>
theorem poll_activates_channels:
  assumes "poller_inv w" "length evs \<le> evlist_size w"
    "list_all (\<lambda>(ev, c). \<exists>fd e. interest w fd = Some (e, c)) evs"
  shows "\<exists>w'. poller_poll (Some evs) active w = Some (w', active @ map snd evs, int (length evs))
    \<and> (\<forall>c ch. chans w c = Some ch \<longrightarrow> (\<exists>r. chans w' c = Some (ch\<lparr>ch_revents := r\<rparr>)))
    \<and> interest w' = interest w \<and> channels w' = channels w
    \<and> evlist_size w' = (if evs \<noteq> [] \<and> length evs = evlist_size w then 2 * evlist_size w else evlist_size w)"
proof (cases "evs = []")
  case True
  have "\<forall>c ch. chans w c = Some ch \<longrightarrow> (\<exists>r. chans w c = Some (ch\<lparr>ch_revents := r\<rparr>))"
    by (metis channel.surjective channel.update_convs(3))
  with True show ?thesis by (simp add: poller_poll_def abort_simps)
next
  case False
  have "\<forall>(ev, c) \<in> set evs. chans w c \<noteq> None"
    using assms(1,3) by (fastforce simp: list_all_iff poller_inv_def kernel_entry_def split: option.splits if_splits)
  from fill_total [OF this] obtain w1 cs where r: "fillActiveChannels evs w = Some (w1, cs)" by auto
  note f = fill_spec [OF r]
  then have w1: "evlist_size w1 = evlist_size w" "interest w1 = interest w" "channels w1 = channels w"
    by (metis reactor.ext_inject reactor.surjective reactor.update_convs(1))+
  let ?w2 = "if evlist_size w = length evs then w1\<lparr>evlist_size := evlist_size w * 2\<rparr> else w1"
  have "poller_poll (Some evs) active w = Some (?w2, active @ map snd evs, int (length evs))"
    using False assms(2) r f w1(1) by (simp add: poller_poll_def abort_simps)
  moreover have "chans ?w2 = chans w1" "interest ?w2 = interest w" "channels ?w2 = channels w"
    "evlist_size ?w2 = (if evs \<noteq> [] \<and> length evs = evlist_size w then 2 * evlist_size w else evlist_size w)"
    using w1 False by simp_all
  ultimately show ?thesis using f by (intro exI [of _ ?w2]) auto
qed

text \<open>
  \<open>disableAll\<close> on a channel that is retained (it has no events of interest already) does not
  leave it alone: it puts the descriptor back into the kernel's interest list with an empty mask,
  where errors and hang-ups are still reported.
\<close>
theorem disableAll_twice_watches_again:
  assumes "poller_inv w" "can_update c w" "chans w c = Some ch" "ch_state ch = kAdded"
  shows "\<exists>w1 w2. disableAll c w = Some w1 \<and> interest w1 (ch_fd ch) = None
    \<and> disableAll c w1 = Some w2 \<and> interest w2 (ch_fd ch) = Some (kNoneEvent, c)"
proof -
  let ?w1 = "updated c ch kNoneEvent w"
  let ?ch = "ch\<lparr>ch_events := kNoneEvent, ch_state := kDeleted\<rparr>"
  have 1: "disableAll c w = Some ?w1"
    unfolding disableAll_def using set_events_eq [OF assms(1-3)] by blast
  have h: "chans ?w1 c = Some ?ch" using assms(4) by (simp add: updated_def)
  have 2: "disableAll c ?w1 = Some (updated c ?ch kNoneEvent ?w1)"
    unfolding disableAll_def
    using set_events_eq [OF updated_inv [OF assms(1-3)] updated_can_update [OF assms(2)] h] by blast
  show ?thesis
    using 1 2 assms(4) by (intro exI [of _ ?w1] exI [of _ "updated c ?ch kNoneEvent ?w1"]) (simp add: updated_def)
qed

definition one_channel :: "nat reactor" where
  "one_channel = \<lparr>chans = (\<lambda>c. if c = 0 then Some ((channel_new 5)\<lparr>ch_events := 1, ch_state := kAdded\<rparr>) else None),
     channels = (\<lambda>fd. if fd = 5 then Some 0 else None), evlist_size = 1,
     interest = (\<lambda>fd. if fd = 5 then Some (1, 0) else None), in_loop_thread = True\<rparr>"

lemma one_channel_inv: "poller_inv one_channel"
  by (auto simp: poller_inv_def one_channel_def kernel_entry_def channel_new_def)

lemma one_channel_can: "can_update 0 one_channel"
  by (simp add: can_update_def one_channel_def)

lemma one_channel_heap: "chans one_channel 0 = Some ((channel_new 5)\<lparr>ch_events := 1, ch_state := kAdded\<rparr>)"
  by (simp add: one_channel_def)


theorem channel_life_cycle_witness:
  "\<exists>w1 w2 w3. run_all (set_events 0) [\<lambda>e. 4] one_channel = Some w1 \<and> disableAll 0 w1 = Some w2
    \<and> channel_remove 0 w2 = Some w3 \<and> poller_inv w3 \<and> \<not> ch_registered 0 w3 \<and> ch_watched 0 w3 = None"
  by (rule channel_life_cycle [OF one_channel_inv one_channel_can])

theorem poll_activates_channels_witness:
  "\<exists>w'. poller_poll (Some [(4, 0)]) [] one_channel = Some (w', [0], 1) \<and> evlist_size w' = 2"
  using poll_activates_channels [OF one_channel_inv, of "[(4, 0)]" "[]"]
  by (simp add: one_channel_def) metis

theorem disableAll_twice_watches_again_witness:
  "\<exists>w1 w2. disableAll 0 one_channel = Some w1 \<and> interest w1 5 = None
    \<and> disableAll 0 w1 = Some w2 \<and> interest w2 5 = Some (kNoneEvent, 0)"
  using disableAll_twice_watches_again [OF one_channel_inv one_channel_can one_channel_heap]
  by (simp add: channel_new_def)

end
