(* ===== verification/EventLoop.thy ===== *)
theory EventLoop
  imports EpollPoller TimerQueue
begin

text \<open>
  \<open>matelib/EventLoop.h\<close> and \<open>.cc\<close>: one loop per thread that polls, dispatches the active channels
  and then runs the functors other threads (or its own callbacks) have queued.

  The state extends the poller's. A functor is a token with an interpreter, like a callback.
  \<open>in_loop_thread\<close> says whether the code now running runs in the loop's thread. The eventfd is its
  64-bit counter. The second half of the theory interleaves the loop with other threads, one step
  per critical section or system call, to state what the wakeup protocol guarantees.
\<close>

section \<open>State\<close>

(* src/matelib/EventLoop.h:57-69 EventLoop *)
record ('c, 'f) loop = "'c reactor" +
  looping :: bool
  quit_flag :: bool
  loop_eventHandling :: bool
  callingPendingFunctors :: bool
  wakeup_channel :: nat
  eventfd_count :: nat
  activeChannels :: "nat list"
  currentHandingChannel :: "nat option"
  pendingFunctors :: "'f list"

(* src/matelib/EventLoop.cc:24-24 detail::kEpollWaitTimeMS *)
definition kEpollWaitTimeMS :: int where "kEpollWaitTimeMS = 20 * 1000"

definition eventfd_max :: nat where "eventfd_max = 2 ^ 64 - 2"

(* src/matelib/EventLoop.cc:26-34 detail::createEventfd *)
definition createEventfd :: "int \<Rightarrow> int option" where
  "createEventfd evfd = do { assertc (evfd \<ge> 0); Some evfd }"

text \<open>A failure of \<open>timerfd_create\<close> is only logged here.\<close>

(* src/matelib/TimerQueue.cc:16-24 detail::createTimerfd *)
definition createTimerfd :: "int \<Rightarrow> int" where
  "createTimerfd timerfd = timerfd"

text \<open>
  The part of \<open>TimerQueue\<close>'s constructor that concerns the loop: its channel, number \<open>c\<close> of the heap,
  whose read callback is the token of \<open>TimerQueue::handleRead\<close>. Without a descriptor \<open>epoll_ctl\<close>
  refuses the channel and the poller aborts.
\<close>

(* src/matelib/TimerQueue.cc:71-83 TimerQueue::TimerQueue *)
definition timer_channel_new :: "int \<Rightarrow> 'c \<Rightarrow> nat \<Rightarrow> ('c, 'm) reactor_scheme \<Rightarrow> ('c, 'm) reactor_scheme option" where
  "timer_channel_new timerfd timer_cb c w = do {
     let fd = createTimerfd timerfd;
     w1 \<leftarrow> enableReading c (w\<lparr>chans := (chans w)(c := Some (setReadCallback timer_cb (channel_new fd)))\<rparr>);
     assertc (fd \<ge> 0);
     Some w1
   }"

text \<open>
  The descriptors are those the kernel returns, \<open>other_loop\<close> tells whether the thread's
  \<open>t_loopInThisThread\<close> is set before the construction. The wakeup channel is number 0, the timer
  queue's is number 1; \<open>wakeup_cb\<close> is the token of \<open>handleWakeup\<close>.
\<close>

(* src/matelib/EventLoop.cc:54-77 EventLoop::EventLoop *)
definition loop_new :: "int \<Rightarrow> int \<Rightarrow> int \<Rightarrow> 'c \<Rightarrow> 'c \<Rightarrow> bool \<Rightarrow> ('c, 'f) loop option" where
  "loop_new epollfd timerfd evfd timer_cb wakeup_cb other_loop = do {
     p \<leftarrow> poller_new epollfd;
     p1 \<leftarrow> timer_channel_new timerfd timer_cb 1 p;
     fd \<leftarrow> createEventfd evfd;
     assertc (\<not> other_loop);
     let w = reactor.extend (p1\<lparr>chans := (chans p1)(0 := Some (setReadCallback wakeup_cb (channel_new fd)))\<rparr>)
       \<lparr>looping = False, quit_flag = False, loop_eventHandling = False, callingPendingFunctors = False,
        wakeup_channel = 0, eventfd_count = 0, activeChannels = [], currentHandingChannel = None,
        pendingFunctors = []\<rparr>;
     enableReading 0 w
   }"

text \<open>
  The destructor closes the descriptors and clears \<open>t_loopInThisThread\<close>; then the members go, last first:
  the wakeup channel, and the timer queue with its channel. A channel is not to be handling an event.
\<close>

(* src/matelib/EventLoop.cc:79-83 EventLoop::~EventLoop *)
definition loop_delete :: "('c, 'f, 'm) loop_scheme \<Rightarrow> ('c, 'f, 'm) loop_scheme option" where
  "loop_delete w = do {
     w1 \<leftarrow> channel_delete (wakeup_channel w) (w\<lparr>pendingFunctors := [], activeChannels := []\<rparr>);
     channel_delete 1 w1
   }"

section \<open>Operations\<close>

(* src/matelib/EventLoop.cc:207-214 EventLoop::assertInLoopThread *)
definition assertInLoopThread :: "('c, 'm) reactor_scheme \<Rightarrow> unit option" where
  "assertInLoopThread w = assertc (in_loop_thread w)"

text \<open>A full counter makes the write fail with EAGAIN, which is only logged.\<close>

(* src/matelib/EventLoop.cc:168-175 EventLoop::wakeup *)
definition wakeup :: "('c, 'f, 'm) loop_scheme \<Rightarrow> ('c, 'f, 'm) loop_scheme" where
  "wakeup w = (if eventfd_count w < eventfd_max then w\<lparr>eventfd_count := eventfd_count w + 1\<rparr> else w)"

(* src/matelib/EventLoop.cc:177-184 EventLoop::handleWakeup *)
definition handleWakeup :: "('c, 'f, 'm) loop_scheme \<Rightarrow> ('c, 'f, 'm) loop_scheme" where
  "handleWakeup w = w\<lparr>eventfd_count := 0\<rparr>"

(* src/matelib/EventLoop.cc:119-125 EventLoop::quit *)
definition quit :: "('c, 'f, 'm) loop_scheme \<Rightarrow> ('c, 'f, 'm) loop_scheme" where
  "quit w = (let w1 = w\<lparr>quit_flag := True\<rparr> in if \<not> in_loop_thread w1 then wakeup w1 else w1)"

text \<open>The two halves of \<open>queueInLoop\<close>: the critical section, and the wakeup.\<close>

(* src/matelib/EventLoop.cc:139-142 EventLoop::queueInLoop *)
definition queue_push :: "'f \<Rightarrow> ('c, 'f, 'm) loop_scheme \<Rightarrow> ('c, 'f, 'm) loop_scheme" where
  "queue_push f w = w\<lparr>pendingFunctors := pendingFunctors w @ [f]\<rparr>"

(* src/matelib/EventLoop.cc:144-147 EventLoop::queueInLoop *)
definition queue_wake :: "('c, 'f, 'm) loop_scheme \<Rightarrow> ('c, 'f, 'm) loop_scheme" where
  "queue_wake w = (if \<not> in_loop_thread w \<or> callingPendingFunctors w then wakeup w else w)"

(* src/matelib/EventLoop.cc:137-148 EventLoop::queueInLoop *)
definition queueInLoop :: "'f \<Rightarrow> ('c, 'f, 'm) loop_scheme \<Rightarrow> ('c, 'f, 'm) loop_scheme" where
  "queueInLoop f w = queue_wake (queue_push f w)"

(* src/matelib/EventLoop.cc:127-135 EventLoop::runInLoop *)
definition runInLoop ::
  "('f \<Rightarrow> ('c, 'f, 'm) loop_scheme \<Rightarrow> ('c, 'f, 'm) loop_scheme option) \<Rightarrow> 'f \<Rightarrow>
    ('c, 'f, 'm) loop_scheme \<Rightarrow> ('c, 'f, 'm) loop_scheme option" where
  "runInLoop run_f f w = (if in_loop_thread w then run_f f w else Some (queueInLoop f w))"

(* src/matelib/EventLoop.cc:186-191 EventLoop::updateChannel *)
definition loop_updateChannel :: "nat \<Rightarrow> ('c, 'm) reactor_scheme \<Rightarrow> ('c, 'm) reactor_scheme option" where
  "loop_updateChannel c w = do { assertInLoopThread w; updateChannel c w }"

(* src/matelib/EventLoop.cc:193-205 EventLoop::removeChannel *)
definition loop_removeChannel :: "nat \<Rightarrow> ('c, 'f, 'm) loop_scheme \<Rightarrow> ('c, 'f, 'm) loop_scheme option" where
  "loop_removeChannel c w = do {
     assertInLoopThread w;
     assertc (loop_eventHandling w \<longrightarrow>
       currentHandingChannel w = Some c \<or> c \<notin> set (activeChannels w));
     removeChannel c w
   }"

(* src/matelib/EventLoop.cc:162-165 EventLoop::cancelTimer *)
definition loop_cancelTimer :: "bool \<Rightarrow> timer_queue \<Rightarrow> timer_id \<Rightarrow> (timer_queue \<times> tq_functor list) res" where
  "loop_cancelTimer in_loop tq tid = cancelTimer in_loop tq tid"

(* src/matelib/EventLoop.cc:221-239 EventLoop::doPendingFunctors *)
definition doPendingFunctors ::
  "('f \<Rightarrow> ('c, 'f, 'm) loop_scheme \<Rightarrow> ('c, 'f, 'm) loop_scheme option) \<Rightarrow>
    ('c, 'f, 'm) loop_scheme \<Rightarrow> ('c, 'f, 'm) loop_scheme option" where
  "doPendingFunctors run_f w = do {
     let w1 = w\<lparr>callingPendingFunctors := True\<rparr>;
     let functors = pendingFunctors w1;
     let w2 = w1\<lparr>pendingFunctors := []\<rparr>;
     w3 \<leftarrow> run_all run_f functors w2;
     Some (w3\<lparr>callingPendingFunctors := False\<rparr>)
   }"

text \<open>The iteration over the active channels.\<close>

(* src/matelib/EventLoop.cc:100-106 EventLoop::loop *)
fun handle_active ::
  "('c \<Rightarrow> ('c, 'f, 'm) loop_scheme \<Rightarrow> ('c, 'f, 'm) loop_scheme option) \<Rightarrow> nat list \<Rightarrow>
    ('c, 'f, 'm) loop_scheme \<Rightarrow> ('c, 'f, 'm) loop_scheme option" where
  "handle_active run [] w = Some w"
| "handle_active run (c # cs) w = do {
     w1 \<leftarrow> handleEvent run c (w\<lparr>currentHandingChannel := Some c\<rparr>);
     handle_active run cs w1
   }"

text \<open>One pass of the loop body, with the result of \<open>epoll_wait\<close>.\<close>

(* src/matelib/EventLoop.cc:92-115 EventLoop::loop *)
definition loop_body ::
  "('c \<Rightarrow> ('c, 'f, 'm) loop_scheme \<Rightarrow> ('c, 'f, 'm) loop_scheme option) \<Rightarrow>
    ('f \<Rightarrow> ('c, 'f, 'm) loop_scheme \<Rightarrow> ('c, 'f, 'm) loop_scheme option) \<Rightarrow>
    (events \<times> nat) list option \<Rightarrow> ('c, 'f, 'm) loop_scheme \<Rightarrow> ('c, 'f, 'm) loop_scheme option" where
  "loop_body run run_f result w = do {
     let w0 = w\<lparr>activeChannels := []\<rparr>;
     (w1, active, numEvents) \<leftarrow> poller_poll result (activeChannels w0) w0;
     let w2 = w1\<lparr>activeChannels := active\<rparr>;
     w3 \<leftarrow> (if numEvents > 0 then do {
              v \<leftarrow> handle_active run (activeChannels w2) (w2\<lparr>loop_eventHandling := True\<rparr>);
              Some (v\<lparr>currentHandingChannel := None, loop_eventHandling := False\<rparr>)
            } else Some w2);
     doPendingFunctors run_f w3
   }"

text \<open>The loop over a list of poll results; it may be longer than the loop runs.\<close>

(* src/matelib/EventLoop.cc:85-117 EventLoop::loop *)
fun loop_passes ::
  "('c \<Rightarrow> ('c, 'f, 'm) loop_scheme \<Rightarrow> ('c, 'f, 'm) loop_scheme option) \<Rightarrow>
    ('f \<Rightarrow> ('c, 'f, 'm) loop_scheme \<Rightarrow> ('c, 'f, 'm) loop_scheme option) \<Rightarrow>
    (events \<times> nat) list option list \<Rightarrow> ('c, 'f, 'm) loop_scheme \<Rightarrow> ('c, 'f, 'm) loop_scheme option" where
  "loop_passes run run_f [] w = Some w"
| "loop_passes run run_f (r # rs) w =
     (if quit_flag w then Some (w\<lparr>looping := False\<rparr>)
      else do { w1 \<leftarrow> loop_body run run_f r w; loop_passes run run_f rs w1 })"

(* src/matelib/EventLoop.cc:85-91 EventLoop::loop *)
definition loop_run ::
  "('c \<Rightarrow> ('c, 'f, 'm) loop_scheme \<Rightarrow> ('c, 'f, 'm) loop_scheme option) \<Rightarrow>
    ('f \<Rightarrow> ('c, 'f, 'm) loop_scheme \<Rightarrow> ('c, 'f, 'm) loop_scheme option) \<Rightarrow>
    (events \<times> nat) list option list \<Rightarrow> ('c, 'f, 'm) loop_scheme \<Rightarrow> ('c, 'f, 'm) loop_scheme option" where
  "loop_run run run_f results w = do {
     assertc (\<not> looping w);
     assertInLoopThread w;
     loop_passes run run_f results (w\<lparr>looping := True\<rparr>)
   }"

section \<open>The loop among other threads\<close>

text \<open>
  Where the loop's thread is: at the test of \<open>quit_\<close>, in \<open>epoll_wait\<close>, between its return and the
  swap of the functors (it may read the eventfd there), and running the functors of its batch.
\<close>

datatype loop_pc = AtQuitTest | InPoll | Dispatching | RunningBatch | LoopEnded

record ('c, 'f) sched =
  lp :: "('c, 'f) loop"
  lpc :: loop_pc
  batch :: "'f list"
  waking :: nat
  quitting :: nat
  ran :: "'f list"

inductive sched_step :: "('c, 'f) sched \<Rightarrow> 'f list \<Rightarrow> ('c, 'f) sched \<Rightarrow> bool" where
  test_quit: "lpc s = AtQuitTest \<Longrightarrow>
    sched_step s [] (s\<lparr>lpc := (if quit_flag (lp s) then LoopEnded else InPoll)\<rparr>)"
| poll_returns: "lpc s = InPoll \<Longrightarrow> sched_step s [] (s\<lparr>lpc := Dispatching\<rparr>)"
| read_eventfd: "lpc s = Dispatching \<Longrightarrow> sched_step s [] (s\<lparr>lp := handleWakeup (lp s)\<rparr>)"
| own_queue: "lpc s \<in> {Dispatching, RunningBatch} \<Longrightarrow>
    sched_step s [f] (s\<lparr>lp := queueInLoop f ((lp s)\<lparr>in_loop_thread := True\<rparr>)\<rparr>)"
| own_quit: "lpc s \<in> {Dispatching, RunningBatch} \<Longrightarrow>
    sched_step s [] (s\<lparr>lp := quit ((lp s)\<lparr>in_loop_thread := True\<rparr>)\<rparr>)"
| swap: "lpc s = Dispatching \<Longrightarrow>
    sched_step s [] (s\<lparr>batch := pendingFunctors (lp s), lpc := RunningBatch,
      lp := (lp s)\<lparr>callingPendingFunctors := True, pendingFunctors := []\<rparr>\<rparr>)"
| run_one: "lpc s = RunningBatch \<Longrightarrow> batch s = f # fs \<Longrightarrow>
    sched_step s [] (s\<lparr>batch := fs, ran := ran s @ [f]\<rparr>)"
| batch_done: "lpc s = RunningBatch \<Longrightarrow> batch s = [] \<Longrightarrow>
    sched_step s [] (s\<lparr>lpc := AtQuitTest, lp := (lp s)\<lparr>callingPendingFunctors := False\<rparr>\<rparr>)"
| other_push: "sched_step s [f] (s\<lparr>lp := queue_push f (lp s), waking := Suc (waking s)\<rparr>)"
| other_wake: "0 < waking s \<Longrightarrow>
    sched_step s [] (s\<lparr>lp := queue_wake ((lp s)\<lparr>in_loop_thread := False\<rparr>), waking := waking s - 1\<rparr>)"
| other_quit_flag: "sched_step s [] (s\<lparr>lp := (lp s)\<lparr>quit_flag := True\<rparr>, quitting := Suc (quitting s)\<rparr>)"
| other_quit_wake: "0 < quitting s \<Longrightarrow>
    sched_step s [] (s\<lparr>lp := wakeup (lp s), quitting := quitting s - 1\<rparr>)"

inductive sched_run :: "('c, 'f) sched \<Rightarrow> 'f list \<Rightarrow> ('c, 'f) sched \<Rightarrow> bool" for s where
  run_refl: "sched_run s [] s"
| run_step: "sched_run s fs t \<Longrightarrow> sched_step t gs u \<Longrightarrow> sched_run s (fs @ gs) u"

definition sched_start :: "('c, 'f) sched \<Rightarrow> bool" where
  "sched_start s \<longleftrightarrow> lpc s = AtQuitTest \<and> batch s = [] \<and> waking s = 0 \<and> quitting s = 0 \<and> ran s = []
     \<and> pendingFunctors (lp s) = [] \<and> \<not> quit_flag (lp s) \<and> \<not> callingPendingFunctors (lp s)"

text \<open>
  A functor waits in the queue only if the loop is still on its way to the swap, or the eventfd is
  readable, or the thread that pushed it has yet to write the eventfd. Likewise for the quit flag.
\<close>

definition wake_pending :: "('c, 'f) sched \<Rightarrow> bool" where
  "wake_pending s \<longleftrightarrow> eventfd_count (lp s) > 0 \<or> waking s > 0 \<or> quitting s > 0"

definition sched_inv :: "'f list \<Rightarrow> ('c, 'f) sched \<Rightarrow> bool" where
  "sched_inv fs s \<longleftrightarrow>
     (pendingFunctors (lp s) \<noteq> [] \<and> lpc s \<noteq> Dispatching \<longrightarrow> eventfd_count (lp s) > 0 \<or> waking s > 0)
     \<and> (quit_flag (lp s) \<and> lpc s = InPoll \<longrightarrow> eventfd_count (lp s) > 0 \<or> quitting s > 0)
     \<and> callingPendingFunctors (lp s) = (lpc s = RunningBatch)
     \<and> (lpc s \<noteq> RunningBatch \<longrightarrow> batch s = [])
     \<and> ran s @ batch s @ pendingFunctors (lp s) = fs"

lemma wakeup_simps [simp]:
  "eventfd_count (wakeup w) > 0"
  "pendingFunctors (wakeup w) = pendingFunctors w" "quit_flag (wakeup w) = quit_flag w"
  "callingPendingFunctors (wakeup w) = callingPendingFunctors w"
  by (simp_all add: wakeup_def eventfd_max_def)

lemma wakeup_keeps [simp]: "0 < n \<Longrightarrow> eventfd_count w = n \<Longrightarrow> eventfd_count (wakeup w) \<noteq> 0"
  by (simp add: wakeup_def)

lemma queue_simps [simp]:
  "pendingFunctors (queue_push f w) = pendingFunctors w @ [f]"
  "eventfd_count (queue_push f w) = eventfd_count w" "quit_flag (queue_push f w) = quit_flag w"
  "callingPendingFunctors (queue_push f w) = callingPendingFunctors w"
  "in_loop_thread (queue_push f w) = in_loop_thread w"
  "pendingFunctors (queue_wake w) = pendingFunctors w" "quit_flag (queue_wake w) = quit_flag w"
  "callingPendingFunctors (queue_wake w) = callingPendingFunctors w"
  by (simp_all add: queue_push_def queue_wake_def)

lemma queue_wake_count:
  "eventfd_count (queue_wake w) > 0 \<longleftrightarrow> eventfd_count w > 0 \<or> \<not> in_loop_thread w \<or> callingPendingFunctors w"
  by (auto simp: queue_wake_def)

lemma quit_simps [simp]:
  "pendingFunctors (quit w) = pendingFunctors w" "quit_flag (quit w)"
  "callingPendingFunctors (quit w) = callingPendingFunctors w"
  "eventfd_count w > 0 \<Longrightarrow> eventfd_count (quit w) > 0"
  by (simp_all add: quit_def Let_def)

lemma handleWakeup_simps [simp]:
  "pendingFunctors (handleWakeup w) = pendingFunctors w" "quit_flag (handleWakeup w) = quit_flag w"
  "callingPendingFunctors (handleWakeup w) = callingPendingFunctors w"
  by (simp_all add: handleWakeup_def)

lemma sched_step_inv:
  "sched_step s gs t \<Longrightarrow> sched_inv fs s \<Longrightarrow> sched_inv (fs @ gs) t"
proof (induction rule: sched_step.induct)
  case (own_queue s f)
  then show ?case
    by (auto simp: sched_inv_def queueInLoop_def queue_wake_count)
next
  case (other_wake s)
  then show ?case by (auto simp: sched_inv_def queue_wake_count)
qed (auto simp: sched_inv_def)

lemma sched_start_inv: "sched_start s \<Longrightarrow> sched_inv [] s"
  by (simp add: sched_start_def sched_inv_def)

interpretation sc: transition_system "\<lambda>p. fst p = [] \<and> sched_start (snd p)"
  "\<lambda>p q. \<exists>gs. sched_step (snd p) gs (snd q) \<and> fst q = fst p @ gs" "\<lambda>p. sched_inv (fst p) (snd p)"
  by unfold_locales (use sched_start_inv sched_step_inv in fastforce)+

lemma sched_run_steps:
  "sched_run s fs t \<Longrightarrow>
    (\<lambda>p q. \<exists>gs. sched_step (snd p) gs (snd q) \<and> fst q = fst p @ gs)\<^sup>*\<^sup>* ([], s) (fs, t)"
proof (induction rule: sched_run.induct)
  case (run_step fs t gs u)
  then show ?case by (elim rtranclp.rtrancl_into_rtrancl) auto
qed simp

lemma sched_run_inv:
  assumes "sched_start s" "sched_run s fs t"
  shows "sched_inv fs t"
  using sc.inv_reachable [of "([], s)", OF _ sched_run_steps [OF assms(2)]] assms(1) by simp

section \<open>Properties\<close>

text \<open>
  C16. No lost wakeup: in every interleaving of the loop with other threads, when the loop is
  blocked in \<open>epoll_wait\<close> with functors queued, the eventfd is readable or a thread that has pushed
  a functor has yet to write it; the same holds for a requested quit. So the loop never sleeps
  through a functor or a quit.
\<close>
theorem loop_no_lost_wakeup:
  assumes "sched_start s" "sched_run s fs t" "lpc t = InPoll"
  shows "(pendingFunctors (lp t) \<noteq> [] \<longrightarrow> eventfd_count (lp t) > 0 \<or> waking t > 0)
    \<and> (quit_flag (lp t) \<longrightarrow> eventfd_count (lp t) > 0 \<or> quitting t > 0)"
  using sched_run_inv [OF assms(1,2)] assms(3) by (simp add: sched_inv_def)


lemma requeue_all:
  assumes "\<And>f w. run_f f w = Some (queueInLoop (g f) w)" "callingPendingFunctors w"
  shows "\<exists>w'. run_all run_f fs w = Some w' \<and> pendingFunctors w' = pendingFunctors w @ map g fs
    \<and> callingPendingFunctors w' \<and> (fs \<noteq> [] \<or> eventfd_count w > 0 \<longrightarrow> eventfd_count w' > 0)"
  using assms(2)
proof (induction fs arbitrary: w)
  case Nil
  then show ?case by simp
next
  case (Cons f fs)
  let ?w1 = "queueInLoop (g f) w"
  have "callingPendingFunctors ?w1" "eventfd_count ?w1 > 0"
    using Cons.prems by (simp_all add: queueInLoop_def queue_wake_count)
  with Cons.IH [of ?w1] show ?case by (auto simp: assms(1)) (auto simp: queueInLoop_def)
qed

text \<open>
  A functor that queues another one (itself, say) does not keep the loop from polling: one
  call of \<open>doPendingFunctors\<close> runs the functors it found, what they queue is left for the next
  pass in order, and the eventfd has been made readable so that the next poll returns at once.
\<close>
theorem requeued_functors_wait:
  assumes "\<And>f w. run_f f w = Some (queueInLoop (g f) w)" "pendingFunctors w \<noteq> []"
  shows "\<exists>w'. doPendingFunctors run_f w = Some w' \<and> pendingFunctors w' = map g (pendingFunctors w)
    \<and> eventfd_count w' > 0 \<and> \<not> callingPendingFunctors w'"
proof -
  let ?w1 = "w\<lparr>callingPendingFunctors := True, pendingFunctors := []\<rparr>"
  from requeue_all [of run_f g ?w1 "pendingFunctors w"] assms obtain w' where
    "run_all run_f (pendingFunctors w) ?w1 = Some w'" "pendingFunctors w' = map g (pendingFunctors w)"
    "eventfd_count w' > 0" by auto
  then show ?thesis by (simp add: doPendingFunctors_def Let_def)
qed

text \<open>
  \<open>runInLoop\<close> and thread affinity: in the loop's thread the functor runs at once and nothing
  is queued; from another thread it is queued and the eventfd written, and updating or removing a
  channel there stops the process.
\<close>
theorem runInLoop_affinity:
  "(in_loop_thread w \<longrightarrow> runInLoop run_f f w = run_f f w)
    \<and> (\<not> in_loop_thread w \<longrightarrow> (\<exists>w'. runInLoop run_f f w = Some w' \<and> pendingFunctors w' = pendingFunctors w @ [f]
          \<and> eventfd_count w' > 0)
        \<and> loop_updateChannel c w = None \<and> loop_removeChannel c w = None)"
  by (simp add: runInLoop_def queueInLoop_def queue_wake_count loop_updateChannel_def loop_removeChannel_def
    assertInLoopThread_def abort_simps)

text \<open>Running the loop: nothing of the state survives from one pass to the next but the queue.\<close>

lemma loop_passes_quit: "quit_flag w \<Longrightarrow> loop_passes run run_f (r # rs) w = Some (w\<lparr>looping := False\<rparr>)"
  by simp

definition idle_loop :: "(nat, nat) loop" where
  "idle_loop = reactor.extend one_channel \<lparr>looping = False, quit_flag = False, loop_eventHandling = False,
     callingPendingFunctors = False, wakeup_channel = 0, eventfd_count = 0, activeChannels = [],
     currentHandingChannel = None, pendingFunctors = []\<rparr>"

definition idle_sched :: "(nat, nat) sched" where
  "idle_sched = \<lparr>lp = idle_loop, lpc = AtQuitTest, batch = [], waking = 0, quitting = 0, ran = []\<rparr>"

lemma idle_start: "sched_start idle_sched"
  by (simp add: sched_start_def idle_sched_def idle_loop_def reactor.extend_def)

lemma idle_run: "sched_run idle_sched [7] ((idle_sched\<lparr>lpc := InPoll\<rparr>)\<lparr>lp := queue_push 7 idle_loop, waking := 1\<rparr>)"
proof -
  have 1: "sched_step idle_sched [] (idle_sched\<lparr>lpc := InPoll\<rparr>)"
    using sched_step.test_quit [of idle_sched]
    by (simp add: idle_sched_def idle_loop_def reactor.extend_def)
  have 2: "sched_step (idle_sched\<lparr>lpc := InPoll\<rparr>) [7]
      ((idle_sched\<lparr>lpc := InPoll\<rparr>)\<lparr>lp := queue_push 7 idle_loop, waking := 1\<rparr>)"
    using sched_step.other_push [of "idle_sched\<lparr>lpc := InPoll\<rparr>" 7] by (simp add: idle_sched_def)
  from run_step [OF run_step [OF run_refl 1] 2] show ?thesis by simp
qed

theorem loop_no_lost_wakeup_witness:
  "\<exists>t :: (nat, nat) sched. sched_run idle_sched [7] t \<and> lpc t = InPoll \<and> pendingFunctors (lp t) = [7]
    \<and> (eventfd_count (lp t) > 0 \<or> waking t > 0)"
  using loop_no_lost_wakeup [OF idle_start idle_run] idle_run
  by (intro exI [of _ "(idle_sched\<lparr>lpc := InPoll\<rparr>)\<lparr>lp := queue_push 7 idle_loop, waking := 1\<rparr>"])
    (simp add: idle_sched_def idle_loop_def queue_push_def reactor.extend_def)


theorem requeued_functors_wait_witness:
  "\<exists>w'. doPendingFunctors (\<lambda>f w. Some (queueInLoop f w)) (queue_push 7 idle_loop) = Some w'
    \<and> pendingFunctors w' = [7]"
  using requeued_functors_wait [of "\<lambda>f w. Some (queueInLoop f w)" "\<lambda>f. f" "queue_push 7 idle_loop"]
  by (auto simp: idle_loop_def reactor.extend_def)

theorem runInLoop_affinity_witness:
  "\<exists>w'. runInLoop (\<lambda>f w. None) 7 (idle_loop\<lparr>in_loop_thread := False\<rparr>) = Some w'
    \<and> pendingFunctors w' = [7] \<and> loop_updateChannel 0 (idle_loop\<lparr>in_loop_thread := False\<rparr>) = None"
  using runInLoop_affinity [of "idle_loop\<lparr>in_loop_thread := False\<rparr>" "\<lambda>f w. None" 7 0]
  by (auto simp: idle_loop_def reactor.extend_def)

end
