(* ===== verification/LoopTimers.thy ===== *)
theory LoopTimers
  imports EventLoop
begin

text \<open>
  An event loop with its timer queue (\<open>matelib/EventLoop.cc\<close> and \<open>matelib/TimerQueue.cc\<close> together): the
  loop's thread polls, handles the wakeup channel and the timer channel and runs the queued functors, while
  other threads add and cancel timers, queue functors and quit.

  A step is what runs between two points where another thread can come in: one handled channel, one
  functor, one critical section. A run is any list of steps; a step that is not due changes nothing.
\<close>

section \<open>The loop and its user\<close>

datatype loop_token = WakeupRead | TimerRead

datatype task = TimerTask tq_functor | UserTask nat

text \<open>
  What user code calls in the loop's thread: a timer call, \<open>queueInLoop\<close> or \<open>quit\<close>. The user's program
  says what each timer callback and each of its functors does. What a timer callback queues is kept apart
  from its timer calls, which do not touch the queue of functors.
\<close>

datatype loop_call = Post nat | AskQuit

datatype user_call = TimerCall tq_call | LoopCall loop_call

record program =
  timer_calls :: "nat \<Rightarrow> tq_call list"
  timer_posts :: "nat \<Rightarrow> loop_call list"
  task_calls :: "nat \<Rightarrow> user_call list"

text \<open>
  The timer queue belongs to the loop; \<open>clock\<close> is what the next reading of the clock gives. If the
  allocator's answer given as an input is impossible, the call does not happen and \<open>impossible\<close> is set.
\<close>

record timer_loop = "(loop_token, task) loop" +
  timerQueue :: timer_queue
  clock :: timestamp
  tasks_run :: "nat list"
  impossible :: bool

definition with_timers :: "(timer_queue \<Rightarrow> timer_queue res) \<Rightarrow> timer_loop \<Rightarrow> timer_loop option" where
  "with_timers f w =
     (case f (timerQueue w) of
        Inr q \<Rightarrow> Some (w\<lparr>timerQueue := q\<rparr>)
      | Inl e \<Rightarrow> if e = BadAlloc then Some (w\<lparr>impossible := True\<rparr>) else None)"

fun exec_loop_call :: "loop_call \<Rightarrow> timer_loop \<Rightarrow> timer_loop" where
  "exec_loop_call (Post n) w = queueInLoop (UserTask n) w"
| "exec_loop_call AskQuit w = quit w"

fun exec_user :: "user_call \<Rightarrow> timer_loop \<Rightarrow> timer_loop option" where
  "exec_user (TimerCall c) w = with_timers (\<lambda>q. exec_call q c) w"
| "exec_user (LoopCall c) w = Some (exec_loop_call c w)"

text \<open>The callbacks of the two channels, and the functors.\<close>

fun run_token :: "program \<Rightarrow> loop_token \<Rightarrow> timer_loop \<Rightarrow> timer_loop option" where
  "run_token p WakeupRead w = Some (handleWakeup w)"
| "run_token p TimerRead w = do {
     assertInLoopThread w;
     w1 \<leftarrow> with_timers (handleRead (timer_calls p) (clock w)) w;
     let cbs = drop (length (fired (timerQueue w))) (fired (timerQueue w1));
     Some (fold exec_loop_call (concat (map (timer_posts p) cbs)) w1)
   }"

fun run_task :: "program \<Rightarrow> task \<Rightarrow> timer_loop \<Rightarrow> timer_loop option" where
  "run_task p (TimerTask f) w = do { assertInLoopThread w; with_timers (\<lambda>q. run_functor q f) w }"
| "run_task p (UserTask n) w = run_all exec_user (task_calls p n) (w\<lparr>tasks_run := tasks_run w @ [n]\<rparr>)"

text \<open>
  What another thread does up to its write to the eventfd: \<open>addTimer\<close> and \<open>cancelTimer\<close> leave the functor
  that \<open>runInLoop\<close> queues.
\<close>

datatype foreign_op = FAdd nat nat timestamp rat | FCancel timer_id | FPost nat | FQuit

definition push_tasks :: "tq_functor list \<Rightarrow> timer_loop \<Rightarrow> timer_loop" where
  "push_tasks fs w = fold (\<lambda>f. queue_push (TimerTask f)) fs w"

fun foreign :: "foreign_op \<Rightarrow> timer_loop \<Rightarrow> timer_loop option" where
  "foreign (FAdd addr cb wh interval) w =
     (case addTimer False (timerQueue w) addr cb wh interval of
        Inr (q, tid, fs) \<Rightarrow> Some (push_tasks fs (w\<lparr>timerQueue := q\<rparr>))
      | Inl e \<Rightarrow> if e = BadAlloc then Some (w\<lparr>impossible := True\<rparr>) else None)"
| "foreign (FCancel tid) w =
     (case cancelTimer False (timerQueue w) tid of
        Inr (q, fs) \<Rightarrow> Some (push_tasks fs (w\<lparr>timerQueue := q\<rparr>))
      | Inl e \<Rightarrow> None)"
| "foreign (FPost n) w = Some (queue_push (UserTask n) w)"
| "foreign FQuit w = Some (w\<lparr>quit_flag := True\<rparr>)"

section \<open>Steps and runs\<close>

text \<open>
  \<open>tpc\<close> is where the loop's thread is, \<open>numEvents\<close> its local variable, \<open>todo\<close> the active channels it has still to handle, \<open>tbatch\<close> the
  functors of its batch, \<open>wakers\<close> the number of threads that have still to write the eventfd.
\<close>

record tl_sys =
  tw :: timer_loop
  tpc :: loop_pc
  numEvents :: int
  todo :: "nat list"
  tbatch :: "task list"
  wakers :: nat

datatype tl_event = TestQuit | Report "(events \<times> nat) list option" | Handle timestamp | Swap | RunTask | BatchDone
  | Foreign foreign_op | ForeignWake

text \<open>What \<open>epoll_wait\<close> can return: channels registered with the kernel, each once, no more than there is room for.\<close>

definition watched_chan :: "('c, 'm) reactor_scheme \<Rightarrow> nat \<Rightarrow> bool" where
  "watched_chan w c \<longleftrightarrow> (case chans w c of None \<Rightarrow> False | Some ch \<Rightarrow> interest w (ch_fd ch) = Some (ch_events ch, c))"

definition report_ok :: "(events \<times> nat) list option \<Rightarrow> ('c, 'm) reactor_scheme \<Rightarrow> bool" where
  "report_ok r w \<longleftrightarrow> (case r of None \<Rightarrow> True
     | Some evs \<Rightarrow> distinct (map snd evs) \<and> length evs \<le> evlist_size w \<and> list_all (\<lambda>e. watched_chan w (snd e)) evs)"

text \<open>The statements of \<open>EventLoop::loop\<close> and \<open>doPendingFunctors\<close>, one step each.\<close>

fun tl_exec :: "program \<Rightarrow> tl_event \<Rightarrow> tl_sys \<Rightarrow> tl_sys option" where
  "tl_exec p TestQuit s =
     (if tpc s = AtQuitTest then
        Some (if quit_flag (tw s) then s\<lparr>tpc := LoopEnded, tw := (tw s)\<lparr>looping := False\<rparr>\<rparr>
              else s\<lparr>tpc := InPoll, tw := (tw s)\<lparr>activeChannels := []\<rparr>\<rparr>)
      else Some s)"
| "tl_exec p (Report r) s =
     (if tpc s = InPoll \<and> report_ok r (tw s) then do {
        (w1, active, n) \<leftarrow> poller_poll r (activeChannels (tw s)) (tw s);
        let w2 = w1\<lparr>activeChannels := active\<rparr>;
        Some (if n > 0 then s\<lparr>tpc := Dispatching, numEvents := n, todo := active, tw := w2\<lparr>loop_eventHandling := True\<rparr>\<rparr>
              else s\<lparr>tpc := Dispatching, numEvents := n, todo := [], tw := w2\<rparr>)
      } else Some s)"
| "tl_exec p (Handle now) s =
     (if tpc s = Dispatching then
        (case todo s of
           [] \<Rightarrow> Some s
         | c # cs \<Rightarrow> do {
             w1 \<leftarrow> handleEvent (run_token p) c ((tw s)\<lparr>currentHandingChannel := Some c, clock := now\<rparr>);
             Some (s\<lparr>todo := cs, tw := w1\<rparr>)
           })
      else Some s)"
| "tl_exec p Swap s =
     (if tpc s = Dispatching \<and> todo s = [] then
        (let w = (if numEvents s > 0 then (tw s)\<lparr>currentHandingChannel := None, loop_eventHandling := False\<rparr> else tw s)
         in Some (s\<lparr>tpc := RunningBatch, tbatch := pendingFunctors w,
              tw := w\<lparr>callingPendingFunctors := True, pendingFunctors := []\<rparr>\<rparr>))
      else Some s)"
| "tl_exec p RunTask s =
     (if tpc s = RunningBatch then
        (case tbatch s of [] \<Rightarrow> Some s | f # fs \<Rightarrow> do { w1 \<leftarrow> run_task p f (tw s); Some (s\<lparr>tbatch := fs, tw := w1\<rparr>) })
      else Some s)"
| "tl_exec p BatchDone s =
     (if tpc s = RunningBatch \<and> tbatch s = [] then
        Some (s\<lparr>tpc := AtQuitTest, numEvents := 0, tw := (tw s)\<lparr>callingPendingFunctors := False\<rparr>\<rparr>)
      else Some s)"
| "tl_exec p (Foreign op) s = do {
     w1 \<leftarrow> foreign op (tw s);
     Some (s\<lparr>tw := w1, wakers := wakers s + 1\<rparr>)
   }"
| "tl_exec p ForeignWake s =
     (if 0 < wakers s then Some (s\<lparr>tw := wakeup (tw s), wakers := wakers s - 1\<rparr>) else Some s)"

definition tl_run :: "program \<Rightarrow> tl_event list \<Rightarrow> tl_sys \<Rightarrow> tl_sys option" where
  "tl_run p es s = run_all (tl_exec p) es s"

definition tl_start :: "timer_loop \<Rightarrow> tl_sys" where
  "tl_start w = \<lparr>tw = w\<lparr>looping := True\<rparr>, tpc = AtQuitTest, numEvents = 0, todo = [], tbatch = [], wakers = 0\<rparr>"

section \<open>The invariant\<close>

text \<open>
  The timers whose registration is on its way are owned by functors in flight. \<open>tq_good one\<close> adds, for a
  program without repeating timers, that the descriptor is armed for the first timer.
\<close>

definition adds :: "task list \<Rightarrow> nat list" where
  "adds ts = concat (map (\<lambda>t. case t of TimerTask (AddTimerInLoop addr) \<Rightarrow> [addr] | _ \<Rightarrow> []) ts)"

lemma adds_simps [simp]:
  "adds [] = []" "adds (ts @ us) = adds ts @ adds us" "adds (UserTask n # ts) = adds ts"
  "adds (TimerTask (AddTimerInLoop addr) # ts) = addr # adds ts" "adds (TimerTask (CancelTimerInLoop tid) # ts) = adds ts"
  by (simp_all add: adds_def)

definition tq_good :: "bool \<Rightarrow> timer_queue \<Rightarrow> nat list \<Rightarrow> bool" where
  "tq_good one q own \<longleftrightarrow> tq_owns q own \<and> (one \<longrightarrow> once_keys q \<and> armed_first q)"

fun user_once :: "user_call \<Rightarrow> bool" where
  "user_once (TimerCall c) = call_once c"
| "user_once (LoopCall c) = True"

definition program_once :: "program \<Rightarrow> bool" where
  "program_once p \<longleftrightarrow> (\<forall>cb. list_all call_once (timer_calls p cb)) \<and> (\<forall>n. list_all user_once (task_calls p n))"

fun event_once :: "tl_event \<Rightarrow> bool" where
  "event_once (Foreign (FAdd addr cb wh interval)) = (interval \<le> 0)"
| "event_once _ = True"

definition read_only :: "'c \<Rightarrow> 'c channel \<Rightarrow> bool" where
  "read_only k ch \<longleftrightarrow> readCallback ch = Some k \<and> writeCallback ch = None \<and> closeCallback ch = None \<and> errorCallback ch = None"

definition channel_token :: "nat \<Rightarrow> loop_token option" where
  "channel_token c = (if c = 0 then Some WakeupRead else if c = 1 then Some TimerRead else None)"

definition chans_ok :: "(loop_token, 'm) reactor_scheme \<Rightarrow> bool" where
  "chans_ok w \<longleftrightarrow> (\<forall>c. case chans w c of None \<Rightarrow> channel_token c = None
     | Some ch \<Rightarrow> \<exists>k. channel_token c = Some k \<and> read_only k ch)"

text \<open>What holds while the loop's thread runs, with the batch \<open>ts\<close> still to run and \<open>n\<close> threads about to write.\<close>

definition tl_ok :: "bool \<Rightarrow> nat \<Rightarrow> task list \<Rightarrow> timer_loop \<Rightarrow> bool" where
  "tl_ok one n ts w \<longleftrightarrow> in_loop_thread w \<and> chans_ok w \<and> 1 \<le> evlist_size w
     \<and> tq_good one (timerQueue w) (adds (ts @ pendingFunctors w))
     \<and> (callingPendingFunctors w \<and> pendingFunctors w \<noteq> [] \<longrightarrow> eventfd_count w > 0 \<or> n > 0)"

definition tl_inv :: "bool \<Rightarrow> tl_sys \<Rightarrow> bool" where
  "tl_inv one s \<longleftrightarrow> tl_ok one (wakers s) (tbatch s) (tw s) \<and> callingPendingFunctors (tw s) = (tpc s = RunningBatch)
     \<and> (tpc s \<noteq> RunningBatch \<longrightarrow> tbatch s = []) \<and> set (todo s) \<subseteq> {0, 1}
     \<and> (tpc s = InPoll \<longrightarrow> activeChannels (tw s) = [])
     \<and> (tpc s \<noteq> Dispatching \<and> pendingFunctors (tw s) \<noteq> [] \<longrightarrow> eventfd_count (tw s) > 0 \<or> wakers s > 0)"

section \<open>Timer calls\<close>

lemma tq_good_rotate: "tq_good one q (p # own) = tq_good one q (own @ [p])"
  by (auto simp: tq_good_def tq_owns_def)

lemma tq_good_new: "tq_good one timer_queue_new []"
  by (simp add: tq_good_def once_keys_def armed_first_def) (simp add: timer_queue_new_def)

lemma new_timer_good:
  assumes "tq_good one q own" "one \<longrightarrow> interval \<le> 0"
  shows "safe_res (\<lambda>q'. tq_good one q' (p # own)) (new_timer q p (timer_new cb wh interval))"
proof -
  let ?q = "q\<lparr>heap := (heap q)(p \<mapsto> timer_new cb wh interval)\<rparr>"
  have "once_keys ?q \<and> armed_first ?q" if one "heap q p = None"
  proof -
    have "p \<notin> snd ` set (timers q)" using assms(1) that(2) by (auto simp: tq_good_def tq_owns_def)
    then have "\<forall>e \<in> set (timers q). snd e \<noteq> p" by auto
    with assms that show ?thesis by (auto simp: tq_good_def once_keys_def armed_first_def timer_new_def)
  qed
  with new_timer_owns [of q own p "timer_new cb wh interval"] assms(1) show ?thesis
    by (auto simp: tq_good_def new_timer_def split: if_splits)
qed

lemma add_good:
  assumes "tq_good one q (p # own)"
  shows "\<exists>q'. addTimerInLoop q p = Inr q' \<and> tq_good one q' own"
proof -
  from addTimerInLoop_owns [of q p own] assms obtain q' where q': "addTimerInLoop q p = Inr q'" "tq_owns q' own"
    by (auto simp: tq_good_def)
  with addTimerInLoop_once [OF q'(1)] addTimerInLoop_armed [OF q'(1)] assms show ?thesis
    by (auto simp: tq_good_def tq_owns_def)
qed

lemma cancel_good:
  assumes "tq_good one q own"
  shows "\<exists>q'. cancelTimerInLoop q tid = Inr q' \<and> tq_good one q' own"
proof -
  from cancelTimerInLoop_owns [of q own tid] assms obtain q' where q': "cancelTimerInLoop q tid = Inr q'" "tq_owns q' own"
    by (auto simp: tq_good_def)
  with cancelTimerInLoop_once [OF q'(1)] cancelTimerInLoop_armed [OF q'(1)] assms show ?thesis
    by (auto simp: tq_good_def)
qed

lemma exec_call_good:
  assumes "tq_good one q own" "one \<longrightarrow> call_once c"
  shows "safe_res (\<lambda>q'. tq_good one q' own) (exec_call q c)"
proof (cases c)
  case (CallAdd p cb wh interval)
  have "safe_res (\<lambda>q1. tq_good one q1 (p # own)) (new_timer q p (timer_new cb wh interval))"
    by (rule new_timer_good [OF assms(1)]) (use assms(2) CallAdd in simp)
  then have "safe_res (\<lambda>r. tq_good one (fst r) own) (addTimer True q p cb wh interval)"
    unfolding addTimer_def
  proof (rule safe_res_and_then)
    fix q1 assume "tq_good one q1 (p # own)"
    from add_good [OF this] show "safe_res (\<lambda>r. tq_good one (fst r) own)
      (and_then (run_in_loop True q1 (AddTimerInLoop p)) (\<lambda>(q2, fs). Inr (q2, (wh, p), fs)))"
      by (auto simp: run_in_loop_def)
  qed
  then have "safe_res (\<lambda>q'. tq_good one q' own) (and_then (addTimer True q p cb wh interval) (\<lambda>(q1, _). Inr q1))"
    by (rule safe_res_and_then) auto
  then show ?thesis by (simp only: CallAdd exec_call.simps)
next
  case (CallCancel tid)
  with cancel_good [OF assms(1), of tid] show ?thesis by (auto simp: cancelTimer_def run_in_loop_def)
qed

lemma handleRead_good:
  assumes "tq_good one q own" "one \<longrightarrow> (\<forall>cb. list_all call_once (beh cb))"
  shows "safe_res (\<lambda>q'. tq_good one q' own) (handleRead beh now q)"
proof (cases "handleRead beh now q")
  case (Inr q')
  have "tq_owns q own" using assms(1) by (simp add: tq_good_def)
  from handleRead_keeps_own [OF this, of beh now] handleRead_armed [OF this _ _ Inr] assms Inr show ?thesis
    by (auto simp: tq_good_def)
next
  case (Inl e)
  with handleRead_keeps_own [of q own beh now] assms(1) show ?thesis by (simp add: tq_good_def)
qed

section \<open>The loop's own steps\<close>

lemma wakeup_timer [simp]:
  "in_loop_thread (wakeup w) = in_loop_thread w" "chans (wakeup w) = chans w" "evlist_size (wakeup w) = evlist_size w"
  "activeChannels (wakeup w) = activeChannels w" "timerQueue (wakeup v) = timerQueue v" "chans_ok (wakeup u) = chans_ok u"
  by (simp_all add: wakeup_def chans_ok_def)

lemma exec_loop_call_ok:
  assumes "tl_ok one n ts w"
  shows "tl_ok one n ts (exec_loop_call c w) \<and> chans (exec_loop_call c w) = chans w
    \<and> callingPendingFunctors (exec_loop_call c w) = callingPendingFunctors w"
proof (cases c)
  case (Post m)
  let ?u = "queue_push (UserTask m) w"
  have "queueInLoop (UserTask m) w = (if callingPendingFunctors w then wakeup ?u else ?u)"
    using assms by (simp add: tl_ok_def queueInLoop_def queue_wake_def)
  moreover have "tl_ok one n ts ?u" if "\<not> callingPendingFunctors w"
    using assms that by (simp add: tl_ok_def queue_push_def chans_ok_def)
  moreover have "tl_ok one n ts (wakeup ?u)"
    using assms unfolding tl_ok_def wakeup_timer by (simp add: queue_push_def chans_ok_def)
  ultimately show ?thesis using Post by (simp add: wakeup_timer) (simp add: queue_push_def)
next
  case AskQuit
  with assms show ?thesis by (simp add: tl_ok_def quit_def chans_ok_def)
qed

lemma exec_loop_calls_ok:
  "tl_ok one n ts w \<Longrightarrow> tl_ok one n ts (fold exec_loop_call cs w) \<and> chans (fold exec_loop_call cs w) = chans w
    \<and> callingPendingFunctors (fold exec_loop_call cs w) = callingPendingFunctors w"
proof (induction cs arbitrary: w)
  case (Cons c cs)
  from exec_loop_call_ok [OF Cons.prems, of c] Cons.IH [of "exec_loop_call c w"] show ?case by simp
qed simp

lemma tl_ok_timers:
  "tl_ok one n ts w \<Longrightarrow> tq_good one q (adds (us @ pendingFunctors w)) \<Longrightarrow> tl_ok one n us (w\<lparr>timerQueue := q, impossible := b\<rparr>)"
  by (simp add: tl_ok_def chans_ok_def)

lemma with_timers_ok:
  assumes "tl_ok one n ts w" "safe_res (\<lambda>q'. tq_good one q' (adds (ts @ pendingFunctors w))) (f (timerQueue w))"
  shows "\<exists>q b. with_timers f w = Some (w\<lparr>timerQueue := q, impossible := b\<rparr>) \<and> tl_ok one n ts (w\<lparr>timerQueue := q, impossible := b\<rparr>)"
proof (cases "f (timerQueue w)")
  case (Inr q)
  with assms show ?thesis
    by (intro exI [of _ q] exI [of _ "impossible w"]) (simp add: with_timers_def, simp add: tl_ok_def chans_ok_def)
next
  case (Inl e)
  with assms show ?thesis
    by (intro exI [of _ "timerQueue w"] exI [of _ True]) (simp add: with_timers_def tl_ok_def chans_ok_def)
qed

lemma exec_user_ok:
  assumes "tl_ok one n ts w" "one \<longrightarrow> user_once c"
  shows "\<exists>w'. exec_user c w = Some w' \<and> tl_ok one n ts w' \<and> callingPendingFunctors w' = callingPendingFunctors w"
proof (cases c)
  case (TimerCall d)
  have g: "tq_good one (timerQueue w) (adds (ts @ pendingFunctors w))" using assms(1) by (simp add: tl_ok_def)
  from exec_call_good [OF g, of d] assms(2) TimerCall with_timers_ok [OF assms(1), where f = "\<lambda>q. exec_call q d"]
  obtain q b where "with_timers (\<lambda>q. exec_call q d) w = Some (w\<lparr>timerQueue := q, impossible := b\<rparr>)"
    "tl_ok one n ts (w\<lparr>timerQueue := q, impossible := b\<rparr>)" by auto
  with TimerCall show ?thesis by simp
next
  case (LoopCall d)
  with exec_loop_call_ok [OF assms(1), of d] show ?thesis by simp
qed

lemma exec_users_ok:
  "tl_ok one n ts w \<Longrightarrow> one \<longrightarrow> list_all user_once cs \<Longrightarrow>
    \<exists>w'. run_all exec_user cs w = Some w' \<and> tl_ok one n ts w' \<and> callingPendingFunctors w' = callingPendingFunctors w"
proof (induction cs arbitrary: w)
  case (Cons c cs)
  from exec_user_ok [OF Cons.prems(1), of c] Cons.prems(2) obtain w1 where
    w1: "exec_user c w = Some w1" "tl_ok one n ts w1" "callingPendingFunctors w1 = callingPendingFunctors w" by auto
  from Cons.IH [OF w1(2)] Cons.prems(2) w1 show ?case by simp
qed simp

lemma run_token_ok:
  assumes "tl_ok one n ts w" "\<not> callingPendingFunctors w" "one \<longrightarrow> program_once p"
  shows "\<exists>w'. run_token p k w = Some w' \<and> tl_ok one n ts w' \<and> chans w' = chans w \<and> \<not> callingPendingFunctors w'"
proof (cases k)
  case WakeupRead
  with assms show ?thesis by (auto simp: tl_ok_def handleWakeup_def chans_ok_def)
next
  case TimerRead
  have g: "tq_good one (timerQueue w) (adds (ts @ pendingFunctors w))" using assms(1) by (simp add: tl_ok_def)
  have "one \<longrightarrow> (\<forall>cb. list_all call_once (timer_calls p cb))" using assms(3) by (simp add: program_once_def)
  from with_timers_ok [OF assms(1), where f = "handleRead (timer_calls p) (clock w)"] handleRead_good [OF g this, of "clock w"] obtain q b where
    q: "with_timers (handleRead (timer_calls p) (clock w)) w = Some (w\<lparr>timerQueue := q, impossible := b\<rparr>)"
    "tl_ok one n ts (w\<lparr>timerQueue := q, impossible := b\<rparr>)" by blast
  let ?w1 = "w\<lparr>timerQueue := q, impossible := b\<rparr>"
  have "in_loop_thread w" using assms(1) by (simp add: tl_ok_def)
  with exec_loop_calls_ok [OF q(2)] q(1) TimerRead assms(2) show ?thesis
    by (simp add: assertInLoopThread_def abort_simps Let_def)
qed

lemma run_task_ok:
  assumes "tl_ok one n (f # ts) w" "callingPendingFunctors w" "one \<longrightarrow> program_once p"
  shows "\<exists>w'. run_task p f w = Some w' \<and> tl_ok one n ts w' \<and> callingPendingFunctors w'"
proof (cases f)
  case (TimerTask g)
  have i: "in_loop_thread w" and q: "tq_good one (timerQueue w) (adds ((f # ts) @ pendingFunctors w))"
    using assms(1) by (simp_all add: tl_ok_def)
  have "\<exists>q'. run_functor (timerQueue w) g = Inr q' \<and> tq_good one q' (adds (ts @ pendingFunctors w))"
    using q TimerTask add_good [of one "timerQueue w"] cancel_good [of one "timerQueue w"] by (cases g) auto
  then obtain q' where "run_functor (timerQueue w) g = Inr q'" "tq_good one q' (adds (ts @ pendingFunctors w))" by blast
  with tl_ok_timers [OF assms(1), of q' ts "impossible w"] i TimerTask assms(2) show ?thesis
    by (simp add: with_timers_def assertInLoopThread_def abort_simps)
next
  case (UserTask m)
  have "tl_ok one n ts (w\<lparr>tasks_run := tasks_run w @ [m]\<rparr>)" using assms(1) UserTask by (simp add: tl_ok_def chans_ok_def)
  from exec_users_ok [OF this, of "task_calls p m"] assms(2,3) UserTask show ?thesis by (simp add: program_once_def)
qed

section \<open>Handling a channel, and the report of \<open>epoll_wait\<close>\<close>

lemma tl_ok_chans:
  assumes "tl_ok one n ts w" "chans w c = Some ch" "readCallback ch' = readCallback ch" "writeCallback ch' = writeCallback ch"
    "closeCallback ch' = closeCallback ch" "errorCallback ch' = errorCallback ch"
  shows "tl_ok one n ts (w\<lparr>chans := (chans w)(c := Some ch')\<rparr>)"
proof -
  have "chans_ok w" using assms(1) by (simp add: tl_ok_def)
  then have "chans_ok (w\<lparr>chans := (chans w)(c := Some ch')\<rparr>)"
    using assms(2-6) unfolding chans_ok_def by (auto simp: read_only_def dest: spec [of _ c])
  with assms(1) show ?thesis by (simp add: tl_ok_def)
qed

lemma handleEvent_read_only:
  assumes "chans w c = Some ch" "read_only k ch" "w0 = w\<lparr>chans := (chans w)(c := Some (ch\<lparr>eventHandling := True\<rparr>))\<rparr>"
    "run k w0 = Some w1" "chans w1 = chans w0"
  shows "\<exists>v\<in>{w0, w1}. handleEvent run c w = Some (v\<lparr>chans := (chans v)(c := Some (ch\<lparr>eventHandling := False\<rparr>))\<rparr>)"
proof -
  let ?g = "ch\<lparr>eventHandling := True\<rparr>"
  have c0: "chans w0 c = Some ?g" "chans w1 c = Some ?g" using assms(3,5) by simp_all
  have u: "upd_channel c (\<lambda>ch. ch\<lparr>eventHandling := True\<rparr>) w = Some w0" using assms(1,3) by (simp add: upd_channel_def)
  have n: "call_if run c wants_close closeCallback w0 = Some w0" "call_if run c wants_error errorCallback w0 = Some w0"
    "call_if run c wants_write writeCallback w0 = Some w0" "call_if run c wants_write writeCallback w1 = Some w1"
    "call_if run c wants_read readCallback w0 = Some (if wants_read ?g then w1 else w0)"
    using c0 assms(2,4) by (simp_all add: call_if_def read_only_def)
  have e: "upd_channel c (\<lambda>ch. ch\<lparr>eventHandling := False\<rparr>) v = Some (v\<lparr>chans := (chans v)(c := Some (ch\<lparr>eventHandling := False\<rparr>))\<rparr>)"
    if "chans v c = Some ?g" for v
    using that by (simp add: upd_channel_def)
  show ?thesis by (cases "wants_read ?g") (simp_all add: handleEvent_def u n e [OF c0(1)] e [OF c0(2)])
qed

lemma handleEvent_ok:
  assumes "tl_ok one n ts w" "\<not> callingPendingFunctors w" "one \<longrightarrow> program_once p" "c \<in> {0, 1}"
  shows "\<exists>w'. handleEvent (run_token p) c w = Some w' \<and> tl_ok one n ts w' \<and> \<not> callingPendingFunctors w'"
proof -
  have ok: "chans_ok w" using assms(1) by (simp add: tl_ok_def)
  obtain k where k: "channel_token c = Some k" using assms(4) by (auto simp: channel_token_def)
  then obtain ch where ch: "chans w c = Some ch" "read_only k ch"
    using ok by (cases "chans w c") (auto simp: chans_ok_def dest!: spec [of _ c])
  let ?w0 = "w\<lparr>chans := (chans w)(c := Some (ch\<lparr>eventHandling := True\<rparr>))\<rparr>"
  have w0: "tl_ok one n ts ?w0" by (rule tl_ok_chans [OF assms(1) ch(1)]) simp_all
  have "\<not> callingPendingFunctors ?w0" using assms(2) by simp
  from run_token_ok [OF w0 this assms(3), of k] obtain w1 where
    w1: "run_token p k ?w0 = Some w1" "tl_ok one n ts w1" "chans w1 = chans ?w0" "\<not> callingPendingFunctors w1" by blast
  from handleEvent_read_only [OF ch refl, of "run_token p", OF w1(1,3)] obtain v where v: "v \<in> {?w0, w1}"
    "handleEvent (run_token p) c w = Some (v\<lparr>chans := (chans v)(c := Some (ch\<lparr>eventHandling := False\<rparr>))\<rparr>)" by blast
  have "chans v c = Some (ch\<lparr>eventHandling := True\<rparr>)" "tl_ok one n ts v" "\<not> callingPendingFunctors v"
    using v(1) w1 w0 assms(2) by auto
  with tl_ok_chans [of one n ts v c "ch\<lparr>eventHandling := True\<rparr>" "ch\<lparr>eventHandling := False\<rparr>"] v(2) show ?thesis by simp
qed

lemma watched_mono: "watched_chan w c \<Longrightarrow> chans w c \<noteq> None"
  by (auto simp: watched_chan_def split: option.splits)

lemma fill_ok:
  "tl_ok one n ts w \<Longrightarrow> \<forall>e\<in>set evs. chans w (snd e) \<noteq> None \<Longrightarrow>
    \<exists>w'. fillActiveChannels evs w = Some (w', map snd evs) \<and> tl_ok one n ts w'
      \<and> callingPendingFunctors w' = callingPendingFunctors w \<and> pendingFunctors w' = pendingFunctors w
      \<and> evlist_size w' = evlist_size w"
proof (induction evs arbitrary: w)
  case (Cons e evs)
  obtain ev c where e: "e = (ev, c)" by (cases e)
  with Cons.prems(2) obtain ch where ch: "chans w c = Some ch" by auto
  let ?w1 = "w\<lparr>chans := (chans w)(c := Some (setRevents ev ch))\<rparr>"
  have "tl_ok one n ts ?w1" by (rule tl_ok_chans [OF Cons.prems(1) ch]) (simp_all add: setRevents_def)
  moreover have "\<forall>e\<in>set evs. chans ?w1 (snd e) \<noteq> None" using Cons.prems(2) by simp
  ultimately obtain w' where "fillActiveChannels evs ?w1 = Some (w', map snd evs)" "tl_ok one n ts w'"
    "callingPendingFunctors w' = callingPendingFunctors w" "pendingFunctors w' = pendingFunctors w" "evlist_size w' = evlist_size w"
    using Cons.IH [of ?w1] by auto
  with ch e show ?case by (simp add: upd_channel_def)
qed simp

lemma poll_ok:
  assumes "tl_ok one n ts w" "report_ok r w"
  shows "\<exists>w' cs k. poller_poll r [] w = Some (w', cs, k) \<and> tl_ok one n ts w' \<and> set cs \<subseteq> {0, 1}
    \<and> callingPendingFunctors w' = callingPendingFunctors w"
proof (cases r)
  case None
  with assms(1) show ?thesis by (simp add: poller_poll_def)
next
  case (Some evs)
  have len: "length evs \<le> evlist_size w" and live: "\<forall>e\<in>set evs. chans w (snd e) \<noteq> None"
    using assms(2) Some watched_mono by (auto simp: report_ok_def list_all_iff)
  have "chans_ok w" using assms(1) by (simp add: tl_ok_def)
  then have two: "c \<in> {0, 1}" if "chans w c \<noteq> None" for c
    using that by (auto simp: chans_ok_def channel_token_def dest!: spec [of _ c] split: option.splits if_splits)
  have sub: "set (map snd evs) \<subseteq> {0, 1}"
  proof
    fix c assume "c \<in> set (map snd evs)"
    then obtain e where "e \<in> set evs" "c = snd e" by auto
    with live have "chans w c \<noteq> None" by simp
    then show "c \<in> {0, 1}" by (rule two)
  qed
  show ?thesis
  proof (cases "evs = []")
    case False
    from fill_ok [OF assms(1) live] obtain w' where w': "fillActiveChannels evs w = Some (w', map snd evs)" "tl_ok one n ts w'"
      "callingPendingFunctors w' = callingPendingFunctors w" by blast
    have "tl_ok one n ts (w'\<lparr>evlist_size := evlist_size w' * 2\<rparr>)" using w'(2) by (simp add: tl_ok_def chans_ok_def)
    let ?w2 = "if evlist_size w' = length evs then w'\<lparr>evlist_size := evlist_size w' * 2\<rparr> else w'"
    have "poller_poll r [] w = Some (?w2, map snd evs, int (length evs))"
      using w'(1) False len Some by (simp add: poller_poll_def abort_simps Let_def)
    moreover have "tl_ok one n ts ?w2"
      by (simp only: split: if_split) (use \<open>tl_ok one n ts (w'\<lparr>evlist_size := evlist_size w' * 2\<rparr>)\<close> w'(2) in blast)
    moreover have "callingPendingFunctors ?w2 = callingPendingFunctors w" using w'(3) by simp
    ultimately show ?thesis using sub by blast
  qed (use assms(1) Some in \<open>simp add: poller_poll_def abort_simps\<close>)
qed

section \<open>Any interleaving\<close>

lemma push_tasks_simps [simp]:
  "push_tasks [] w = w" "push_tasks (f # fs) w = push_tasks fs (queue_push (TimerTask f) w)"
  by (simp_all add: push_tasks_def)

text \<open>What a step of another thread leaves of the loop.\<close>

definition same_loop :: "timer_loop \<Rightarrow> timer_loop \<Rightarrow> bool" where
  "same_loop w w' \<longleftrightarrow> callingPendingFunctors w' = callingPendingFunctors w \<and> activeChannels w' = activeChannels w
     \<and> eventfd_count w' = eventfd_count w"

lemma foreign_ok:
  assumes "tl_ok one n ts w" "one \<longrightarrow> event_once (Foreign op)"
  shows "\<exists>w'. foreign op w = Some w' \<and> tl_ok one (n + 1) ts w' \<and> same_loop w w'"
proof (cases op)
  case (FAdd addr cb wh interval)
  let ?own = "adds (ts @ pendingFunctors w)" and ?r = "new_timer (timerQueue w) addr (timer_new cb wh interval)"
  have g: "tq_good one (timerQueue w) ?own" using assms(1) by (simp add: tl_ok_def)
  have "safe_res (\<lambda>q'. tq_good one q' (addr # ?own)) ?r"
    by (rule new_timer_good [OF g]) (use assms(2) FAdd in simp)
  then have n: "safe_res (\<lambda>q'. tq_good one q' (?own @ [addr])) ?r" by (simp only: tq_good_rotate)
  show ?thesis
  proof (cases ?r)
    case (Inr q)
    with n assms(1) FAdd show ?thesis
      by (simp add: addTimer_def run_in_loop_def queue_push_def tl_ok_def chans_ok_def same_loop_def)
  next
    case (Inl e)
    with n assms(1) FAdd show ?thesis by (simp add: addTimer_def tl_ok_def chans_ok_def same_loop_def)
  qed
next
  case (FCancel tid)
  with assms(1) show ?thesis
    by (simp add: cancelTimer_def run_in_loop_def queue_push_def tl_ok_def chans_ok_def same_loop_def)
next
  case (FPost m)
  with assms(1) show ?thesis by (simp add: queue_push_def tl_ok_def chans_ok_def same_loop_def)
next
  case FQuit
  with assms(1) show ?thesis by (simp add: tl_ok_def chans_ok_def same_loop_def)
qed

lemma tl_inv_step:
  assumes "tl_inv one s" "one \<longrightarrow> program_once p \<and> event_once e"
  shows "\<exists>s'. tl_exec p e s = Some s' \<and> tl_inv one s'"
proof -
  have ok: "tl_ok one (wakers s) (tbatch s) (tw s)" and
    cp: "callingPendingFunctors (tw s) = (tpc s = RunningBatch)" and b: "tpc s \<noteq> RunningBatch \<Longrightarrow> tbatch s = []" and
    t: "set (todo s) \<subseteq> {0, 1}" and a: "tpc s = InPoll \<Longrightarrow> activeChannels (tw s) = []" and
    wk: "tpc s \<noteq> Dispatching \<Longrightarrow> pendingFunctors (tw s) \<noteq> [] \<Longrightarrow> eventfd_count (tw s) > 0 \<or> wakers s > 0"
    using assms(1) by (simp_all add: tl_inv_def)
  show ?thesis
  proof (cases e)
    case TestQuit
    with assms(1) show ?thesis by (auto simp: tl_inv_def tl_ok_def chans_ok_def)
  next
    case (Report r)
    show ?thesis
    proof (cases "tpc s = InPoll \<and> report_ok r (tw s)")
      case True
      from poll_ok [OF ok, of r] True obtain w' cs k where
        w': "poller_poll r [] (tw s) = Some (w', cs, k)" "tl_ok one (wakers s) (tbatch s) w'" "set cs \<subseteq> {0, 1}"
        "callingPendingFunctors w' = callingPendingFunctors (tw s)" by blast
      have "tl_ok one (wakers s) (tbatch s) (w'\<lparr>activeChannels := cs\<rparr>)"
        "tl_ok one (wakers s) (tbatch s) (w'\<lparr>activeChannels := cs, loop_eventHandling := True\<rparr>)"
        using w'(2) by (simp_all add: tl_ok_def chans_ok_def)
      with w' True Report cp b a show ?thesis by (simp add: Let_def tl_inv_def)
    qed (use assms(1) Report in auto)
  next
    case (Handle now)
    show ?thesis
    proof (cases "tpc s = Dispatching \<and> todo s \<noteq> []")
      case True
      then obtain c cs where c: "todo s = c # cs" by (cases "todo s") auto
      let ?w = "(tw s)\<lparr>currentHandingChannel := Some c, clock := now\<rparr>"
      have w: "tl_ok one (wakers s) (tbatch s) ?w" "\<not> callingPendingFunctors ?w"
        using ok True cp by (simp_all add: tl_ok_def chans_ok_def)
      have "one \<longrightarrow> program_once p" "c \<in> {0, 1}" using assms(2) t c by auto
      from handleEvent_ok [OF w this] obtain w' where "handleEvent (run_token p) c ?w = Some w'"
        "tl_ok one (wakers s) (tbatch s) w'" "\<not> callingPendingFunctors w'" by blast
      with True Handle c t b show ?thesis by (simp add: tl_inv_def)
    qed (use assms(1) Handle in \<open>auto split: list.split\<close>)
  next
    case Swap
    show ?thesis
    proof (cases "tpc s = Dispatching \<and> todo s = []")
      case True
      then have "tbatch s = []" using b by simp
      with True ok Swap show ?thesis by (auto simp: Let_def tl_inv_def tl_ok_def chans_ok_def)
    qed (use assms(1) Swap in auto)
  next
    case RunTask
    show ?thesis
    proof (cases "tpc s = RunningBatch \<and> tbatch s \<noteq> []")
      case True
      then obtain f fs where f: "tbatch s = f # fs" by (cases "tbatch s") auto
      have "callingPendingFunctors (tw s)" "one \<longrightarrow> program_once p" using cp True assms(2) by auto
      from run_task_ok [OF ok [unfolded f] this] obtain w' where w': "run_task p f (tw s) = Some w'"
        "tl_ok one (wakers s) fs w'" "callingPendingFunctors w'" by blast
      then have "pendingFunctors w' \<noteq> [] \<longrightarrow> eventfd_count w' > 0 \<or> wakers s > 0" by (simp add: tl_ok_def)
      with w' True RunTask f t show ?thesis by (simp add: tl_inv_def)
    qed (use assms(1) RunTask in \<open>auto split: list.split\<close>)
  next
    case BatchDone
    show ?thesis
    proof (cases "tpc s = RunningBatch \<and> tbatch s = []")
      case True
      with ok BatchDone wk t show ?thesis by (simp add: tl_inv_def tl_ok_def chans_ok_def)
    qed (use assms(1) BatchDone in auto)
  next
    case (Foreign op)
    from foreign_ok [OF ok, of op] assms(2) Foreign obtain w' where
      "foreign op (tw s) = Some w'" "tl_ok one (wakers s + 1) (tbatch s) w'" "same_loop (tw s) w'" by auto
    with Foreign cp b t a show ?thesis by (simp add: tl_inv_def same_loop_def)
  next
    case ForeignWake
    have "tl_ok one n (tbatch s) (wakeup (tw s))" for n using ok by (simp add: tl_ok_def)
    with ForeignWake assms(1) cp b t a show ?thesis by (cases "wakers s = 0") (simp_all add: tl_inv_def)
  qed
qed

lemma tl_run_ok:
  "tl_inv one s \<Longrightarrow> one \<longrightarrow> program_once p \<and> list_all event_once es \<Longrightarrow> \<exists>s'. tl_run p es s = Some s' \<and> tl_inv one s'"
proof (induction es arbitrary: s)
  case (Cons e es)
  from tl_inv_step [OF Cons.prems(1), of p e] Cons.prems(2) obtain s1 where s1: "tl_exec p e s = Some s1" "tl_inv one s1" by auto
  from Cons.IH [OF s1(2)] Cons.prems(2) s1(1) show ?case by (simp add: tl_run_def)
qed (simp add: tl_run_def)

section \<open>A loop from its construction\<close>

text \<open>A loop as \<open>loop_new\<close> makes it, with the empty timer queue of its constructor.\<close>

definition with_queue :: "(loop_token, task) loop \<Rightarrow> timer_loop" where
  "with_queue l = loop.extend l \<lparr>timerQueue = timer_queue_new, clock = 0, tasks_run = [], impossible = False\<rparr>"

lemma loop_new_inv:
  assumes "loop_new epollfd timerfd evfd TimerRead WakeupRead False = Some l"
  shows "tl_inv one (tl_start (with_queue l)) \<and> \<not> looping l \<and> \<not> quit_flag l \<and> pendingFunctors l = []"
proof -
  let ?empty = "\<lparr>chans = (\<lambda>_. None), channels = (\<lambda>_. None), evlist_size = 16, interest = (\<lambda>_. None), in_loop_thread = True\<rparr>"
  let ?p = "?empty\<lparr>chans := (chans ?empty)(1 := Some (setReadCallback TimerRead (channel_new timerfd)))\<rparr>"
  from assms obtain p1 where p1: "enableReading 1 ?p = Some p1" and
    l: "enableReading 0 (reactor.extend (p1\<lparr>chans := (chans p1)(0 := Some (setReadCallback WakeupRead (channel_new evfd)))\<rparr>)
       \<lparr>looping = False, quit_flag = False, loop_eventHandling = False, callingPendingFunctors = False,
        wakeup_channel = 0, eventfd_count = 0, activeChannels = [], currentHandingChannel = None, pendingFunctors = []\<rparr>) = Some l"
    by (auto simp: loop_new_def poller_new_def timer_channel_new_def createTimerfd_def createEventfd_def abort_simps
        bind_eq_Some_conv Let_def split: if_splits)
  from enableReading_frame [OF p1] obtain e st where c1: "in_loop_thread p1" "evlist_size p1 = 16"
    "\<forall>d. d \<noteq> 1 \<longrightarrow> chans p1 d = None"
    "chans p1 1 = Some ((setReadCallback TimerRead (channel_new timerfd))\<lparr>ch_events := e, ch_state := st\<rparr>)" by auto
  from enableReading_frame [OF l] obtain e' st' where c0: "in_loop_thread l" "evlist_size l = 16"
    "\<forall>d. d \<noteq> 0 \<longrightarrow> chans l d = chans p1 d"
    "chans l 0 = Some ((setReadCallback WakeupRead (channel_new evfd))\<lparr>ch_events := e', ch_state := st'\<rparr>)"
    using c1(1,2) by (auto simp: reactor.extend_def)
  have "chans_ok l"
    using c0(3,4) c1(3,4)
    by (auto simp: chans_ok_def channel_token_def read_only_def setReadCallback_def channel_new_def split: option.split)
  moreover have "\<not> looping l \<and> \<not> quit_flag l \<and> \<not> callingPendingFunctors l \<and> pendingFunctors l = []"
  proof -
    let ?q = "reactor.extend (p1\<lparr>chans := (chans p1)(0 := Some (setReadCallback WakeupRead (channel_new evfd)))\<rparr>)
       \<lparr>looping = False, quit_flag = False, loop_eventHandling = False, callingPendingFunctors = False,
        wakeup_channel = 0, eventfd_count = 0, activeChannels = [], currentHandingChannel = None, pendingFunctors = []\<rparr>"
    have "reactor.more l = reactor.more ?q" using l by (simp only: enableReading_def set_events_more)
    then show ?thesis by (cases l) (simp add: reactor.extend_def)
  qed
  ultimately show ?thesis using c0(1,2) tq_good_new
    by (simp add: tl_inv_def tl_start_def tl_ok_def with_queue_def loop.extend_def chans_ok_def)
qed

section \<open>A pass of the loop is a run\<close>

lemma tl_run_Cons: "tl_run p (e # es) s = tl_exec p e s \<bind> tl_run p es"
  by (simp add: tl_run_def [abs_def])

lemma tl_run_append: "tl_run p (es @ fs) s = tl_run p es s \<bind> tl_run p fs"
  by (simp add: tl_run_def [abs_def] run_all_append)

lemma dispatch_run:
  "tpc s = Dispatching \<Longrightarrow> todo s = cs \<Longrightarrow>
    \<exists>es. tl_run p es s = map_option (\<lambda>w. s\<lparr>todo := [], tw := w\<rparr>) (handle_active (run_token p) cs (tw s))"
proof (induction cs arbitrary: s)
  case Nil
  then have "tl_run p [] s = Some (s\<lparr>todo := [], tw := tw s\<rparr>)" by (cases s) (simp add: tl_run_def)
  then show ?case by (intro exI [of _ "[]"]) simp
next
  case (Cons c cs)
  have e: "(tw s)\<lparr>currentHandingChannel := Some c, clock := clock (tw s)\<rparr> = (tw s)\<lparr>currentHandingChannel := Some c\<rparr>"
    by (cases "tw s") simp
  note step = tl_run_Cons [of p "Handle (clock (tw s))" _ s]
  show ?case
  proof (cases "handleEvent (run_token p) c ((tw s)\<lparr>currentHandingChannel := Some c\<rparr>)")
    case None
    then show ?thesis
      by (intro exI [of _ "[Handle (clock (tw s))]"]) (simp add: step e Cons.prems)
  next
    case (Some w1)
    from Cons.IH [of "s\<lparr>todo := cs, tw := w1\<rparr>"] Cons.prems(1) obtain es where
      "tl_run p es (s\<lparr>todo := cs, tw := w1\<rparr>) = map_option (\<lambda>w. s\<lparr>todo := [], tw := w\<rparr>) (handle_active (run_token p) cs w1)" by auto
    then show ?thesis
      by (intro exI [of _ "Handle (clock (tw s)) # es"]) (simp add: step e Cons.prems Some)
  qed
qed

lemma batch_run:
  "tpc s = RunningBatch \<Longrightarrow> tbatch s = fs \<Longrightarrow>
    \<exists>es. tl_run p es s = map_option (\<lambda>w. s\<lparr>tbatch := [], tw := w\<rparr>) (run_all (run_task p) fs (tw s))"
proof (induction fs arbitrary: s)
  case Nil
  then have "tl_run p [] s = Some (s\<lparr>tbatch := [], tw := tw s\<rparr>)" by (cases s) (simp add: tl_run_def)
  then show ?case by (intro exI [of _ "[]"]) simp
next
  case (Cons f fs)
  note step = tl_run_Cons [of p RunTask _ s]
  show ?case
  proof (cases "run_task p f (tw s)")
    case None
    then show ?thesis by (intro exI [of _ "[RunTask]"]) (simp add: step Cons.prems)
  next
    case (Some w1)
    from Cons.IH [of "s\<lparr>tbatch := fs, tw := w1\<rparr>"] Cons.prems(1) obtain es where
      "tl_run p es (s\<lparr>tbatch := fs, tw := w1\<rparr>) = map_option (\<lambda>w. s\<lparr>tbatch := [], tw := w\<rparr>) (run_all (run_task p) fs w1)" by auto
    then show ?thesis by (intro exI [of _ "RunTask # es"]) (simp add: step Cons.prems Some)
  qed
qed

definition resting :: "timer_loop \<Rightarrow> nat \<Rightarrow> tl_sys" where
  "resting w n = \<lparr>tw = w, tpc = AtQuitTest, numEvents = 0, todo = [], tbatch = [], wakers = n\<rparr>"

lemma report_ok_clear [simp]: "report_ok r (w\<lparr>activeChannels := cs\<rparr>) = report_ok r w"
  by (simp add: report_ok_def watched_chan_def split: option.split)

lemma pass_run:
  assumes "\<not> quit_flag w" "report_ok r w"
  shows "\<exists>es. tl_run p es (resting w n) = map_option (\<lambda>w'. resting w' n) (loop_body (run_token p) (run_task p) r w)"
proof -
  let ?w0 = "w\<lparr>activeChannels := []\<rparr>"
  let ?s0 = "\<lparr>tw = ?w0, tpc = InPoll, numEvents = 0, todo = [], tbatch = [], wakers = n\<rparr>"
  have start: "tl_run p (TestQuit # es) (resting w n) = tl_run p es ?s0" for es
    using assms(1) by (simp add: tl_run_Cons resting_def)
  show ?thesis
  proof (cases "poller_poll r [] ?w0")
    case None
    then have "tl_run p [TestQuit, Report r] (resting w n) = None"
      using assms(2) by (simp add: start) (simp add: tl_run_Cons)
    with None show ?thesis by (intro exI [of _ "[TestQuit, Report r]"]) (simp add: loop_body_def)
  next
    case (Some x)
    then obtain w1 cs k where poll: "poller_poll r [] ?w0 = Some (w1, cs, k)" by (cases x) auto
    let ?w2 = "w1\<lparr>activeChannels := cs\<rparr>"
    let ?cs = "if k > 0 then cs else []" and ?w3 = "if k > 0 then ?w2\<lparr>loop_eventHandling := True\<rparr> else ?w2"
    let ?s1 = "\<lparr>tw = ?w3, tpc = Dispatching, numEvents = k, todo = ?cs, tbatch = [], wakers = n\<rparr>"
    have rep: "tl_run p (Report r # es) ?s0 = tl_run p es ?s1" for es
      using assms(2) poll by (simp add: tl_run_Cons)
    from dispatch_run [of ?s1 ?cs p] obtain es1 where
      es1: "tl_run p es1 ?s1 = map_option (\<lambda>v. ?s1\<lparr>todo := [], tw := v\<rparr>) (handle_active (run_token p) ?cs ?w3)" by auto
    show ?thesis
    proof (cases "handle_active (run_token p) ?cs ?w3")
      case None
      then have "k > 0" by (auto split: if_splits)
      with None es1 poll show ?thesis
        by (intro exI [of _ "TestQuit # Report r # es1"]) (simp add: start rep loop_body_def)
    next
      case (Some v)
      let ?s2 = "?s1\<lparr>todo := [], tw := v\<rparr>" and
        ?v1 = "if k > 0 then v\<lparr>currentHandingChannel := None, loop_eventHandling := False\<rparr> else v"
      let ?v2 = "?v1\<lparr>callingPendingFunctors := True, pendingFunctors := []\<rparr>"
      let ?s3 = "\<lparr>tw = ?v2, tpc = RunningBatch, numEvents = k, todo = [], tbatch = pendingFunctors ?v1, wakers = n\<rparr>"
      have swap: "tl_run p (Swap # es) ?s2 = tl_run p es ?s3" for es by (simp add: tl_run_Cons Let_def)
      from batch_run [of ?s3 "pendingFunctors ?v1" p] obtain es2 where
        es2: "tl_run p es2 ?s3 = map_option (\<lambda>u. ?s3\<lparr>tbatch := [], tw := u\<rparr>) (run_all (run_task p) (pendingFunctors ?v1) ?v2)" by auto
      have fin: "tl_run p [BatchDone] \<lparr>tw = u, tpc = RunningBatch, numEvents = k, todo = [], tbatch = [], wakers = n\<rparr> = Some (resting (u\<lparr>callingPendingFunctors := False\<rparr>) n)" for u
        by (simp add: tl_run_def resting_def)
      have body: "loop_body (run_token p) (run_task p) r w = do { u \<leftarrow> run_all (run_task p) (pendingFunctors ?v1) ?v2; Some (u\<lparr>callingPendingFunctors := False\<rparr>) }"
        using poll Some by (cases "0 < k") (simp_all add: loop_body_def doPendingFunctors_def Let_def)
      have "tl_run p (TestQuit # Report r # es1 @ Swap # es2 @ [BatchDone]) (resting w n)
        = map_option (\<lambda>w'. resting w' n) (loop_body (run_token p) (run_task p) r w)"
        unfolding start rep tl_run_append es1 Some body option.map bind.bind_lunit swap es2
        by (cases "run_all (run_task p) (pendingFunctors ?v1) ?v2") (simp_all add: fin)
      then show ?thesis by blast
    qed
  qed
qed

text \<open>Passes of \<open>EventLoop::loop\<close> with no other thread around.\<close>

fun reports_ok :: "program \<Rightarrow> (events \<times> nat) list option list \<Rightarrow> timer_loop \<Rightarrow> bool" where
  "reports_ok p [] w = True"
| "reports_ok p (r # rs) w =
     (quit_flag w \<or> report_ok r w \<and>
       (case loop_body (run_token p) (run_task p) r w of None \<Rightarrow> True | Some w' \<Rightarrow> reports_ok p rs w'))"

lemma tl_inv_resting: "tl_inv one (resting w n) \<Longrightarrow> tq_good one (timerQueue w) (adds (pendingFunctors w))"
  by (simp add: tl_inv_def tl_ok_def resting_def)

lemma passes_ok:
  "tl_inv False (resting w 0) \<Longrightarrow> reports_ok p rs w \<Longrightarrow>
    \<exists>w'. loop_passes (run_token p) (run_task p) rs w = Some w' \<and> tq_good False (timerQueue w') (adds (pendingFunctors w'))"
proof (induction rs arbitrary: w)
  case Nil
  then show ?case using tl_inv_resting by simp
next
  case (Cons r rs)
  show ?case
  proof (cases "quit_flag w")
    case True
    with tl_inv_resting [OF Cons.prems(1)] show ?thesis by simp
  next
    case False
    with Cons.prems(2) have r: "report_ok r w" by simp
    from pass_run [OF False r] obtain es where
      es: "tl_run p es (resting w 0) = map_option (\<lambda>w'. resting w' 0) (loop_body (run_token p) (run_task p) r w)" by blast
    from tl_run_ok [OF Cons.prems(1), of p es] obtain s' where s': "tl_run p es (resting w 0) = Some s'" "tl_inv False s'" by auto
    from s'(1) es obtain w1 where w1: "loop_body (run_token p) (run_task p) r w = Some w1" "s' = resting w1 0"
      by (cases "loop_body (run_token p) (run_task p) r w") simp_all
    from Cons.IH [of w1] s'(2) w1 Cons.prems(2) False show ?thesis by simp
  qed
qed

lemma destroy_owns:
  "heap q0 = heap q \<Longrightarrow> tq_owns q own \<Longrightarrow> timers q = es \<Longrightarrow> \<exists>q'. destroy_loop q0 es = Inr q' \<and> dom (heap q') = set own"
proof (induction es arbitrary: q q0)
  case (Cons e es)
  let ?q = "q\<lparr>heap := (heap q)(snd e := None), timers := es\<rparr>" and ?r = "q0\<lparr>heap := (heap q0)(snd e := None)\<rparr>"
  have "heap q0 (snd e) \<noteq> None" using tq_owns_live [OF Cons.prems(2), of e] Cons.prems(1,3) by auto
  moreover have "tq_owns ?q own" using Cons.prems(2,3) by (auto simp: tq_owns_def)
  then have "\<exists>q'. destroy_loop ?r es = Inr q' \<and> dom (heap q') = set own" using Cons.IH [of ?r ?q] Cons.prems(1) by simp
  ultimately show ?case by (simp add: delete_timer_def)
qed (simp add: tq_owns_def)

section \<open>Properties\<close>


text \<open>
  C2. The life of the timers of a loop, whatever other threads do: in any interleaving of the loop with threads
  that add and cancel timers, queue functors and quit, no assertion fails and no timer is used after it is
  freed; every live timer is registered or owned by one functor on its way; and when the loop is destroyed
  each registered timer is deleted once. Those on their way are not: they leak.
\<close>
theorem loop_timers_safe:
  assumes "loop_new epollfd timerfd evfd TimerRead WakeupRead False = Some l"
  shows "\<exists>s q'. tl_run p es (tl_start (with_queue l)) = Some s
    \<and> tq_owns (timerQueue (tw s)) (adds (tbatch s @ pendingFunctors (tw s)))
    \<and> destroy_loop (timerQueue (tw s)) (timers (timerQueue (tw s))) = Inr q'
    \<and> dom (heap q') = set (adds (tbatch s @ pendingFunctors (tw s)))"
proof -
  from tl_run_ok [of False "tl_start (with_queue l)" p es] loop_new_inv [OF assms, of False] obtain s where
    s: "tl_run p es (tl_start (with_queue l)) = Some s" "tl_inv False s" by auto
  then have o: "tq_owns (timerQueue (tw s)) (adds (tbatch s @ pendingFunctors (tw s)))"
    by (simp add: tl_inv_def tl_ok_def tq_good_def)
  from destroy_owns [OF refl o refl] s(1) o show ?thesis by blast
qed

text \<open>
  C3. No timer is slept through: if no timer repeats, then in any interleaving, whenever the loop is blocked in
  \<open>epoll_wait\<close> with a timer alive, its descriptor is armed for a time no later than that timer, or the
  eventfd is readable, or a thread is about to write it.
\<close>
theorem no_timer_sleeps:
  assumes "loop_new epollfd timerfd evfd TimerRead WakeupRead False = Some l" "program_once p" "list_all event_once es"
    "tl_run p es (tl_start (with_queue l)) = Some s" "tpc s = InPoll" "heap (timerQueue (tw s)) addr = Some t"
  shows "(\<exists>a. armed (timerQueue (tw s)) = Some a \<and> a \<le> expiration t) \<or> eventfd_count (tw s) > 0 \<or> wakers s > 0"
proof (cases "pendingFunctors (tw s) = []")
  case False
  from tl_run_ok [of True "tl_start (with_queue l)" p es] loop_new_inv [OF assms(1), of True] assms(2-4)
  have "tl_inv True s" by auto
  with False assms(5) show ?thesis by (auto simp: tl_inv_def)
next
  case True
  from tl_run_ok [of True "tl_start (with_queue l)" p es] loop_new_inv [OF assms(1), of True] assms(2-4)
  have "tl_inv True s" by auto
  then have "tbatch s = []" "tl_ok True (wakers s) (tbatch s) (tw s)" using assms(5) by (auto simp: tl_inv_def)
  then have q: "tq_owns (timerQueue (tw s)) []" "once_keys (timerQueue (tw s))" "armed_first (timerQueue (tw s))"
    using True by (simp_all add: tl_ok_def tq_good_def)
  have "addr \<in> dom (heap (timerQueue (tw s)))" using assms(6) by auto
  with q(1) have "addr \<in> snd ` set (timers (timerQueue (tw s)))" by (simp add: tq_owns_def)
  then obtain e where e: "e \<in> set (timers (timerQueue (tw s)))" "snd e = addr" by blast
  with q(2) assms(6) have "expiration t = fst e" by (simp add: once_keys_def)
  with q(3) e(1) show ?thesis by (auto simp: armed_first_def)
qed


section \<open>Instances\<close>

lemma sample_loop: "\<exists>l. loop_new 3 4 5 TimerRead WakeupRead False = Some l"
  by (simp add: loop_new_def poller_new_def abort_simps timer_channel_new_def createTimerfd_def createEventfd_def enableReading_def
    set_events_def upd_channel_def updateChannel_def poller_update_def epoll_ctl_def setReadCallback_def channel_new_def
    setState_def reactor.extend_def Let_def kNew_def kDeleted_def kAdded_def)

definition idle_program :: program where
  "idle_program = \<lparr>timer_calls = (\<lambda>_. []), timer_posts = (\<lambda>_. []), task_calls = (\<lambda>_. [])\<rparr>"


text \<open>A timer added just before its loop is destroyed leaks.\<close>
theorem loop_timers_safe_witness:
  "\<exists>l s q'. loop_new 3 4 5 TimerRead WakeupRead False = Some l
    \<and> tl_run idle_program [Foreign (FAdd 1 7 100 0)] (tl_start (with_queue l)) = Some s
    \<and> destroy_loop (timerQueue (tw s)) (timers (timerQueue (tw s))) = Inr q' \<and> dom (heap q') = {1}"
proof -
  obtain l :: "(loop_token, task) loop" where l: "loop_new 3 4 5 TimerRead WakeupRead False = Some l" using sample_loop by blast
  let ?w = "with_queue l"
  have f: "timerQueue ?w = timer_queue_new" "pendingFunctors ?w = []"
    using loop_new_inv [OF l] by (simp_all add: with_queue_def loop.extend_def)
  have "adds (tbatch s @ pendingFunctors (tw s)) = [1]" if "tl_run idle_program [Foreign (FAdd 1 7 100 0)] (tl_start ?w) = Some s" for s
    using that f by (auto simp: tl_run_def tl_start_def addTimer_def new_timer_def timer_queue_new_def nullptr_def UINTPTR_MAX_def
        run_in_loop_def queue_push_def)
  with loop_timers_safe [OF l, of idle_program "[Foreign (FAdd 1 7 100 0)]"] l show ?thesis by fastforce
qed

theorem no_timer_sleeps_witness:
  "\<exists>l s t. loop_new 3 4 5 TimerRead WakeupRead False = Some l
    \<and> tl_run idle_program [Foreign (FAdd 1 7 100 0), ForeignWake, TestQuit, Report None, Swap, RunTask, BatchDone, TestQuit]
        (tl_start (with_queue l)) = Some s
    \<and> heap (timerQueue (tw s)) 1 = Some t
    \<and> ((\<exists>a. armed (timerQueue (tw s)) = Some a \<and> a \<le> expiration t) \<or> eventfd_count (tw s) > 0 \<or> wakers s > 0)"
proof -
  obtain l :: "(loop_token, task) loop" where l: "loop_new 3 4 5 TimerRead WakeupRead False = Some l" using sample_loop by blast
  let ?w = "with_queue l" and ?es = "[Foreign (FAdd 1 7 100 0), ForeignWake, TestQuit, Report None, Swap, RunTask, BatchDone, TestQuit]"
  have f: "timerQueue ?w = timer_queue_new" "pendingFunctors ?w = []" "\<not> quit_flag ?w" "in_loop_thread ?w"
    using loop_new_inv [OF l, of True] by (simp_all add: with_queue_def loop.extend_def tl_inv_def tl_ok_def tl_start_def)
  have once: "program_once idle_program" "list_all event_once ?es" by (simp_all add: program_once_def idle_program_def)
  obtain s t where s: "tl_run idle_program ?es (tl_start ?w) = Some s" "tpc s = InPoll" "heap (timerQueue (tw s)) 1 = Some t"
    using f by (simp add: tl_run_def tl_start_def addTimer_def new_timer_def timer_queue_new_def nullptr_def UINTPTR_MAX_def
        run_in_loop_def queue_push_def report_ok_def poller_poll_def with_timers_def assertInLoopThread_def abort_simps
        addTimerInLoop_def timer_new_def resetTimerfd_def Let_def)
  from no_timer_sleeps [OF l once s] l s show ?thesis by blast
qed


end
