(* ===== verification/Reactor.thy ===== *)
theory Reactor
  imports EventLoop
begin

text \<open>
  Many channels on one poller (\<open>matelib/EpollPoller.cc\<close>, the operations of \<open>Channel.h\<close>): each channel
  sees the shared poller as if it were alone. The theories of connections, clients and servers follow one
  channel at a time; this theory is why they may.
\<close>

section \<open>What one channel sees\<close>

text \<open>The poller with channel \<open>c\<close> and nothing else.\<close>

definition only :: "nat \<Rightarrow> ('c, 'm) reactor_scheme \<Rightarrow> ('c, 'm) reactor_scheme" where
  "only c w = w\<lparr>chans := (\<lambda>d. if d = c then chans w c else None),
     channels := (\<lambda>fd. if channels w fd = Some c then Some c else None),
     interest := (\<lambda>fd. if channels w fd = Some c then interest w fd else None)\<rparr>"

datatype chan_op = EnableReading | DisableReading | EnableWriting | DisableWriting | DisableAll | RemoveIt

fun chan_call :: "nat \<times> chan_op \<Rightarrow> ('c, 'm) reactor_scheme \<Rightarrow> ('c, 'm) reactor_scheme option" where
  "chan_call (c, EnableReading) w = enableReading c w"
| "chan_call (c, DisableReading) w = disableReading c w"
| "chan_call (c, EnableWriting) w = enableWriting c w"
| "chan_call (c, DisableWriting) w = disableWriting c w"
| "chan_call (c, DisableAll) w = disableAll c w"
| "chan_call (c, RemoveIt) w = channel_remove c w"

lemma only_simps [simp]:
  "chans (only c w) d = (if d = c then chans w c else None)"
  "channels (only c w) fd = (if channels w fd = Some c then Some c else None)"
  "interest (only c w) fd = (if channels w fd = Some c then interest w fd else None)"
  "in_loop_thread (only c w) = in_loop_thread w"
  by (simp_all add: only_def)

lemma only_inv: "poller_inv w \<Longrightarrow> poller_inv (only c w)"
  unfolding poller_inv_def kernel_entry_def by (auto split: option.splits)

text \<open>Each call either changes the events of interest or removes the channel.\<close>

lemma chan_call_cases:
  "(\<exists>f. \<forall>w :: ('c, 'm) reactor_scheme. chan_call (c, a) w = set_events c f w)
    \<or> (\<forall>w :: ('c, 'm) reactor_scheme. chan_call (c, a) w = channel_remove c w)"
  by (cases a) (auto simp: enableReading_def disableReading_def enableWriting_def disableWriting_def disableAll_def)

lemma set_events_possible:
  assumes "poller_inv w" "set_events c f w = Some w'"
  obtains ch where "can_update c w" "chans w c = Some ch" "w' = updated c ch (f (ch_events ch)) w"
proof -
  from assms(2) obtain ch where ch: "chans w c = Some ch"
    by (auto simp: set_events_def upd_channel_def split: option.splits)
  with assms(2) have "can_update c w"
    by (auto simp: set_events_def upd_channel_def updateChannel_def abort_simps can_update_def Let_def split: if_splits)
  from set_events_eq [OF assms(1) this ch, of f] assms(2) that [OF this ch] show thesis by simp
qed

lemma remove_possible:
  assumes "poller_inv w" "channel_remove c w = Some w'"
  obtains ch where "in_loop_thread w" "chans w c = Some ch" "isNoneEvent ch" "ch_state ch \<noteq> kNew" "w' = removed c ch w"
proof -
  from assms(2) obtain ch where ch: "chans w c = Some ch" by (auto simp: channel_remove_def bind_Some_iff)
  with assms(2) have p: "in_loop_thread w" "isNoneEvent ch" "ch_state ch \<noteq> kNew"
    by (auto simp: channel_remove_def removeChannel_def abort_simps Let_def split: if_splits)
  from channel_remove_eq [OF assms(1) p(1) ch p(2,3)] assms(2) that [OF p(1) ch p(2,3)] show thesis by simp
qed

section \<open>A channel's own operations, and those of the others\<close>

lemma only_own:
  assumes "chans w c = Some ch"
  shows "only c (updated c ch e w) = updated c ch e (only c w)" "only c (removed c ch w) = removed c ch (only c w)"
  by (simp_all add: only_def updated_def removed_def Let_def fun_eq_iff)

lemma only_other:
  assumes "d \<noteq> c" "channels w (ch_fd ch) \<noteq> Some c"
  shows "only c (updated d ch e w) = only c w" "only c (removed d ch w) = only c w"
proof -
  have "(\<lambda>fd. if fd \<noteq> ch_fd ch \<and> channels w fd = Some c then x fd else y) = (\<lambda>fd. if channels w fd = Some c then x fd else y)"
    for x :: "int \<Rightarrow> 'z" and y using assms(2) by (auto simp: fun_eq_iff)
  then show "only c (updated d ch e w) = only c w" "only c (removed d ch w) = only c w"
    using assms by (auto simp: only_def updated_def removed_def Let_def fun_eq_iff)
qed

lemma call_own:
  assumes "poller_inv w" "chan_call (c, a) w = Some w'"
  shows "poller_inv w'" "chan_call (c, a) (only c w) = Some (only c w')"
proof -
  have "poller_inv w' \<and> chan_call (c, a) (only c w) = Some (only c w')"
  proof (use chan_call_cases [of c a] in \<open>elim disjE exE\<close>)
    fix f assume 1: "\<forall>w :: ('a, 'b) reactor_scheme. chan_call (c, a) w = set_events c f w"
    from assms(2) 1 obtain ch where ch: "can_update c w" "chans w c = Some ch" "w' = updated c ch (f (ch_events ch)) w"
      using set_events_possible [OF assms(1)] by metis
    have "can_update c (only c w)" using ch(1,2) by (auto simp: can_update_def)
    from set_events_eq [OF only_inv [OF assms(1)] this, of ch f] 1 ch updated_inv [OF assms(1) ch(1,2)]
    show ?thesis by (simp add: only_own)
  next
    assume 2: "\<forall>w :: ('a, 'b) reactor_scheme. chan_call (c, a) w = channel_remove c w"
    from assms(2) 2 obtain ch where ch: "in_loop_thread w" "chans w c = Some ch" "isNoneEvent ch" "ch_state ch \<noteq> kNew"
      "w' = removed c ch w" using remove_possible [OF assms(1)] by metis
    from channel_remove_eq [OF only_inv [OF assms(1)], of c c ch] 2 ch removed_inv [OF assms(1) ch(2,4)]
    show ?thesis by (simp add: only_own)
  qed
  then show "poller_inv w'" "chan_call (c, a) (only c w) = Some (only c w')" by blast+
qed

lemma call_other:
  assumes "poller_inv w" "chan_call (d, a) w = Some w'" "d \<noteq> c"
  shows "only c w' = only c w"
proof -
  have fd: "channels w (ch_fd ch) \<noteq> Some c" if "chans w d = Some ch" "ch_state ch = kNew \<longrightarrow> channels w (ch_fd ch) = None" for ch
    using poller_inv_state [OF assms(1) that(1)] that(2) assms(3) by auto
  show ?thesis
  proof (use chan_call_cases [of d a] in \<open>elim disjE exE\<close>)
    fix f assume 1: "\<forall>w :: ('a, 'b) reactor_scheme. chan_call (d, a) w = set_events d f w"
    from assms(2) 1 obtain ch where "can_update d w" "chans w d = Some ch" "w' = updated d ch (f (ch_events ch)) w"
      using set_events_possible [OF assms(1)] by metis
    with only_other(1) [OF assms(3) fd] show ?thesis by (auto simp: can_update_def)
  next
    assume 2: "\<forall>w :: ('a, 'b) reactor_scheme. chan_call (d, a) w = channel_remove d w"
    from assms(2) 2 obtain ch where "chans w d = Some ch" "ch_state ch \<noteq> kNew" "w' = removed d ch w"
      using remove_possible [OF assms(1)] by metis
    with only_other(2) [OF assms(3) fd] show ?thesis by auto
  qed
qed

text \<open>The channels of a heap have descriptors of their own.\<close>

definition own_fds :: "('c, 'm) reactor_scheme \<Rightarrow> bool" where
  "own_fds w \<longleftrightarrow> (\<forall>c d a b. chans w c = Some a \<longrightarrow> chans w d = Some b \<longrightarrow> ch_fd a = ch_fd b \<longrightarrow> c = d)"

lemma call_own_fds:
  assumes "poller_inv w" "chan_call (c, a) w = Some w'" "own_fds w"
  shows "own_fds w'"
proof -
  have fds: "own_fds v" if "\<And>d b. chans v d = Some b \<Longrightarrow> \<exists>b'. chans w d = Some b' \<and> ch_fd b' = ch_fd b" for v :: "('a, 'b) reactor_scheme"
    using assms(3) that unfolding own_fds_def by metis
  show ?thesis
  proof (use chan_call_cases [of c a] in \<open>elim disjE exE\<close>)
    fix f assume 1: "\<forall>w :: ('a, 'b) reactor_scheme. chan_call (c, a) w = set_events c f w"
    from assms(2) 1 obtain ch where "chans w c = Some ch" "w' = updated c ch (f (ch_events ch)) w"
      using set_events_possible [OF assms(1)] by metis
    then show ?thesis by (intro fds) (auto simp: updated_def Let_def split: if_splits)
  next
    assume 2: "\<forall>w :: ('a, 'b) reactor_scheme. chan_call (c, a) w = channel_remove c w"
    from assms(2) 2 obtain ch where "chans w c = Some ch" "w' = removed c ch w"
      using remove_possible [OF assms(1)] by metis
    then show ?thesis by (intro fds) (auto simp: removed_def split: if_splits)
  qed
qed

lemma call_back:
  assumes "poller_inv w" "own_fds w" "chan_call (c, a) (only c w) \<noteq> None"
  shows "chan_call (c, a) w \<noteq> None"
proof (use chan_call_cases [of c a] in \<open>elim disjE exE\<close>)
  fix f assume 1: "\<forall>w :: ('a, 'b) reactor_scheme. chan_call (c, a) w = set_events c f w"
  with assms(3) obtain v where "set_events c f (only c w) = Some v" by auto
  from set_events_possible [OF only_inv [OF assms(1)] this] obtain ch where ch: "can_update c (only c w)" "chans w c = Some ch"
    by (auto split: if_splits)
  have "channels w (ch_fd ch) = None" if "ch_state ch = kNew"
  proof (rule ccontr)
    assume "channels w (ch_fd ch) \<noteq> None"
    then obtain d b where d: "channels w (ch_fd ch) = Some d" "chans w d = Some b" "ch_fd b = ch_fd ch" "ch_state b \<noteq> kNew"
      using poller_inv_registered [OF assms(1)] by fastforce
    with assms(2) ch(2) have "d = c" unfolding own_fds_def by metis
    with d ch(2) that show False by simp
  qed
  with ch have "can_update c w" by (auto simp: can_update_def)
  from set_events_eq [OF assms(1) this ch(2), of f] 1 show ?thesis by simp
next
  assume 2: "\<forall>w :: ('a, 'b) reactor_scheme. chan_call (c, a) w = channel_remove c w"
  with assms(3) obtain v where "channel_remove c (only c w) = Some v" by auto
  from remove_possible [OF only_inv [OF assms(1)] this] obtain ch where
    "in_loop_thread w" "chans w c = Some ch" "isNoneEvent ch" "ch_state ch \<noteq> kNew" by (auto split: if_splits)
  from channel_remove_eq [OF assms(1) this] 2 show ?thesis by simp
qed

section \<open>Any calls on any channels\<close>

abbreviation chan_calls :: "(nat \<times> chan_op) list \<Rightarrow> ('c, 'm) reactor_scheme \<Rightarrow> ('c, 'm) reactor_scheme option" where
  "chan_calls \<equiv> run_all chan_call"

abbreviation calls_of :: "nat \<Rightarrow> (nat \<times> chan_op) list \<Rightarrow> (nat \<times> chan_op) list" where
  "calls_of c \<equiv> filter (\<lambda>o1. fst o1 = c)"

lemma calls_project:
  "poller_inv w \<Longrightarrow> chan_calls ops w = Some w' \<Longrightarrow> poller_inv w' \<and> chan_calls (calls_of c ops) (only c w) = Some (only c w')"
proof (induction ops arbitrary: w)
  case (Cons op ops)
  obtain d a where op: "op = (d, a)" by (cases op)
  from Cons.prems(2) op obtain w1 where w1: "chan_call (d, a) w = Some w1" "chan_calls ops w1 = Some w'"
    by (auto simp: bind_Some_iff)
  note own = call_own [OF Cons.prems(1) w1(1)]
  note ih = Cons.IH [OF own(1) w1(2)]
  show ?case
  proof (cases "d = c")
    case True
    with op own(2) ih show ?thesis by simp
  next
    case False
    with op ih call_other [OF Cons.prems(1) w1(1) False] show ?thesis by simp
  qed
qed simp

lemma calls_combine:
  "poller_inv w \<Longrightarrow> own_fds w \<Longrightarrow> (\<And>c. chan_calls (calls_of c ops) (only c w) \<noteq> None) \<Longrightarrow> chan_calls ops w \<noteq> None"
proof (induction ops arbitrary: w)
  case (Cons op ops)
  obtain d a where op: "op = (d, a)" by (cases op)
  from Cons.prems(3) [of d] op have "chan_call (d, a) (only d w) \<noteq> None"
    by (cases "chan_call (d, a) (only d w)") simp_all
  from call_back [OF Cons.prems(1,2) this] obtain w1 where w1: "chan_call (d, a) w = Some w1" by blast
  note own = call_own [OF Cons.prems(1) w1]
  have "chan_calls (calls_of c ops) (only c w1) \<noteq> None" for c
    using Cons.prems(3) [of c] op own(2) call_other [OF Cons.prems(1) w1, of c] by (cases "d = c") auto
  from Cons.IH [OF own(1) call_own_fds [OF Cons.prems(1) w1 Cons.prems(2)] this] op w1 show ?case by simp
qed simp

text \<open>
  C20. Channels that share a poller do not disturb one another: any interleaving of calls on any channels with
  descriptors of their own passes the poller's assertions exactly if the calls of each channel, made on a
  poller with this channel only, pass them; and afterwards every channel is as its own calls alone leave
  it, in the heap, in the poller's map and in the kernel's interest list.
\<close>
theorem shared_poller_is_separate_pollers:
  assumes "poller_inv w" "own_fds w"
  shows "(chan_calls ops w \<noteq> None) = (\<forall>c. chan_calls (calls_of c ops) (only c w) \<noteq> None)
    \<and> (\<forall>w' c. chan_calls ops w = Some w' \<longrightarrow> chan_calls (calls_of c ops) (only c w) = Some (only c w'))"
  using calls_project [OF assms(1)] calls_combine [OF assms] by blast

text \<open>Two channels, one of which is removed.\<close>

definition two_channels :: "nat reactor" where
  "two_channels = \<lparr>chans = (\<lambda>c. if c = 0 then Some (channel_new 5) else if c = 1 then Some (channel_new 6) else None),
     channels = (\<lambda>_. None), evlist_size = 1, interest = (\<lambda>_. None), in_loop_thread = True\<rparr>"

theorem shared_poller_is_separate_pollers_witness:
  "\<exists>w'. chan_calls [(0, EnableReading), (1, EnableWriting), (0, DisableAll), (0, RemoveIt)] two_channels = Some w'
    \<and> chan_calls [(1, EnableWriting)] (only 1 two_channels) = Some (only 1 w')"
proof -
  let ?ops = "[(0, EnableReading), (1, EnableWriting), (0, DisableAll), (0, RemoveIt)]"
  have i: "poller_inv two_channels" "own_fds two_channels"
    by (auto simp: poller_inv_def two_channels_def kernel_entry_def channel_new_def kNew_def own_fds_def split: if_splits)
  have "chan_calls ?ops two_channels \<noteq> None"
    by (simp add: two_channels_def enableReading_def enableWriting_def disableAll_def set_events_def upd_channel_def
        updateChannel_def abort_simps channel_new_def kNew_def kAdded_def kDeleted_def poller_update_def epoll_ctl_def
        setState_def isNoneEvent_def kNoneEvent_def kReadEvent_def kWriteEvent_def epoll_bits channel_remove_def
        removeChannel_def)
  then obtain w' where w': "chan_calls ?ops two_channels = Some w'" by blast
  with shared_poller_is_separate_pollers [OF i, of ?ops] have
    "chan_calls (calls_of 1 ?ops) (only 1 two_channels) = Some (only 1 w')" by blast
  with w' show ?thesis by auto
qed

end
