(* ===== verification/EventLoopPool.thy ===== *)
theory EventLoopPool
  imports EventLoop Sync
begin

text \<open>
  \<open>matelib/EventLoopThread.h\<close>/\<open>.cc\<close> and \<open>matelib/EventLoopThreadPool.h\<close>/\<open>.cc\<close>: a thread that runs
  a loop of its own, with the handshake of its start, and the pool that deals new connections to
  the loops in turn. An \<open>EventLoop*\<close> is a number.
\<close>

section \<open>EventLoopThread\<close>

text \<open>Where the new thread is in \<open>threadFunc\<close>; its loop is a local variable of that function.\<close>

datatype elt_pc = NotStarted | ConstructsLoop | CallsInit | Publishes | Loops | Returned

(* src/matelib/EventLoopThread.h:31-36 EventLoopThread *)
record elt =
  elt_quit :: bool
  loop_ptr :: "nat option"
  elt_thread_started :: bool
  elt_cond :: cond
  initCallBack :: bool
  elt_pc :: elt_pc
  own_loop :: nat
  init_calls :: "nat list"
  start_result :: "nat option"
  quit_requested :: bool

(* src/matelib/EventLoopThread.cc:9-17 EventLoopThread::EventLoopThread *)
definition elt_new :: "bool \<Rightarrow> nat \<Rightarrow> elt" where
  "elt_new cb own = \<lparr>elt_quit = False, loop_ptr = None, elt_thread_started = False,
     elt_cond = \<lparr>blocked = [], released = []\<rparr>, initCallBack = cb, elt_pc = NotStarted, own_loop = own,
     init_calls = [], start_result = None, quit_requested = False\<rparr>"

text \<open>\<open>start\<close>: the thread is created; then the wait for \<open>loop_\<close>, tested again after each wakeup.\<close>

(* src/matelib/EventLoopThread.cc:32-39 EventLoopThread::start *)
definition elt_wait :: "elt \<Rightarrow> elt" where
  "elt_wait e =
     (case loop_ptr e of
        None \<Rightarrow> e\<lparr>elt_cond := cond_wait 0 (elt_cond e)\<rparr>
      | Some l \<Rightarrow> e\<lparr>start_result := Some l\<rparr>)"

(* src/matelib/EventLoopThread.cc:26-40 EventLoopThread::start *)
definition elt_start :: "elt \<Rightarrow> elt option" where
  "elt_start e = do {
     assertc (\<not> elt_thread_started e);
     let e1 = e\<lparr>elt_thread_started := True, elt_pc := ConstructsLoop\<rparr>;
     Some (elt_wait e1)
   }"

(* src/matelib/EventLoopThread.cc:42-57 EventLoopThread::threadFunc *)
definition threadFunc :: "elt \<Rightarrow> elt" where
  "threadFunc e =
     (case elt_pc e of
        NotStarted \<Rightarrow> e
      | ConstructsLoop \<Rightarrow> e\<lparr>elt_pc := CallsInit\<rparr>
      | CallsInit \<Rightarrow> (if initCallBack e then e\<lparr>init_calls := init_calls e @ [own_loop e], elt_pc := Publishes\<rparr>
                     else e\<lparr>elt_pc := Publishes\<rparr>)
      | Publishes \<Rightarrow> e\<lparr>loop_ptr := Some (own_loop e), elt_cond := cond_notify (elt_cond e), elt_pc := Loops\<rparr>
      | Loops \<Rightarrow> (if quit_requested e then e\<lparr>elt_pc := Returned\<rparr> else e)
      | Returned \<Rightarrow> e)"

text \<open>
  The destructor calls \<open>quit\<close> through \<open>loop_\<close>: a null pointer, or the address of the loop of a
  function that has returned, stops the process. The join then waits for \<open>threadFunc\<close>.
\<close>

(* src/matelib/EventLoopThread.cc:19-24 EventLoopThread::~EventLoopThread *)
definition elt_delete :: "elt \<Rightarrow> elt option" where
  "elt_delete e = do {
     let e1 = e\<lparr>elt_quit := True\<rparr>;
     l \<leftarrow> loop_ptr e1;
     assertc (elt_pc e1 \<noteq> Returned);
     Some (e1\<lparr>quit_requested := True\<rparr>)
   }"

inductive elt_step :: "elt \<Rightarrow> elt \<Rightarrow> bool" where
  child_runs: "elt_step e (threadFunc e)"
| starter_resumes: "0 \<in> set (released (elt_cond e)) \<Longrightarrow>
    elt_step e (elt_wait (e\<lparr>elt_cond := cond_resume 0 (elt_cond e)\<rparr>))"
| starter_spurious: "elt_step e (e\<lparr>elt_cond := cond_spurious 0 (elt_cond e)\<rparr>)"
| loop_quits: "elt_step e (e\<lparr>quit_requested := True\<rparr>)"

definition elt_inv :: "elt \<Rightarrow> bool" where
  "elt_inv e \<longleftrightarrow> elt_pc e \<noteq> NotStarted
     \<and> loop_ptr e = (if elt_pc e \<in> {Loops, Returned} then Some (own_loop e) else None)
     \<and> (start_result e \<noteq> None \<longrightarrow> start_result e = loop_ptr e)
     \<and> (loop_ptr e \<noteq> None \<longrightarrow> blocked (elt_cond e) = [])
     \<and> length (blocked (elt_cond e)) \<le> 1
     \<and> (elt_pc e \<in> {Publishes, Loops, Returned} \<longrightarrow> init_calls e = (if initCallBack e then [own_loop e] else []))
     \<and> (elt_pc e \<in> {ConstructsLoop, CallsInit} \<longrightarrow> init_calls e = [])
     \<and> length (blocked (elt_cond e)) + length (released (elt_cond e)) \<le> 1"

lemma elt_start_inv:
  assumes "elt_start (elt_new cb own) = Some e"
  shows "elt_inv e"
  using assms by (auto simp: elt_start_def elt_new_def elt_wait_def elt_inv_def cond_wait_def bind_Some_iff Let_def)

lemma notify_one: "length (blocked c) \<le> 1 \<Longrightarrow> blocked (cond_notify c) = []
    \<and> length (released (cond_notify c)) = length (released c) + length (blocked c)"
  by (cases "blocked c") (auto simp: cond_notify_def)

lemma threadFunc_inv: "elt_inv e \<Longrightarrow> elt_inv (threadFunc e)"
  using notify_one [of "elt_cond e"]
  by (cases "elt_pc e") (auto simp: threadFunc_def elt_inv_def)

lemma elt_wait_inv:
  assumes "elt_inv e" "blocked (elt_cond e) = []" "released (elt_cond e) = []"
  shows "elt_inv (elt_wait e)"
  using assms by (auto simp: elt_wait_def elt_inv_def cond_wait_def split: option.splits if_splits)

lemma elt_inv_cond:
  assumes "elt_inv e" "blocked c = []" "length (released c) \<le> 1"
  shows "elt_inv (e\<lparr>elt_cond := c\<rparr>)"
proof -
  have e: "elt_pc (e\<lparr>elt_cond := c\<rparr>) = elt_pc e" "loop_ptr (e\<lparr>elt_cond := c\<rparr>) = loop_ptr e"
    "own_loop (e\<lparr>elt_cond := c\<rparr>) = own_loop e" "start_result (e\<lparr>elt_cond := c\<rparr>) = start_result e"
    "init_calls (e\<lparr>elt_cond := c\<rparr>) = init_calls e" "initCallBack (e\<lparr>elt_cond := c\<rparr>) = initCallBack e"
    "elt_cond (e\<lparr>elt_cond := c\<rparr>) = c" by simp_all
  have c: "length (blocked c) \<le> 1" "length (blocked c) + length (released c) \<le> 1" using assms by simp_all
  show ?thesis unfolding elt_inv_def e using assms(1,2) c unfolding elt_inv_def by blast
qed

lemma elt_inv_quit [simp]: "elt_inv (e\<lparr>quit_requested := b\<rparr>) = elt_inv e"
  by (simp add: elt_inv_def)

lemma elt_step_inv: "elt_step e e' \<Longrightarrow> elt_inv e \<Longrightarrow> elt_inv e'"
proof (induction rule: elt_step.induct)
  case (child_runs e)
  then show ?case by (rule threadFunc_inv)
next
  case (starter_resumes e)
  then have i: "elt_inv e" and m: "0 \<in> set (released (elt_cond e))" by auto
  from i have "length (blocked (elt_cond e)) + length (released (elt_cond e)) \<le> 1"
    unfolding elt_inv_def by blast
  with m have b: "blocked (elt_cond e) = []" and r: "released (elt_cond e) = [0]"
    by (cases "released (elt_cond e)"; cases "blocked (elt_cond e)"; simp)+
  let ?e = "e\<lparr>elt_cond := cond_resume 0 (elt_cond e)\<rparr>"
  have c: "blocked (elt_cond ?e) = []" "released (elt_cond ?e) = []"
    using b r by (simp_all add: cond_resume_def)
  have "elt_inv ?e" by (rule elt_inv_cond [OF i]) (simp_all add: c [simplified])
  from elt_wait_inv [OF this c] show ?case .
next
  case (starter_spurious e)
  show ?case
  proof (cases "0 \<in> set (blocked (elt_cond e))")
    case True
    have "length (blocked (elt_cond e)) + length (released (elt_cond e)) \<le> 1"
      using starter_spurious unfolding elt_inv_def by blast
    with True have b: "blocked (elt_cond e) = [0]" "released (elt_cond e) = []"
      by (cases "blocked (elt_cond e)"; simp)+
    show ?thesis by (rule elt_inv_cond [OF starter_spurious]) (simp_all add: cond_spurious_def b)
  next
    case False
    with starter_spurious show ?thesis by (simp add: cond_spurious_def)
  qed
next
  case (loop_quits e)
  then show ?case by simp
qed

interpretation el: transition_system "\<lambda>e. \<exists>cb own. elt_start (elt_new cb own) = Some e" elt_step elt_inv
proof unfold_locales
  fix e assume "\<exists>cb own. elt_start (elt_new cb own) = Some e"
  then show "elt_inv e" using elt_start_inv by blast
qed (rule elt_step_inv)

section \<open>EventLoopThreadPool\<close>

(* src/matelib/EventLoopThreadPool.h:30-35 EventLoopThreadPool *)
record loop_pool =
  lp_started :: bool
  lp_threadNum :: nat
  next_index :: nat
  baseloop :: nat
  loops :: "nat list"
  lp_init_calls :: "nat list"

(* src/matelib/EventLoopThreadPool.cc:12-18 EventLoopThreadPool::EventLoopThreadPool *)
definition loop_pool_new :: "nat \<Rightarrow> nat \<Rightarrow> loop_pool" where
  "loop_pool_new base n = \<lparr>lp_started = False, lp_threadNum = n, next_index = 0, baseloop = base, loops = [],
     lp_init_calls = []\<rparr>"

text \<open>\<open>new_loops\<close> are the loops the threads' \<open>start\<close> returns, one per thread.\<close>

(* src/matelib/EventLoopThreadPool.cc:24-39 EventLoopThreadPool::start *)
definition loop_pool_start :: "bool \<Rightarrow> bool \<Rightarrow> nat list \<Rightarrow> loop_pool \<Rightarrow> loop_pool option" where
  "loop_pool_start in_base_thread cb new_loops p = do {
     assertc (\<not> lp_started p);
     assertc in_base_thread;
     assertc (length new_loops = lp_threadNum p);
     let p1 = p\<lparr>loops := loops p @ new_loops,
       lp_init_calls := lp_init_calls p @ (if cb then new_loops else [])\<rparr>;
     let p2 = (if lp_threadNum p1 = 0 \<and> cb then p1\<lparr>lp_init_calls := lp_init_calls p1 @ [baseloop p1]\<rparr> else p1);
     Some (p2\<lparr>lp_started := True\<rparr>)
   }"

text \<open>Reading past the end of \<open>loops_\<close> is a crash.\<close>

(* src/matelib/EventLoopThreadPool.cc:41-52 EventLoopThreadPool::getNextLoop *)
definition getNextLoop :: "bool \<Rightarrow> loop_pool \<Rightarrow> (loop_pool \<times> nat) option" where
  "getNextLoop in_base_thread p = do {
     assertc in_base_thread;
     if lp_threadNum p > 0 then do {
       assertc (next_index p < length (loops p));
       Some (p\<lparr>next_index := (next_index p + 1) mod lp_threadNum p\<rparr>, loops p ! next_index p)
     } else Some (p, baseloop p)
   }"

fun deal :: "nat \<Rightarrow> loop_pool \<Rightarrow> (loop_pool \<times> nat list) option" where
  "deal 0 p = Some (p, [])"
| "deal (Suc k) p = do {
     (p1, l) \<leftarrow> getNextLoop True p;
     (p2, ls) \<leftarrow> deal k p1;
     Some (p2, l # ls)
   }"

lemma deal_round_robin:
  assumes "length (loops p) = lp_threadNum p" "0 < lp_threadNum p" "next_index p < lp_threadNum p"
  shows "\<exists>p'. deal k p = Some (p', map (\<lambda>i. loops p ! ((next_index p + i) mod lp_threadNum p)) [0..<k])"
  using assms
proof (induction k arbitrary: p)
  case 0
  then show ?case by simp
next
  case (Suc k)
  let ?p1 = "p\<lparr>next_index := (next_index p + 1) mod lp_threadNum p\<rparr>"
  have n: "getNextLoop True p = Some (?p1, loops p ! next_index p)"
    using Suc.prems by (simp add: getNextLoop_def abort_simps)
  from Suc.IH [of ?p1] Suc.prems obtain p' where
    "deal k ?p1 = Some (p', map (\<lambda>i. loops p ! (((next_index p + 1) mod lp_threadNum p + i) mod lp_threadNum p)) [0..<k])"
    by auto
  moreover have "map (\<lambda>i. loops p ! ((next_index p + i) mod lp_threadNum p)) [0..<Suc k]
    = loops p ! next_index p # map (\<lambda>i. loops p ! (((next_index p + 1) mod lp_threadNum p + i) mod lp_threadNum p)) [0..<k]"
    using Suc.prems(3) by (simp add: map_upt_Suc mod_simps del: upt_Suc)
  ultimately show ?case using n by simp
qed

text \<open>The loops the pool deals out are its own, or the base loop when it has none.\<close>

lemma deal_loops:
  assumes "deal k p = Some (p', ls)" "l \<in> set ls"
  shows "if lp_threadNum p > 0 then l \<in> set (loops p) else l = baseloop p"
  using assms
proof (induction k arbitrary: p ls)
  case (Suc k)
  obtain p1 l1 where g: "getNextLoop True p = Some (p1, l1)"
    using Suc.prems(1) by (cases "getNextLoop True p") auto
  obtain q ls1 where "deal k p1 = Some (q, ls1)"
    using Suc.prems(1) g by (cases "deal k p1") auto
  with Suc.prems(1) g have d: "getNextLoop True p = Some (p1, l1)" "deal k p1 = Some (p', ls1)" "ls = l1 # ls1"
    by auto
  from d(1) have p1: "loops p1 = loops p" "lp_threadNum p1 = lp_threadNum p" "baseloop p1 = baseloop p"
    "if lp_threadNum p > 0 then l1 \<in> set (loops p) else l1 = baseloop p"
    by (auto simp: getNextLoop_def abort_simps split: if_splits)
  from Suc.prems(2) d(3) have "l = l1 \<or> l \<in> set ls1" by simp
  with Suc.IH [OF d(2)] p1 show ?case by metis
qed simp

section \<open>Properties\<close>

text \<open>
  \<open>EventLoopThread::start\<close> returns the address of the new thread's loop, only after the
  initialisation callback has been called on it exactly once; once \<open>loop_\<close> is set the starting
  thread is not left blocked.
\<close>
theorem loop_thread_start:
  assumes "elt_start (elt_new cb own) = Some e" "elt_step\<^sup>*\<^sup>* e e'"
  shows "(start_result e' = None \<or> start_result e' = Some (own_loop e') \<and> elt_pc e' \<in> {Loops, Returned}
        \<and> init_calls e' = (if initCallBack e' then [own_loop e'] else []))
    \<and> (loop_ptr e' = None \<or> blocked (elt_cond e') = [])"
proof -
  have "elt_inv e'" by (rule el.inv_reachable [OF _ assms(2)]) (use assms(1) in blast)
  then show ?thesis by (auto simp: elt_inv_def split: if_splits)
qed

text \<open>
  Deleting an \<open>EventLoopThread\<close> whose loop has already returned uses the loop that was a local
  variable of \<open>threadFunc\<close>; deleting one that was never started dereferences null.
\<close>
theorem loop_thread_delete_crashes:
  "elt_pc e = Returned \<or> loop_ptr e = None \<Longrightarrow> elt_delete e = None"
  by (auto simp: elt_delete_def abort_simps Let_def bind_eq_None_conv split: option.splits)

text \<open>
  The pool deals its loops in turn: after \<open>start\<close>, the k-th call of \<open>getNextLoop\<close> (from 0)
  returns loop k modulo the number of threads, or the base loop when the pool has none.
\<close>
theorem pool_round_robin:
  assumes "loop_pool_start True cb ls (loop_pool_new base n) = Some p"
  shows "\<exists>p'. deal k p = Some (p', map (\<lambda>i. if n = 0 then base else ls ! (i mod n)) [0..<k])"
proof (cases "n = 0")
  case True
  with assms have p: "lp_threadNum p = 0" "baseloop p = base"
    by (auto simp: loop_pool_start_def loop_pool_new_def bind_Some_iff Let_def split: if_splits)
  have "deal k p = Some (p, replicate k base)"
    using p by (induction k) (simp_all add: getNextLoop_def abort_simps)
  with True show ?thesis by (simp add: map_replicate_const)
next
  case False
  with assms have p: "lp_threadNum p = n" "loops p = ls" "length ls = n" "next_index p = 0"
    by (auto simp: loop_pool_start_def loop_pool_new_def bind_Some_iff Let_def split: if_splits)
  with False deal_round_robin [of p k] show ?thesis by simp
qed

theorem loop_thread_start_witness:
  "blocked (elt_cond (threadFunc (threadFunc (threadFunc (elt_wait ((elt_new True 3)\<lparr>elt_thread_started := True,
      elt_pc := ConstructsLoop\<rparr>)))))) = []"
proof -
  let ?e = "elt_wait ((elt_new True 3)\<lparr>elt_thread_started := True, elt_pc := ConstructsLoop\<rparr>)"
  have s: "elt_start (elt_new True 3) = Some ?e"
    by (simp add: elt_start_def elt_new_def abort_simps Let_def)
  have "elt_step\<^sup>*\<^sup>* ?e (threadFunc (threadFunc (threadFunc ?e)))"
    by (meson elt_step.child_runs rtranclp.rtrancl_into_rtrancl rtranclp.rtrancl_refl)
  from loop_thread_start [OF s this] show ?thesis
    by (simp add: elt_new_def elt_wait_def threadFunc_def)
qed

theorem loop_thread_delete_crashes_witness: "elt_delete (elt_new False 3) = None"
  by (rule loop_thread_delete_crashes) (simp add: elt_new_def)

theorem pool_round_robin_witness: "\<exists>p'. deal 3 ((loop_pool_new 9 2)\<lparr>loops := [5, 6], lp_started := True\<rparr>) = Some (p', [5, 6, 5])"
proof -
  have "loop_pool_start True False [5, 6] (loop_pool_new 9 2) = Some ((loop_pool_new 9 2)\<lparr>loops := [5, 6], lp_started := True\<rparr>)"
    by (simp add: loop_pool_start_def loop_pool_new_def abort_simps Let_def)
  from pool_round_robin [OF this, of 3] show ?thesis by (simp add: upt_rec)
qed

end
