(* ===== verification/InetAddress.thy ===== *)
theory InetAddress
  imports Prelude
begin

text \<open>
  \<open>matelib/InetAddress.h\<close>: an IPv4 address and port, and their printing. A \<open>sockaddr_in\<close> is its
  family, the four bytes of the address and the two bytes of the port in network order.
  \<open>inet_pton\<close> and \<open>inet_ntop\<close> are modelled as their manual pages say for \<open>AF_INET\<close>: four decimal
  numbers below 256, without leading zeros, separated by dots.
\<close>

section \<open>Library functions\<close>

definition AF_INET :: nat where "AF_INET = 2"

definition htons :: "nat \<Rightarrow> nat \<times> nat" where "htons p = (p div 256 mod 256, p mod 256)"

definition ntohs :: "nat \<times> nat \<Rightarrow> nat" where "ntohs b = 256 * fst b + snd b"

definition inet_ntop :: "nat list \<Rightarrow> string" where
  "inet_ntop bs = show_nat (bs ! 0) @ ''.'' @ show_nat (bs ! 1) @ ''.'' @ show_nat (bs ! 2) @ ''.'' @ show_nat (bs ! 3)"

text \<open>One field: decimal digits that are the number's own printed form.\<close>

definition octet :: "string \<Rightarrow> nat option" where
  "octet s = (if s \<noteq> [] \<and> list_all is_digit s \<and> dec_val s < 256 \<and> show_nat (dec_val s) = s
     then Some (dec_val s) else None)"

definition field :: "string \<Rightarrow> string \<times> string" where
  "field s = (let i = find_char (CHR ''.'') s in (take i s, drop (Suc i) s))"

definition inet_pton :: "string \<Rightarrow> nat list option" where
  "inet_pton s = (let (a, s1) = field s; (b, s2) = field s1; (c, s3) = field s2 in do {
     w \<leftarrow> octet a; x \<leftarrow> octet b; y \<leftarrow> octet c; z \<leftarrow> octet s3; Some [w, x, y, z] })"

section \<open>InetAddress\<close>

(* src/matelib/InetAddress.h:64-66 InetAddress *)
record sockaddr_in =
  sin_family :: nat
  sin_addr :: "nat list"
  sin_port :: "nat \<times> nat"

(* src/matelib/InetAddress.h:19-24 InetAddress::InetAddress(uint16_t) *)
definition inet_any :: "nat \<Rightarrow> sockaddr_in" where
  "inet_any port = \<lparr>sin_family = AF_INET, sin_addr = [0, 0, 0, 0], sin_port = htons port\<rparr>"

text \<open>An unreadable address leaves the zeros of \<open>bzero\<close>; the result of \<open>inet_pton\<close> is not checked.\<close>

(* src/matelib/InetAddress.h:25-30 InetAddress::InetAddress(const char*, uint16_t) *)
definition inet_of :: "string \<Rightarrow> nat \<Rightarrow> sockaddr_in" where
  "inet_of ip port = \<lparr>sin_family = AF_INET,
     sin_addr = (case inet_pton ip of Some bs \<Rightarrow> bs | None \<Rightarrow> [0, 0, 0, 0]), sin_port = htons port\<rparr>"

(* src/matelib/InetAddress.h:31-33 InetAddress::InetAddress(const sockaddr_in&) *)
definition inet_of_sockaddr :: "sockaddr_in \<Rightarrow> sockaddr_in" where
  "inet_of_sockaddr a = a"

(* src/matelib/InetAddress.h:36-39 InetAddress::operator= *)
definition inet_assign :: "sockaddr_in \<Rightarrow> sockaddr_in \<Rightarrow> sockaddr_in" where
  "inet_assign a rhs = rhs"

(* src/matelib/InetAddress.h:41-47 InetAddress::toPort *)
definition toPort :: "sockaddr_in \<Rightarrow> string" where
  "toPort a = take 15 (show_nat (ntohs (sin_port a)))"

(* src/matelib/InetAddress.h:49-54 InetAddress::toIp *)
definition toIp :: "sockaddr_in \<Rightarrow> string" where
  "toIp a = inet_ntop (sin_addr a)"

(* src/matelib/InetAddress.h:56-59 InetAddress::toIpPort *)
definition toIpPort :: "sockaddr_in \<Rightarrow> string" where
  "toIpPort a = toIp a @ '':'' @ toPort a"

section \<open>Lemmas\<close>

lemma dot_not_digit: "\<not> is_digit (CHR ''.'')" "\<not> is_digit (CHR '':'')"
  by (simp_all add: is_digit_def)

lemma no_dot: "CHR ''.'' \<notin> set (show_nat n)" "CHR '':'' \<notin> set (show_nat n)"
  using show_nat_digits dot_not_digit by blast+

lemma field_show: "field (show_nat n @ CHR ''.'' # s) = (show_nat n, s)"
  by (simp add: field_def find_char_append no_dot Let_def)

lemma octet_show: "n < 256 \<Longrightarrow> octet (show_nat n) = Some n"
  using show_nat_digits by (auto simp: octet_def list_all_iff)

lemma inet_pton_ntop:
  assumes "length bs = 4" "list_all (\<lambda>b. b < 256) bs"
  shows "inet_pton (inet_ntop bs) = Some bs"
proof -
  from assms(1) obtain a b c d where bs: "bs = [a, b, c, d]"
    by (auto simp: length_Suc_conv numeral_eq_Suc)
  with assms(2) show ?thesis
    by (simp add: inet_pton_def inet_ntop_def field_show octet_show Let_def)
qed

lemma ntohs_htons: "p < 65536 \<Longrightarrow> ntohs (htons p) = p"
  by (simp add: ntohs_def htons_def div_less_dividend less_mult_imp_div_less)

section \<open>Properties\<close>

text \<open>
  Addresses survive printing: an address built from the printed form of another and its port
  is that address, and the printed pair cut at the colon is host and port.
\<close>
theorem inet_roundtrip:
  assumes "length bs = 4" "list_all (\<lambda>b. b < 256) bs" "p < 65536"
  shows "let a = \<lparr>sin_family = AF_INET, sin_addr = bs, sin_port = htons p\<rparr>; s = toIpPort a;
      i = find_char (CHR '':'') s
    in inet_of (toIp a) p = a \<and> take i s = toIp a \<and> dec_val (drop (Suc i) s) = p"
proof -
  have "length (show_nat p) \<le> 5" using assms(3) by (intro length_show_nat) auto
  then have tp: "take 15 (show_nat p) = show_nat p" by simp
  have "CHR '':'' \<notin> set (inet_ntop bs)" using no_dot by (simp add: inet_ntop_def)
  then show ?thesis
    using assms tp
    by (simp add: toIpPort_def toIp_def toPort_def inet_of_def inet_pton_ntop ntohs_htons find_char_append Let_def)
qed

theorem inet_roundtrip_witness:
  "inet_of (inet_ntop [127, 0, 0, 1]) 8888 = \<lparr>sin_family = AF_INET, sin_addr = [127, 0, 0, 1], sin_port = htons 8888\<rparr>"
  using inet_roundtrip [of "[127, 0, 0, 1]" 8888] by (simp add: Let_def toIp_def)

end
