(* ===== verification/TcpConnection.thy ===== *)
theory TcpConnection
  imports EventLoop Buffer InetAddress
begin

text \<open>
  \<open>matelib/TcpConnection.h\<close> and \<open>.cc\<close>: one TCP connection in its event loop.

  The state extends the loop's by the connection's members and its kernel socket. The kernel's
  answers to the coming \<open>write\<close> and \<open>read\<close> calls are inputs (\<open>wscript\<close>: an empty list accepts all);
  \<open>sent\<close> is what the kernel has accepted. The user's callbacks and the owner's cleanup callback are
  parameters, functions of the whole state, recorded in \<open>user_calls\<close>. \<open>None\<close> is the process
  stopping at a failed assertion or in \<open>abort\<close>.
\<close>

section \<open>The kernel socket\<close>

datatype errno = EWOULDBLOCK | EPIPE | EOTHER

datatype wres = WAccept nat | WError errno

record ksock =
  sent :: string
  wr_shut :: bool
  closed :: bool
  keepalive :: bool
  nodelay :: bool
  wscript :: "wres list"
  rscript :: "read_result list"

text \<open>A write to a socket shut down for writing fails with EPIPE.\<close>

definition kwrite :: "string \<Rightarrow> ksock \<Rightarrow> ksock \<times> (errno + nat)" where
  "kwrite s k =
     (if wr_shut k then (k, Inl EPIPE)
      else case wscript k of
          [] \<Rightarrow> (k\<lparr>sent := sent k @ s\<rparr>, Inr (length s))
        | WAccept n # r \<Rightarrow> (k\<lparr>sent := sent k @ take n s, wscript := r\<rparr>, Inr (min n (length s)))
        | WError e # r \<Rightarrow> (k\<lparr>wscript := r\<rparr>, Inl e))"

section \<open>State\<close>

(* src/matelib/TcpConnection.h:65-65 TcpConnection::State *)
datatype conn_state = Connecting | Connected | Disconnecting | Disconnected

text \<open>Channel callbacks and queued functors bound to this connection.\<close>

datatype conn_cb = OnRead | OnWrite | OnClose | OnError

datatype conn_fun = SendInLoop string | ShutdownInLoop | ConnectionEstablished | ConnectionDestroyed

datatype user_call = ConnectionCallback bool | MessageCallback | CleanupCallback

(* src/matelib/TcpConnection.h:77-89 TcpConnection *)
record tcp = "(conn_cb, conn_fun) loop" +
  sockfd :: int
  state :: conn_state
  conn_name :: string
  chan :: nat
  localAddr :: sockaddr_in
  peerAddr :: sockaddr_in
  inputBuffer :: buffer
  outputBuffer :: buffer
  sock :: ksock
  user_calls :: "user_call list"

record hooks =
  on_connection :: "tcp \<Rightarrow> tcp option"
  on_message :: "tcp \<Rightarrow> tcp option"
  on_cleanup :: "tcp \<Rightarrow> tcp option"

text \<open>The construction in a loop, with a channel number that is free in its heap.\<close>

(* src/matelib/TcpConnection.cc:16-38 TcpConnection::TcpConnection *)
definition tcp_new ::
  "(conn_cb, conn_fun) loop \<Rightarrow> int \<Rightarrow> string \<Rightarrow> nat \<Rightarrow> sockaddr_in \<Rightarrow> sockaddr_in \<Rightarrow> ksock \<Rightarrow> tcp" where
  "tcp_new l fd name c la pa k =
     loop.extend (l\<lparr>chans := (chans l)(c := Some
         (setErrorCallback OnError (setCloseCallback OnClose (setWriteCallback OnWrite
           (setReadCallback OnRead (channel_new fd))))))\<rparr>)
       \<lparr>sockfd = fd, state = Connecting, conn_name = name, chan = c, localAddr = la, peerAddr = pa,
        inputBuffer = buffer_new, outputBuffer = buffer_new, sock = k, user_calls = []\<rparr>"

(* src/matelib/TcpConnection.cc:40-43 TcpConnection::~TcpConnection *)
definition tcp_delete :: "tcp \<Rightarrow> tcp option" where
  "tcp_delete w = channel_delete (chan w) (w\<lparr>sock := (sock w)\<lparr>closed := True\<rparr>\<rparr>)"

(* src/matelib/TcpConnection.h:75-75 TcpConnection::setState *)
definition set_state :: "conn_state \<Rightarrow> tcp \<Rightarrow> tcp" where
  "set_state s w = w\<lparr>state := s\<rparr>"

(* src/matelib/TcpConnection.h:41-41 TcpConnection::connected *)
definition connected :: "tcp \<Rightarrow> bool" where
  "connected w = (state w = Connected)"

definition call_user :: "user_call \<Rightarrow> (tcp \<Rightarrow> tcp option) \<Rightarrow> tcp \<Rightarrow> tcp option" where
  "call_user u f w = f (w\<lparr>user_calls := user_calls w @ [u]\<rparr>)"

section \<open>Sending\<close>

text \<open>The write of \<open>sendInThread\<close>: the new state, the error flag and \<open>nwrote\<close>.\<close>

(* src/matelib/TcpConnection.cc:114-126 TcpConnection::sendInThread *)
definition direct_write :: "string \<Rightarrow> tcp \<Rightarrow> tcp \<times> bool \<times> nat" where
  "direct_write s w =
     (case kwrite s (sock w) of
        (k, Inr n) \<Rightarrow> (w\<lparr>sock := k\<rparr>, False, n)
      | (k, Inl e) \<Rightarrow> (w\<lparr>sock := k\<rparr>, e \<noteq> EWOULDBLOCK \<and> e = EPIPE, 0))"

(* src/matelib/TcpConnection.cc:100-138 TcpConnection::sendInThread *)
definition sendInThread :: "string \<Rightarrow> tcp \<Rightarrow> tcp option" where
  "sendInThread s w = do {
     assertInLoopThread w;
     if state w = Disconnected then Some w
     else do {
       ch \<leftarrow> chans w (chan w);
       let (w1, error, nwrote) =
         (if \<not> isWriting ch \<and> readableBytes (outputBuffer w) = 0 then direct_write s w else (w, False, 0));
       if \<not> error \<and> length s - nwrote > 0 then do {
         ob \<leftarrow> append (outputBuffer w1) (drop nwrote s);
         let w2 = w1\<lparr>outputBuffer := ob\<rparr>;
         ch2 \<leftarrow> chans w2 (chan w2);
         if \<not> isWriting ch2 then enableWriting (chan w2) w2 else Some w2
       } else Some w1
     }
   }"

(* src/matelib/TcpConnection.cc:95-98 TcpConnection::sendInLoop *)
definition sendInLoop :: "string_piece \<Rightarrow> tcp \<Rightarrow> tcp option" where
  "sendInLoop m w = do { s \<leftarrow> sp_asString m; sendInThread s w }"

(* src/matelib/TcpConnection.cc:45-60 TcpConnection::send(const void* data, size_t) *)
definition send_data :: "string \<Rightarrow> tcp \<Rightarrow> tcp option" where
  "send_data s w =
     (if state w = Connected then
        if in_loop_thread w then sendInThread s w
        else Some (queueInLoop (SendInLoop s) w)
      else Some w)"

(* src/matelib/TcpConnection.cc:62-76 TcpConnection::send(const StringPiece&) *)
definition send_piece :: "string_piece \<Rightarrow> tcp \<Rightarrow> tcp option" where
  "send_piece m w =
     (if state w = Connected then do {
        s \<leftarrow> sp_asString m;
        if in_loop_thread w then sendInThread s w
        else Some (queueInLoop (SendInLoop s) w)
      } else Some w)"

text \<open>The buffer is the caller's; the result has it as it is after the call.\<close>

(* src/matelib/TcpConnection.cc:78-92 TcpConnection::send(Buffer* b) *)
definition send_buffer :: "buffer \<Rightarrow> tcp \<Rightarrow> (tcp \<times> buffer) option" where
  "send_buffer b w =
     (if state w = Connected then
        if in_loop_thread w then do {
          w1 \<leftarrow> sendInThread (slice (peek b) (peek b + readableBytes b) (bufvec b)) w;
          Some (w1, b)
        } else do {
          (b1, s) \<leftarrow> retrieveAllAsString b;
          Some (queueInLoop (SendInLoop s) w, b1)
        }
      else Some (w, b))"

(* src/matelib/TcpConnection.cc:150-157 TcpConnection::shutdownInLoop *)
definition shutdownInLoop :: "tcp \<Rightarrow> tcp option" where
  "shutdownInLoop w = do {
     assertInLoopThread w;
     ch \<leftarrow> chans w (chan w);
     Some (if \<not> isWriting ch then w\<lparr>sock := (sock w)\<lparr>wr_shut := True\<rparr>\<rparr> else w)
   }"

(* src/matelib/TcpConnection.cc:142-148 TcpConnection::shutdown *)
definition conn_shutdown :: "tcp \<Rightarrow> tcp option" where
  "conn_shutdown w =
     (if state w = Connected then
        let w1 = set_state Disconnecting w
        in if in_loop_thread w1 then shutdownInLoop w1 else Some (queueInLoop ShutdownInLoop w1)
      else Some w)"

section \<open>Life cycle\<close>

(* src/matelib/TcpConnection.cc:160-167 TcpConnection::connectionEstablished *)
definition connectionEstablished :: "hooks \<Rightarrow> tcp \<Rightarrow> tcp option" where
  "connectionEstablished h w = do {
     assertInLoopThread w;
     w1 \<leftarrow> enableReading (chan w) (set_state Connected w);
     call_user (ConnectionCallback (connected w1)) (on_connection h) w1
   }"

(* src/matelib/TcpConnection.cc:170-179 TcpConnection::connectionDestroyed *)
definition connectionDestroyed :: "hooks \<Rightarrow> tcp \<Rightarrow> tcp option" where
  "connectionDestroyed h w = do {
     assertInLoopThread w;
     w2 \<leftarrow> (if state w = Connected then do {
              w1 \<leftarrow> disableAll (chan w) (set_state Disconnected w);
              call_user (ConnectionCallback (connected w1)) (on_connection h) w1
            } else Some w);
     channel_remove (chan w2) w2
   }"

section \<open>Channel callbacks\<close>

(* src/matelib/TcpConnection.cc:231-243 TcpConnection::handleClose *)
definition handleClose :: "hooks \<Rightarrow> tcp \<Rightarrow> tcp option" where
  "handleClose h w = do {
     assertInLoopThread w;
     assertc (state w = Connected \<or> state w = Disconnecting);
     w1 \<leftarrow> disableAll (chan w) (set_state Disconnected w);
     w2 \<leftarrow> call_user (ConnectionCallback (connected w1)) (on_connection h) w1;
     call_user CleanupCallback (on_cleanup h) w2
   }"

text \<open>\<open>handleError\<close> only reads and logs the socket's pending error.\<close>

(* src/matelib/TcpConnection.cc:245-251 TcpConnection::handleError *)
definition handleError :: "tcp \<Rightarrow> tcp option" where
  "handleError w = Some w"

text \<open>The next result of \<open>readv\<close>; without one, the peer has closed.\<close>

definition next_read :: "tcp \<Rightarrow> read_result \<times> tcp" where
  "next_read w =
     (case rscript (sock w) of
        [] \<Rightarrow> (ReadBytes [], w)
      | r # rs \<Rightarrow> (r, w\<lparr>sock := (sock w)\<lparr>rscript := rs\<rparr>\<rparr>))"

(* src/matelib/TcpConnection.cc:182-198 TcpConnection::handleRead *)
definition handleRead :: "hooks \<Rightarrow> tcp \<Rightarrow> tcp option" where
  "handleRead h w = do {
     assertInLoopThread w;
     let (r, w1) = next_read w;
     (b, n, err) \<leftarrow> readFd (inputBuffer w1) r;
     let w2 = w1\<lparr>inputBuffer := b\<rparr>;
     if n > 0 then call_user MessageCallback (on_message h) w2
     else if n = 0 then handleClose h w2
     else handleError w2
   }"

(* src/matelib/TcpConnection.cc:200-229 TcpConnection::handleWrite *)
definition handleWrite :: "tcp \<Rightarrow> tcp option" where
  "handleWrite w = do {
     ch \<leftarrow> chans w (chan w);
     if isWriting ch then
       let ob = outputBuffer w
       in case kwrite (slice (peek ob) (peek ob + readableBytes ob) (bufvec ob)) (sock w) of
         (k, Inr n) \<Rightarrow>
           let w1 = w\<lparr>sock := k\<rparr>
           in if n > 0 then do {
                ob1 \<leftarrow> retrieve ob n;
                let w2 = w1\<lparr>outputBuffer := ob1\<rparr>;
                if readableBytes ob1 = 0 then do {
                  w3 \<leftarrow> disableWriting (chan w2) w2;
                  if state w3 = Disconnecting then shutdownInLoop w3 else Some w3
                } else Some w2
              } else Some w1
       | (k, Inl e) \<Rightarrow> Some (w\<lparr>sock := k\<rparr>)
     else Some w
   }"

(* src/matelib/TcpConnection.cc:253-258 TcpConnection::setKeepalive *)
definition setKeepalive :: "tcp \<Rightarrow> tcp" where
  "setKeepalive w = w\<lparr>sock := (sock w)\<lparr>keepalive := True\<rparr>\<rparr>"

(* src/matelib/TcpConnection.cc:260-265 TcpConnection::setNoDelay *)
definition setNoDelay :: "tcp \<Rightarrow> tcp" where
  "setNoDelay w = w\<lparr>sock := (sock w)\<lparr>nodelay := True\<rparr>\<rparr>"

text \<open>The meaning of the connection's channel callbacks and functors.\<close>

fun run_cb :: "hooks \<Rightarrow> conn_cb \<Rightarrow> tcp \<Rightarrow> tcp option" where
  "run_cb h OnRead w = handleRead h w"
| "run_cb h OnWrite w = handleWrite w"
| "run_cb h OnClose w = handleClose h w"
| "run_cb h OnError w = handleError w"

fun run_fun :: "hooks \<Rightarrow> conn_fun \<Rightarrow> tcp \<Rightarrow> tcp option" where
  "run_fun h (SendInLoop s) w = sendInLoop (sp_of_string s) w"
| "run_fun h ShutdownInLoop w = shutdownInLoop w"
| "run_fun h ConnectionEstablished w = connectionEstablished h w"
| "run_fun h ConnectionDestroyed w = connectionDestroyed h w"

section \<open>Lemmas on events\<close>

lemma write_bits:
  "has (e OR kWriteEvent) kWriteEvent" "\<not> has (e AND NOT kWriteEvent) kWriteEvent"
  "has (e OR kWriteEvent) kReadEvent = has e kReadEvent"
  "has (e AND NOT kWriteEvent) kReadEvent = has e kReadEvent"
  "has (e OR kReadEvent) kReadEvent" "has (e OR kReadEvent) kWriteEvent = has e kWriteEvent"
proof -
  have d: "kWriteEvent AND kReadEvent = 0" "kReadEvent AND kWriteEvent = 0"
    "kWriteEvent \<noteq> 0" "kReadEvent \<noteq> 0" "NOT kWriteEvent AND kReadEvent = kReadEvent"
    by (simp_all add: kWriteEvent_def kReadEvent_def epoll_bits)
  have or_and: "(a OR b) AND m = (a AND m) OR (b AND m)" for a b m :: events
    by (rule word_ao_dist)
  show "has (e OR kWriteEvent) kWriteEvent" "has (e OR kReadEvent) kReadEvent"
    using d(3,4) by (simp_all add: has_def or_and or_eq_0_iff)
  show "\<not> has (e AND NOT kWriteEvent) kWriteEvent"
    by (simp add: has_def and.assoc)
  show "has (e OR kWriteEvent) kReadEvent = has e kReadEvent" "has (e OR kReadEvent) kWriteEvent = has e kWriteEvent"
    using d(1,2) by (simp_all add: has_def or_and)
  show "has (e AND NOT kWriteEvent) kReadEvent = has e kReadEvent"
    using d(5) by (simp add: has_def and.assoc)
qed

lemma has_not_none: "has e m \<Longrightarrow> e \<noteq> kNoneEvent"
  by (auto simp: has_def kNoneEvent_def)

section \<open>The connection's invariant\<close>

definition chan_ok :: "tcp \<Rightarrow> conn_cb channel \<Rightarrow> bool" where
  "chan_ok w ch \<longleftrightarrow> ch_fd ch = sockfd w \<and> (ch_state ch = kNew \<longrightarrow> channels w (sockfd w) = None) \<and>
     (case state w of
        Connecting \<Rightarrow> ch_state ch = kNew \<and> ch_events ch = kNoneEvent \<and> content (outputBuffer w) = []
      | Disconnected \<Rightarrow> ch_events ch = kNoneEvent
      | _ \<Rightarrow> ch_state ch = kAdded \<and> has (ch_events ch) kReadEvent
            \<and> (isWriting ch \<longleftrightarrow> content (outputBuffer w) \<noteq> []))"

definition conn_inv :: "tcp \<Rightarrow> bool" where
  "conn_inv w \<longleftrightarrow> poller_inv w \<and> in_loop_thread w \<and> buffer_inv (inputBuffer w) \<and> buffer_inv (outputBuffer w)
     \<and> (\<exists>ch. chans w (chan w) = Some ch \<and> chan_ok w ch)
     \<and> (wr_shut (sock w) \<longrightarrow> state w = Disconnected \<or> state w = Disconnecting \<and> content (outputBuffer w) = [])"

text \<open>Everything the user has sent, in order: what the kernel took and what waits in the buffer.\<close>

definition stream :: "tcp \<Rightarrow> string" where
  "stream w = sent (sock w) @ content (outputBuffer w)"

lemma readable_content: "buffer_inv b \<Longrightarrow> readableBytes b = length (content b)"
  by (simp add: length_content)

lemma readable_slice: "buffer_inv b \<Longrightarrow> slice (peek b) (peek b + readableBytes b) (bufvec b) = content b"
  by (simp add: content_def buffer_basics)

lemma updated_tcp [simp]:
  fixes w :: tcp
  shows "sockfd (updated c ch e w) = sockfd w" "state (updated c ch e w) = state w"
    "chan (updated c ch e w) = chan w" "inputBuffer (updated c ch e w) = inputBuffer w"
    "outputBuffer (updated c ch e w) = outputBuffer w" "sock (updated c ch e w) = sock w"
    "user_calls (updated c ch e w) = user_calls w" "in_loop_thread (updated c ch e w) = in_loop_thread w"
    "stream (updated c ch e w) = stream w" "pendingFunctors (updated c ch e w) = pendingFunctors w"
  by (simp_all add: updated_def Let_def stream_def)

lemma poller_inv_cong:
  assumes "chans v = chans w" "channels v = channels w" "interest v = interest w"
  shows "poller_inv v = poller_inv w"
  unfolding poller_inv_def kernel_entry_def assms ..

text \<open>Changes of the connection's own members do not concern the poller.\<close>

lemma poller_frame [simp]:
  fixes w :: tcp
  shows "poller_inv (w\<lparr>outputBuffer := ob\<rparr>) = poller_inv w" "poller_inv (w\<lparr>sock := k\<rparr>) = poller_inv w"
    "poller_inv (w\<lparr>state := s\<rparr>) = poller_inv w" "poller_inv (w\<lparr>inputBuffer := ib\<rparr>) = poller_inv w"
    "poller_inv (w\<lparr>user_calls := u\<rparr>) = poller_inv w"
  by (rule poller_inv_cong; simp)+

text \<open>Changing the events of the connection's channel.\<close>

lemma conn_set_events:
  fixes w :: tcp
  assumes "poller_inv w" "in_loop_thread w" "chans w (chan w) = Some ch"
    "ch_fd ch = sockfd w" "ch_state ch = kNew \<longrightarrow> channels w (sockfd w) = None"
  shows "set_events (chan w) f w = Some (updated (chan w) ch (f (ch_events ch)) w)"
    and "poller_inv (updated (chan w) ch (f (ch_events ch)) w)"
    and "chans (updated (chan w) ch e w) (chan w) = Some (ch\<lparr>ch_events := e,
      ch_state := (if ch_state ch = kAdded \<and> e = kNoneEvent then kDeleted else kAdded)\<rparr>)"
    and "channels (updated (chan w) ch e w) (sockfd w) = Some (chan w)"
proof -
  have u: "can_update (chan w) w" using assms by (simp add: can_update_def)
  show "set_events (chan w) f w = Some (updated (chan w) ch (f (ch_events ch)) w)"
    by (rule set_events_eq [OF assms(1) u assms(3)])
  show "poller_inv (updated (chan w) ch (f (ch_events ch)) w)"
    by (rule updated_inv [OF assms(1) u assms(3)])
  show "chans (updated (chan w) ch e w) (chan w) = Some (ch\<lparr>ch_events := e,
      ch_state := (if ch_state ch = kAdded \<and> e = kNoneEvent then kDeleted else kAdded)\<rparr>)"
    "channels (updated (chan w) ch e w) (sockfd w) = Some (chan w)"
    using assms(4) by (simp_all add: updated_def Let_def)
qed

lemma conn_inv_channel:
  "conn_inv w \<Longrightarrow> \<exists>ch. chans w (chan w) = Some ch \<and> chan_ok w ch"
  by (simp add: conn_inv_def)

text \<open>The kernel's answer to a write.\<close>

lemma kwrite_spec:
  "kwrite s k = (k', r) \<Longrightarrow> wr_shut k' = wr_shut k \<and>
    (case r of Inl e \<Rightarrow> sent k' = sent k | Inr n \<Rightarrow> n \<le> length s \<and> sent k' = sent k @ take n s \<and> \<not> wr_shut k)"
  by (auto simp: kwrite_def min_def split: if_splits list.splits wres.splits)

lemma kwrite_shut: "wr_shut k \<Longrightarrow> kwrite s k = (k, Inl EPIPE)"
  by (simp add: kwrite_def)

lemma kwrite_error: "kwrite s k = (k', Inl e) \<Longrightarrow> e \<noteq> EPIPE \<Longrightarrow> \<not> wr_shut k"
  by (auto simp: kwrite_def)

definition open_state :: "tcp \<Rightarrow> bool" where
  "open_state w \<longleftrightarrow> state w = Connected \<or> state w = Disconnecting"

lemma chan_ok_open:
  "open_state w \<Longrightarrow> chan_ok w ch \<longleftrightarrow> ch_fd ch = sockfd w \<and> ch_state ch = kAdded \<and> has (ch_events ch) kReadEvent
    \<and> (isWriting ch \<longleftrightarrow> content (outputBuffer w) \<noteq> [])"
  by (auto simp: open_state_def chan_ok_def)

lemma conn_inv_open:
  "open_state w \<Longrightarrow> conn_inv w \<longleftrightarrow> poller_inv w \<and> in_loop_thread w \<and> buffer_inv (inputBuffer w)
    \<and> buffer_inv (outputBuffer w)
    \<and> (\<exists>ch. chans w (chan w) = Some ch \<and> ch_fd ch = sockfd w \<and> ch_state ch = kAdded
        \<and> has (ch_events ch) kReadEvent \<and> (isWriting ch \<longleftrightarrow> content (outputBuffer w) \<noteq> []))
    \<and> (wr_shut (sock w) \<longrightarrow> state w = Disconnecting \<and> content (outputBuffer w) = [])"
  by (auto simp: conn_inv_def chan_ok_open) (auto simp: open_state_def)

lemma chan_ok_cong:
  assumes "sockfd v = sockfd w" "channels v = channels w" "state v = state w" "outputBuffer v = outputBuffer w"
  shows "chan_ok v ch = chan_ok w ch"
  unfolding chan_ok_def assms ..

lemma conn_inv_cong:
  assumes "chans v = chans w" "channels v = channels w" "interest v = interest w" "in_loop_thread v = in_loop_thread w"
    "inputBuffer v = inputBuffer w" "outputBuffer v = outputBuffer w" "chan v = chan w" "sockfd v = sockfd w"
    "state v = state w" "sock v = sock w"
  shows "conn_inv v = conn_inv w"
  unfolding conn_inv_def poller_inv_cong [OF assms(1-3)] chan_ok_cong [OF assms(8,2,9,6)] assms ..

lemma chan_ok_sock [simp]: "chan_ok (w\<lparr>sock := k\<rparr>) ch = chan_ok w ch"
  by (rule chan_ok_cong) simp_all

lemma conn_inv_sock:
  "wr_shut k = wr_shut (sock w) \<Longrightarrow> conn_inv (w\<lparr>sock := k\<rparr>) = conn_inv w"
  by (simp add: conn_inv_def)

lemma open_state_sock [simp]: "open_state (w\<lparr>sock := k\<rparr>) = open_state w"
  by (simp add: open_state_def)

text \<open>The last part of \<open>sendInThread\<close>: the rest goes to the output buffer.\<close>

definition buffer_rest :: "string \<Rightarrow> tcp \<Rightarrow> tcp option" where
  "buffer_rest rest w1 = do {
     ob \<leftarrow> append (outputBuffer w1) rest;
     let w2 = w1\<lparr>outputBuffer := ob\<rparr>;
     ch2 \<leftarrow> chans w2 (chan w2);
     if \<not> isWriting ch2 then enableWriting (chan w2) w2 else Some w2
   }"

lemma buffer_rest_ok:
  assumes "conn_inv w" "open_state w" "\<not> wr_shut (sock w)" "rest \<noteq> []"
  shows "\<exists>w'. buffer_rest rest w = Some w' \<and> conn_inv w' \<and> stream w' = stream w @ rest
    \<and> sock w' = sock w \<and> state w' = state w \<and> user_calls w' = user_calls w \<and> chan w' = chan w"
proof -
  from assms(1) obtain ch where ch: "chans w (chan w) = Some ch" "ch_fd ch = sockfd w" "ch_state ch = kAdded"
    "has (ch_events ch) kReadEvent" "isWriting ch \<longleftrightarrow> content (outputBuffer w) \<noteq> []"
    and i: "poller_inv w" "in_loop_thread w" "buffer_inv (inputBuffer w)" "buffer_inv (outputBuffer w)"
    unfolding conn_inv_open [OF assms(2)] by blast
  from append_ok [OF i(4), of rest] obtain ob where
    ob: "append (outputBuffer w) rest = Some ob" "buffer_inv ob" "content ob = content (outputBuffer w) @ rest" by blast
  let ?w2 = "w\<lparr>outputBuffer := ob\<rparr>"
  have o2: "open_state ?w2" using assms(2) by (simp add: open_state_def)
  have st: "stream ?w2 = stream w @ rest" using ob(3) by (simp add: stream_def)
  show ?thesis
  proof (cases "isWriting ch")
    case True
    have "conn_inv ?w2"
      unfolding conn_inv_open [OF o2] using ch i ob assms(3,4) True by simp
    with True ch ob st show ?thesis by (intro exI [of _ ?w2]) (simp add: buffer_rest_def)
  next
    case False
    let ?e = "ch_events ch OR kWriteEvent"
    let ?w3 = "updated (chan w) ch ?e ?w2"
    have p: "poller_inv ?w2" "in_loop_thread ?w2" "chans ?w2 (chan ?w2) = Some ch" "ch_fd ch = sockfd ?w2"
      "ch_state ch = kNew \<longrightarrow> channels ?w2 (sockfd ?w2) = None"
      using i ch by simp_all
    note se = conn_set_events [OF p]
    have e: "?e \<noteq> kNoneEvent" using has_not_none [OF write_bits(1)] .
    have 1: "buffer_rest rest w = Some ?w3"
      using se(1) [of "\<lambda>e. e OR kWriteEvent"] ob ch False by (simp add: buffer_rest_def enableWriting_def)
    have o3: "open_state ?w3" using assms(2) by (simp add: open_state_def)
    have c3: "chans ?w3 (chan w) = Some (ch\<lparr>ch_events := ?e, ch_state := kAdded\<rparr>)"
      using se(3) [of ?e] e by simp
    have "conn_inv ?w3"
      unfolding conn_inv_open [OF o3]
      using se(2) [of "\<lambda>e. e OR kWriteEvent"] i ch ob assms(3,4) c3 write_bits by (simp add: isWriting_def)
    with 1 st show ?thesis by (intro exI [of _ ?w3]) simp
  qed
qed

lemma sendInThread_alt:
  assumes "in_loop_thread w" "open_state w" "chans w (chan w) = Some ch"
  shows "sendInThread s w =
    (let (w1, error, nwrote) =
         (if \<not> isWriting ch \<and> readableBytes (outputBuffer w) = 0 then direct_write s w else (w, False, 0))
     in if \<not> error \<and> length s - nwrote > 0 then buffer_rest (drop nwrote s) w1 else Some w1)"
proof -
  have "state w \<noteq> Disconnected" using assms(2) by (auto simp: open_state_def)
  then show ?thesis
    unfolding sendInThread_def buffer_rest_def assertInLoopThread_def abort_simps
    using assms(1,3) by (simp only: if_True if_False bind.bind_lunit)
qed

definition epipe :: "string \<Rightarrow> tcp \<Rightarrow> bool" where
  "epipe s w \<longleftrightarrow> content (outputBuffer w) = [] \<and> snd (kwrite s (sock w)) = Inl EPIPE"

lemma sendInThread_ok:
  assumes "conn_inv w" "open_state w"
  shows "\<exists>w'. sendInThread s w = Some w' \<and> conn_inv w' \<and> state w' = state w \<and> user_calls w' = user_calls w
    \<and> chan w' = chan w
    \<and> stream w' = stream w @ (if epipe s w then [] else s)"
proof -
  from assms(1) obtain ch where ch: "chans w (chan w) = Some ch" "isWriting ch \<longleftrightarrow> content (outputBuffer w) \<noteq> []"
    and i: "in_loop_thread w" "buffer_inv (outputBuffer w)"
    and sh: "wr_shut (sock w) \<longrightarrow> content (outputBuffer w) = []"
    unfolding conn_inv_open [OF assms(2)] by blast
  note alt = sendInThread_alt [OF i(1) assms(2) ch(1), of s]
  show ?thesis
  proof (cases "content (outputBuffer w) = []")
    case False
    then have nw: "isWriting ch" "\<not> epipe s w" "\<not> wr_shut (sock w)" using ch sh by (auto simp: epipe_def)
    show ?thesis
    proof (cases "s = []")
      case True
      with nw assms alt show ?thesis by simp
    next
      case False
      with nw alt have "sendInThread s w = buffer_rest s w" by simp
      with nw buffer_rest_ok [OF assms nw(3) False] show ?thesis by auto
    qed
  next
    case True
    then have d: "\<not> isWriting ch \<and> readableBytes (outputBuffer w) = 0"
      using ch(2) readable_content [OF i(2)] by simp
    obtain k r where kw: "kwrite s (sock w) = (k, r)" by (cases "kwrite s (sock w)")
    note sp = kwrite_spec [OF kw]
    let ?w1 = "w\<lparr>sock := k\<rparr>"
    have inv1: "conn_inv ?w1" using sp assms(1) by (simp add: conn_inv_sock)
    have o1: "open_state ?w1" using assms(2) by simp
    show ?thesis
    proof (cases r)
      case (Inr n)
      with sp have n: "n \<le> length s" "sent k = sent (sock w) @ take n s" "\<not> wr_shut k" by auto
      have ne: "\<not> epipe s w" using kw Inr by (simp add: epipe_def)
      have st1: "stream ?w1 = stream w @ take n s" using n(2) True by (simp add: stream_def)
      have alt1: "sendInThread s w = (if length s - n > 0 then buffer_rest (drop n s) ?w1 else Some ?w1)"
        using alt d kw Inr by (simp add: direct_write_def)
      show ?thesis
      proof (cases "length s - n > 0")
        case False
        with alt1 inv1 st1 ne show ?thesis by simp
      next
        case more: True
        then have "drop n s \<noteq> []" by simp
        from buffer_rest_ok [OF inv1 o1 _ this] n(3) obtain w' where
          "buffer_rest (drop n s) ?w1 = Some w'" "conn_inv w'" "stream w' = stream ?w1 @ drop n s"
          "state w' = state w" "user_calls w' = user_calls w" "chan w' = chan w" by auto
        with alt1 more st1 ne show ?thesis by simp
      qed
    next
      case (Inl e)
      with sp True have st1: "stream ?w1 = stream w" by (simp add: stream_def)
      have alt1: "sendInThread s w = (if e \<noteq> EPIPE \<and> length s > 0 then buffer_rest s ?w1 else Some ?w1)"
        using alt d kw Inl by (auto simp: direct_write_def)
      show ?thesis
      proof (cases "e = EPIPE")
        case True
        with alt1 inv1 st1 kw Inl \<open>content (outputBuffer w) = []\<close> show ?thesis by (simp add: epipe_def)
      next
        case False
        then have ne: "\<not> epipe s w" using kw Inl by (simp add: epipe_def)
        have "\<not> wr_shut (sock w)" using kw Inl False kwrite_error by blast
        with sp have sh1: "\<not> wr_shut (sock ?w1)" by simp
        show ?thesis
        proof (cases "s = []")
          case True
          with alt1 inv1 st1 show ?thesis by simp
        next
          case snn: False
          from buffer_rest_ok [OF inv1 o1 sh1 snn] alt1 False snn st1 ne show ?thesis by auto
        qed
      qed
    qed
  qed
qed

lemma shutdownInLoop_ok:
  assumes "conn_inv w" "state w = Disconnecting"
  shows "\<exists>w'. shutdownInLoop w = Some w' \<and> conn_inv w' \<and> state w' = Disconnecting \<and> stream w' = stream w
    \<and> chan w' = chan w \<and> user_calls w' = user_calls w
    \<and> (wr_shut (sock w') \<longleftrightarrow> wr_shut (sock w) \<or> content (outputBuffer w) = [])"
proof -
  have o: "open_state w" using assms(2) by (simp add: open_state_def)
  from assms(1) obtain ch where ch: "chans w (chan w) = Some ch" "ch_fd ch = sockfd w" "ch_state ch = kAdded"
    "has (ch_events ch) kReadEvent" "isWriting ch \<longleftrightarrow> content (outputBuffer w) \<noteq> []"
    and i: "poller_inv w" "in_loop_thread w" "buffer_inv (inputBuffer w)" "buffer_inv (outputBuffer w)"
    and sh: "wr_shut (sock w) \<longrightarrow> content (outputBuffer w) = []"
    unfolding conn_inv_open [OF o] by blast
  let ?w1 = "w\<lparr>sock := (sock w)\<lparr>wr_shut := True\<rparr>\<rparr>"
  show ?thesis
  proof (cases "isWriting ch")
    case True
    with ch i sh assms show ?thesis
      by (intro exI [of _ w]) (auto simp: shutdownInLoop_def assertInLoopThread_def abort_simps)
  next
    case False
    have o1: "open_state ?w1" using o by simp
    have "conn_inv ?w1" unfolding conn_inv_open [OF o1] using ch i assms(2) False by simp
    with False ch i assms(2) show ?thesis
      by (intro exI [of _ ?w1]) (simp add: shutdownInLoop_def assertInLoopThread_def abort_simps stream_def)
  qed
qed

lemma conn_inv_shutting:
  assumes "conn_inv w" "state w = Connected"
  shows "conn_inv (set_state Disconnecting w)"
proof -
  let ?w = "w\<lparr>state := Disconnecting\<rparr>"
  have "open_state w" "open_state ?w" using assms(2) by (simp_all add: open_state_def)
  then have c: "chan_ok ?w ch = chan_ok w ch" for ch by (simp add: chan_ok_open)
  have "\<not> wr_shut (sock w)" using assms by (auto simp: conn_inv_def)
  with assms(1) show ?thesis unfolding conn_inv_def set_state_def c by simp
qed

lemma handleWrite_ok:
  assumes "conn_inv w" "open_state w"
  shows "\<exists>w'. handleWrite w = Some w' \<and> conn_inv w' \<and> state w' = state w \<and> stream w' = stream w
    \<and> chan w' = chan w \<and> user_calls w' = user_calls w
    \<and> (content (outputBuffer w) \<noteq> [] \<and> content (outputBuffer w') = [] \<and> state w = Disconnecting \<longrightarrow> wr_shut (sock w'))"
proof -
  from assms(1) obtain ch where ch: "chans w (chan w) = Some ch" "ch_fd ch = sockfd w" "ch_state ch = kAdded"
    "has (ch_events ch) kReadEvent" "isWriting ch \<longleftrightarrow> content (outputBuffer w) \<noteq> []"
    and i: "poller_inv w" "in_loop_thread w" "buffer_inv (inputBuffer w)" "buffer_inv (outputBuffer w)"
    and sh: "wr_shut (sock w) \<longrightarrow> state w = Disconnecting \<and> content (outputBuffer w) = []"
    unfolding conn_inv_open [OF assms(2)] by blast
  show ?thesis
  proof (cases "isWriting ch")
    case False
    with ch assms show ?thesis by (intro exI [of _ w]) (auto simp: handleWrite_def)
  next
    case wr: True
    obtain k r where kw: "kwrite (content (outputBuffer w)) (sock w) = (k, r)"
      by (cases "kwrite (content (outputBuffer w)) (sock w)")
    note sp = kwrite_spec [OF kw]
    let ?w1 = "w\<lparr>sock := k\<rparr>"
    have inv1: "conn_inv ?w1" using sp assms(1) by (simp add: conn_inv_sock)
    have nsh: "\<not> wr_shut (sock w)" using sh ch(5) wr by auto
    show ?thesis
    proof (cases r)
      case (Inl e)
      with sp have "stream ?w1 = stream w" by (simp add: stream_def)
      with wr ch kw Inl inv1 i show ?thesis
        by (intro exI [of _ ?w1]) (simp add: handleWrite_def readable_slice Let_def)
    next
      case (Inr n)
      with sp have n: "n \<le> length (content (outputBuffer w))" "sent k = sent (sock w) @ take n (content (outputBuffer w))"
        by auto
      show ?thesis
      proof (cases "n = 0")
        case True
        with n have "stream ?w1 = stream w" by (simp add: stream_def)
        with wr ch kw Inr True inv1 i show ?thesis
          by (intro exI [of _ ?w1]) (simp add: handleWrite_def readable_slice Let_def)
      next
        case n0: False
        from retrieve_ok [OF i(4) n(1)] obtain ob where
          ob: "retrieve (outputBuffer w) n = Some ob" "buffer_inv ob" "content ob = drop n (content (outputBuffer w))" by blast
        let ?w2 = "?w1\<lparr>outputBuffer := ob\<rparr>"
        have o2: "open_state ?w2" using assms(2) by (simp add: open_state_def)
        have st2: "stream ?w2 = stream w" using n ob(3) by (simp add: stream_def)
        have eq: "handleWrite w = (if content ob = [] then do {
            w3 \<leftarrow> disableWriting (chan ?w2) ?w2;
            if state w3 = Disconnecting then shutdownInLoop w3 else Some w3 } else Some ?w2)"
          using wr ch kw Inr n0 ob i readable_content [OF ob(2)] by (simp add: handleWrite_def readable_slice Let_def)
        show ?thesis
        proof (cases "content ob = []")
          case False
          have "conn_inv ?w2" unfolding conn_inv_open [OF o2] using ch i ob wr sp nsh False by simp
          with eq False st2 show ?thesis by (intro exI [of _ ?w2]) simp
        next
          case empty: True
          let ?e = "ch_events ch AND NOT kWriteEvent"
          let ?w3 = "updated (chan w) ch ?e ?w2"
          have p: "poller_inv ?w2" "in_loop_thread ?w2" "chans ?w2 (chan ?w2) = Some ch" "ch_fd ch = sockfd ?w2"
            "ch_state ch = kNew \<longrightarrow> channels ?w2 (sockfd ?w2) = None"
            using i ch by simp_all
          note se = conn_set_events [OF p]
          have rd: "has ?e kReadEvent" using ch(4) write_bits(4) by blast
          have ne: "?e \<noteq> kNoneEvent" using rd by (rule has_not_none)
          have o3: "open_state ?w3" using assms(2) by (simp add: open_state_def)
          have c3: "chans ?w3 (chan w) = Some (ch\<lparr>ch_events := ?e, ch_state := kAdded\<rparr>)"
            using se(3) [of ?e] ne by simp
          have inv3: "conn_inv ?w3"
            unfolding conn_inv_open [OF o3]
            using se(2) [of "\<lambda>e. e AND NOT kWriteEvent"] i ch ob c3 rd write_bits(2) sp nsh empty
            by (simp add: isWriting_def)
          have eq3: "handleWrite w = (if state w = Disconnecting then shutdownInLoop ?w3 else Some ?w3)"
            using eq empty se(1) [of "\<lambda>e. e AND NOT kWriteEvent"] by (simp add: disableWriting_def)
          have f3: "state ?w3 = state w" "chan ?w3 = chan w" "user_calls ?w3 = user_calls w" "content (outputBuffer ?w3) = []"
            using empty by simp_all
          show ?thesis
          proof (cases "state w = Disconnecting")
            case False
            with eq3 inv3 st2 f3 show ?thesis by (intro exI [of _ ?w3]) simp
          next
            case True
            with f3 have "state ?w3 = Disconnecting" by simp
            from shutdownInLoop_ok [OF inv3 this] obtain w' where
              "shutdownInLoop ?w3 = Some w'" "conn_inv w'" "state w' = Disconnecting" "stream w' = stream ?w3"
              "chan w' = chan ?w3" "user_calls w' = user_calls ?w3" "wr_shut (sock w')"
              using f3(4) by auto
            with True eq3 st2 f3 show ?thesis by (intro exI [of _ w']) simp
          qed
        qed
      qed
    qed
  qed
qed

section \<open>What the poller's operations leave alone\<close>

lemma more_tcp:
  fixes v w :: tcp
  assumes "reactor.more v = reactor.more w"
  shows "pendingFunctors v = pendingFunctors w" "inputBuffer v = inputBuffer w" "sock v = sock w"
  using assms by (cases v, cases w, simp)+

text \<open>Sending does not touch the input buffer; what the kernel will answer is a part of what it would have.\<close>

lemma sendInThread_frame:
  assumes "sendInThread s w = Some w'"
  shows "inputBuffer w' = inputBuffer w" "set (wscript (sock w')) \<subseteq> set (wscript (sock w))"
proof -
  have "inputBuffer w' = inputBuffer w \<and> set (wscript (sock w')) \<subseteq> set (wscript (sock w))"
  proof (cases "state w = Disconnected")
    case True
    with assms show ?thesis by (simp add: sendInThread_def assertInLoopThread_def abort_simps split: if_splits)
  next
    case False
    with assms obtain ch where ch: "chans w (chan w) = Some ch"
      by (auto simp: sendInThread_def assertInLoopThread_def abort_simps bind_Some_iff split: if_splits)
    obtain w1 err n where d: "(if \<not> isWriting ch \<and> readableBytes (outputBuffer w) = 0 then direct_write s w else (w, False, 0))
      = (w1, err, n)" by (metis prod_cases3)
    have "set (wscript (fst (kwrite s k))) \<subseteq> set (wscript k)" for k
      by (auto simp: kwrite_def split: list.splits wres.splits)
    then have i1: "inputBuffer w1 = inputBuffer w" "set (wscript (sock w1)) \<subseteq> set (wscript (sock w))"
      using d by (auto simp: direct_write_def split: prod.splits sum.splits if_splits) (metis fst_conv subsetD)+
    have e: "inputBuffer v' = inputBuffer v \<and> sock v' = sock v" if "enableWriting c v = Some v'" for c and v v' :: tcp
      using more_tcp(2,3) [OF set_events_more] that unfolding enableWriting_def by blast
    have "inputBuffer w' = inputBuffer w1 \<and> sock w' = sock w1"
      using assms False d ch
      by (simp add: sendInThread_def assertInLoopThread_def abort_simps bind_Some_iff Let_def split: if_split_asm)
        (auto dest!: e)
    with i1 show ?thesis by simp
  qed
  then show "inputBuffer w' = inputBuffer w" "set (wscript (sock w')) \<subseteq> set (wscript (sock w))" by simp_all
qed

text \<open>The peer is never found gone: no write fails with \<open>EPIPE\<close>.\<close>

definition peer_stays :: "tcp \<Rightarrow> bool" where
  "peer_stays w \<longleftrightarrow> WError EPIPE \<notin> set (wscript (sock w))"

lemma peer_stays_epipe: "peer_stays w \<Longrightarrow> \<not> wr_shut (sock w) \<Longrightarrow> \<not> epipe s w"
  by (auto simp: peer_stays_def epipe_def kwrite_def split: list.splits wres.splits)

lemma conn_inv_input: "conn_inv w \<Longrightarrow> buffer_inv b \<Longrightarrow> conn_inv (w\<lparr>inputBuffer := b\<rparr>)"
proof -
  have "chan_ok (w\<lparr>inputBuffer := b\<rparr>) ch = chan_ok w ch" for ch by (rule chan_ok_cong) simp_all
  then show "conn_inv w \<Longrightarrow> buffer_inv b \<Longrightarrow> conn_inv (w\<lparr>inputBuffer := b\<rparr>)" by (simp add: conn_inv_def)
qed

lemma send_reply:
  assumes "conn_inv w" "state w = Connected" "buffer_inv b"
  shows "\<exists>w'. sendInThread s (w\<lparr>inputBuffer := b\<rparr>) = Some w' \<and> conn_inv w' \<and> state w' = Connected \<and> inputBuffer w' = b
    \<and> stream w' = stream w @ (if epipe s w then [] else s)"
proof -
  let ?w = "w\<lparr>inputBuffer := b\<rparr>"
  have "open_state ?w" using assms(2) by (simp add: open_state_def)
  from sendInThread_ok [OF conn_inv_input [OF assms(1,3)] this, of s] obtain w' where
    w': "sendInThread s ?w = Some w'" "conn_inv w'" "state w' = Connected"
    "stream w' = stream w @ (if epipe s w then [] else s)" using assms(2) by (auto simp: stream_def epipe_def)
  with sendInThread_frame(1) [OF w'(1)] show ?thesis by simp
qed

section \<open>The user's callbacks\<close>

text \<open>
  A callback behaves well if it returns with the connection intact and in the same state, for
  instance one that sends.
\<close>

definition well_behaved :: "(tcp \<Rightarrow> tcp option) \<Rightarrow> bool" where
  "well_behaved f \<longleftrightarrow> (\<forall>w. conn_inv w \<longrightarrow> (\<exists>w'. f w = Some w' \<and> conn_inv w' \<and> state w' = state w
     \<and> user_calls w' = user_calls w \<and> chan w' = chan w
     \<and> ch_registered (chan w) w' = ch_registered (chan w) w))"

definition hooks_ok :: "hooks \<Rightarrow> bool" where
  "hooks_ok h \<longleftrightarrow> well_behaved (on_connection h) \<and> well_behaved (on_message h) \<and> well_behaved (on_cleanup h)"

lemma open_registered: "conn_inv w \<Longrightarrow> open_state w \<Longrightarrow> ch_registered (chan w) w"
  unfolding conn_inv_open by (auto simp: ch_registered_def)

lemma send_data_well_behaved: "well_behaved (send_data s)"
  unfolding well_behaved_def
proof (intro allI impI)
  fix w assume i: "conn_inv w"
  show "\<exists>w'. send_data s w = Some w' \<and> conn_inv w' \<and> state w' = state w \<and> user_calls w' = user_calls w
    \<and> chan w' = chan w \<and> ch_registered (chan w) w' = ch_registered (chan w) w"
  proof (cases "state w = Connected")
    case True
    have o: "open_state w" using True by (simp add: open_state_def)
    from sendInThread_ok [OF i o, of s] obtain w' where w': "sendInThread s w = Some w'" "conn_inv w'"
      "state w' = state w" "user_calls w' = user_calls w" "chan w' = chan w" by blast
    have o': "open_state w'" using o w'(3) by (simp add: open_state_def)
    show ?thesis
      using True w' i open_registered [OF i o] open_registered [OF w'(2) o']
      by (intro exI [of _ w']) (simp add: send_data_def conn_inv_def)
  next
    case False
    with i show ?thesis by (simp add: send_data_def)
  qed
qed

lemma conn_inv_user_calls [simp]: "conn_inv (w\<lparr>user_calls := u\<rparr>) = conn_inv w"
proof -
  have "chan_ok (w\<lparr>user_calls := u\<rparr>) ch = chan_ok w ch" for ch by (rule chan_ok_cong) simp_all
  then show ?thesis by (simp add: conn_inv_def)
qed

lemma call_user_ok:
  assumes "well_behaved f" "conn_inv w"
  shows "\<exists>w'. call_user u f w = Some w' \<and> conn_inv w' \<and> state w' = state w
    \<and> user_calls w' = user_calls w @ [u] \<and> chan w' = chan w
    \<and> ch_registered (chan w) w' = ch_registered (chan w) w"
proof -
  let ?w = "w\<lparr>user_calls := user_calls w @ [u]\<rparr>"
  have "conn_inv ?w" using assms(2) by simp
  with assms(1) obtain w' where "f ?w = Some w'" "conn_inv w'" "state w' = state ?w"
    "user_calls w' = user_calls ?w" "chan w' = chan ?w"
    "ch_registered (chan ?w) w' = ch_registered (chan ?w) ?w"
    unfolding well_behaved_def by blast
  then show ?thesis by (simp add: call_user_def ch_registered_def)
qed

text \<open>Setting the state and disabling all events, as \<open>handleClose\<close> does.\<close>

lemma disable_ok:
  assumes "conn_inv w" "open_state w"
  shows "\<exists>w'. disableAll (chan w) (set_state Disconnected w) = Some w' \<and> conn_inv w' \<and> state w' = Disconnected
    \<and> user_calls w' = user_calls w \<and> chan w' = chan w \<and> ch_registered (chan w) w' \<and> stream w' = stream w
    \<and> ch_watched (chan w) w' = None"
proof -
  from assms(1) obtain ch where ch: "chans w (chan w) = Some ch" "ch_fd ch = sockfd w" "ch_state ch = kAdded"
    and i: "poller_inv w" "in_loop_thread w" "buffer_inv (inputBuffer w)" "buffer_inv (outputBuffer w)"
    unfolding conn_inv_open [OF assms(2)] by blast
  let ?w1 = "set_state Disconnected w"
  let ?w2 = "updated (chan w) ch kNoneEvent ?w1"
  have p: "poller_inv ?w1" "in_loop_thread ?w1" "chans ?w1 (chan ?w1) = Some ch" "ch_fd ch = sockfd ?w1"
    "ch_state ch = kNew \<longrightarrow> channels ?w1 (sockfd ?w1) = None"
    using i ch by (simp_all add: set_state_def)
  note se = conn_set_events [OF p]
  have 1: "disableAll (chan w) ?w1 = Some ?w2"
    using se(1) [of "\<lambda>e. kNoneEvent"] by (simp add: disableAll_def set_state_def)
  have c2: "chans ?w2 (chan w) = Some (ch\<lparr>ch_events := kNoneEvent, ch_state := kDeleted\<rparr>)"
    using se(3) [of kNoneEvent] ch(3) by (simp add: set_state_def)
  have st: "state ?w2 = Disconnected" by (simp add: set_state_def)
  have "chan_ok ?w2 (ch\<lparr>ch_events := kNoneEvent, ch_state := kDeleted\<rparr>)"
    using ch st by (simp add: chan_ok_def set_state_def)
  then have "conn_inv ?w2"
    using se(2) [of "\<lambda>e. kNoneEvent"] i c2 st by (simp add: conn_inv_def set_state_def)
  moreover have "ch_registered (chan w) ?w2" using c2 by (simp add: ch_registered_def)
  moreover have "ch_watched (chan w) ?w2 = None"
    using ch by (simp add: ch_watched_def updated_def set_state_def Let_def)
  ultimately show ?thesis using 1 st by (intro exI [of _ ?w2]) (simp add: set_state_def stream_def)
qed

lemma handleClose_ok:
  assumes "conn_inv w" "open_state w" "hooks_ok h"
  shows "\<exists>w'. handleClose h w = Some w' \<and> conn_inv w' \<and> state w' = Disconnected \<and> chan w' = chan w
    \<and> user_calls w' = user_calls w @ [ConnectionCallback False, CleanupCallback]
    \<and> ch_registered (chan w) w'"
proof -
  from disable_ok [OF assms(1,2)] obtain w1 where w1: "disableAll (chan w) (set_state Disconnected w) = Some w1"
    "conn_inv w1" "state w1 = Disconnected" "user_calls w1 = user_calls w" "chan w1 = chan w"
    "ch_registered (chan w) w1" by blast
  from call_user_ok [of "on_connection h" w1 "ConnectionCallback False"] assms(3) w1 obtain w2 where
    w2: "call_user (ConnectionCallback False) (on_connection h) w1 = Some w2" "conn_inv w2" "state w2 = Disconnected"
    "user_calls w2 = user_calls w @ [ConnectionCallback False]" "chan w2 = chan w" "ch_registered (chan w) w2"
    by (auto simp: hooks_ok_def)
  from call_user_ok [of "on_cleanup h" w2 CleanupCallback] assms(3) w2 obtain w3 where
    "call_user CleanupCallback (on_cleanup h) w2 = Some w3" "conn_inv w3" "state w3 = Disconnected"
    "user_calls w3 = user_calls w @ [ConnectionCallback False, CleanupCallback]" "chan w3 = chan w"
    "ch_registered (chan w) w3" by (auto simp: hooks_ok_def)
  with w1 w2 assms show ?thesis
    by (intro exI [of _ w3])
      (auto simp: handleClose_def assertInLoopThread_def abort_simps conn_inv_def connected_def open_state_def)
qed

text \<open>Setting the state and enabling reading, as \<open>connectionEstablished\<close> does.\<close>

lemma enable_ok:
  assumes "conn_inv w" "state w = Connecting"
  shows "\<exists>w'. enableReading (chan w) (set_state Connected w) = Some w' \<and> conn_inv w' \<and> state w' = Connected
    \<and> user_calls w' = user_calls w \<and> chan w' = chan w"
proof -
  from assms obtain ch where ch: "chans w (chan w) = Some ch" "ch_fd ch = sockfd w" "ch_state ch = kNew"
    "ch_events ch = kNoneEvent" "channels w (sockfd w) = None"
    and i: "poller_inv w" "in_loop_thread w" "buffer_inv (inputBuffer w)" "buffer_inv (outputBuffer w)"
    "\<not> wr_shut (sock w)" "content (outputBuffer w) = []"
    by (auto simp: conn_inv_def chan_ok_def)
  let ?w1 = "set_state Connected w"
  let ?e = "ch_events ch OR kReadEvent"
  let ?w2 = "updated (chan w) ch ?e ?w1"
  have p: "poller_inv ?w1" "in_loop_thread ?w1" "chans ?w1 (chan ?w1) = Some ch" "ch_fd ch = sockfd ?w1"
    "ch_state ch = kNew \<longrightarrow> channels ?w1 (sockfd ?w1) = None"
    using i ch by (simp_all add: set_state_def)
  note se = conn_set_events [OF p]
  have 1: "enableReading (chan w) ?w1 = Some ?w2"
    using se(1) [of "\<lambda>e. e OR kReadEvent"] by (simp add: enableReading_def set_state_def)
  have rd: "has ?e kReadEvent" by (rule write_bits(5))
  have "\<not> has (ch_events ch) kWriteEvent" by (simp add: has_def kNoneEvent_def ch(4))
  then have wr: "\<not> has ?e kWriteEvent" using write_bits(6) by blast
  have c2: "chans ?w2 (chan w) = Some (ch\<lparr>ch_events := ?e, ch_state := kAdded\<rparr>)"
    using se(3) [of ?e] ch(3) by (simp add: set_state_def)
  have o2: "open_state ?w2" by (simp add: open_state_def set_state_def)
  have "conn_inv ?w2"
    unfolding conn_inv_open [OF o2]
    using se(2) [of "\<lambda>e. e OR kReadEvent"] i c2 ch rd wr by (simp add: set_state_def isWriting_def)
  with 1 show ?thesis by (intro exI [of _ ?w2]) (simp add: set_state_def)
qed

lemma established_ok:
  assumes "conn_inv w" "state w = Connecting" "hooks_ok h"
  shows "\<exists>w'. connectionEstablished h w = Some w' \<and> conn_inv w' \<and> state w' = Connected \<and> chan w' = chan w
    \<and> user_calls w' = user_calls w @ [ConnectionCallback True]"
proof -
  from enable_ok [OF assms(1,2)] obtain w2 where w2: "enableReading (chan w) (set_state Connected w) = Some w2"
    "conn_inv w2" "state w2 = Connected" "user_calls w2 = user_calls w" "chan w2 = chan w" by blast
  from call_user_ok [of "on_connection h" w2 "ConnectionCallback True"] assms(3) w2 obtain w3 where
    w3: "call_user (ConnectionCallback True) (on_connection h) w2 = Some w3" "conn_inv w3" "state w3 = Connected"
    "user_calls w3 = user_calls w @ [ConnectionCallback True]" "chan w3 = chan w"
    by (auto simp: hooks_ok_def)
  with w2 assms(1) have "connectionEstablished h w = Some w3"
    by (simp add: connectionEstablished_def assertInLoopThread_def abort_simps conn_inv_def connected_def)
  with w3 show ?thesis by blast
qed

text \<open>The removal of a disconnected connection's channel.\<close>

lemma destroyed_ok:
  assumes "conn_inv w" "state w = Disconnected" "ch_registered (chan w) w"
  shows "\<exists>w'. connectionDestroyed h w = Some w' \<and> user_calls w' = user_calls w
    \<and> \<not> ch_registered (chan w) w' \<and> ch_watched (chan w) w' = None"
proof -
  from assms obtain ch where ch: "chans w (chan w) = Some ch" "ch_events ch = kNoneEvent" "ch_state ch \<noteq> kNew"
    and i: "poller_inv w" "in_loop_thread w"
    by (auto simp: conn_inv_def chan_ok_def ch_registered_def)
  have "isNoneEvent ch" using ch(2) by (simp add: isNoneEvent_def)
  from channel_remove_eq [OF i ch(1) this ch(3)] show ?thesis
    using assms(2) i(2) by (simp add: connectionDestroyed_def assertInLoopThread_def abort_simps removed_def
      ch_registered_def ch_watched_def)
qed

section \<open>Properties\<close>

text \<open>
  C6. Sending keeps the byte stream in order: on an open connection, whatever the kernel answers
  to the write (all, part, nothing, an error), the bytes it has taken followed by the output
  buffer grow by exactly the message, except that a message is dropped whole when the direct write
  reports EPIPE. The connection's invariant is kept: writing is watched exactly while the buffer is
  not empty.
\<close>
theorem send_extends_stream:
  assumes "conn_inv w" "state w = Connected \<or> state w = Disconnecting"
  shows "\<exists>w'. sendInThread s w = Some w' \<and> conn_inv w' \<and> state w' = state w
    \<and> stream w' = stream w @ (if epipe s w then [] else s)"
  using sendInThread_ok [OF assms(1)] assms(2) by (fastforce simp: open_state_def)

text \<open>
  C18. \<open>handleWrite\<close> moves bytes from the output buffer to the kernel without losing or reordering
  any, and when it empties the buffer of a connection being shut down it closes the write side:
  nothing that has reached the stream is cut off.
\<close>
theorem handleWrite_drains:
  assumes "conn_inv w" "state w = Connected \<or> state w = Disconnecting"
  shows "\<exists>w'. handleWrite w = Some w' \<and> conn_inv w' \<and> state w' = state w \<and> stream w' = stream w
    \<and> (content (outputBuffer w) \<noteq> [] \<and> content (outputBuffer w') = [] \<and> state w = Disconnecting
        \<longrightarrow> wr_shut (sock w') \<and> sent (sock w') = stream w)"
proof -
  have "open_state w" using assms(2) by (simp add: open_state_def)
  from handleWrite_ok [OF assms(1) this] obtain w' where w': "handleWrite w = Some w'" "conn_inv w'"
    "state w' = state w" "stream w' = stream w"
    "content (outputBuffer w) \<noteq> [] \<and> content (outputBuffer w') = [] \<and> state w = Disconnecting \<longrightarrow> wr_shut (sock w')"
    by blast
  then show ?thesis by (intro exI [of _ w']) (auto simp: stream_def)
qed

text \<open>
  C12. A connection's life with well-behaved user callbacks: established, closed by the peer,
  destroyed. No assertion fails, the user hears of the connection once up and once down, the owner
  is told to clean up once, and at the end the channel is out of the poller and the kernel's list.
\<close>
theorem connection_life_cycle:
  assumes "conn_inv w" "state w = Connecting" "hooks_ok h"
  shows "\<exists>w1 w2 w3. connectionEstablished h w = Some w1 \<and> handleClose h w1 = Some w2
    \<and> connectionDestroyed h w2 = Some w3
    \<and> user_calls w3 = user_calls w @ [ConnectionCallback True, ConnectionCallback False, CleanupCallback]
    \<and> \<not> ch_registered (chan w) w3 \<and> ch_watched (chan w) w3 = None"
proof -
  from established_ok [OF assms] obtain w1 where w1: "connectionEstablished h w = Some w1" "conn_inv w1"
    "state w1 = Connected" "chan w1 = chan w" "user_calls w1 = user_calls w @ [ConnectionCallback True]" by blast
  then have "open_state w1" by (simp add: open_state_def)
  from handleClose_ok [OF w1(2) this assms(3)] w1 obtain w2 where w2: "handleClose h w1 = Some w2" "conn_inv w2"
    "state w2 = Disconnected" "chan w2 = chan w" "ch_registered (chan w2) w2"
    "user_calls w2 = user_calls w @ [ConnectionCallback True, ConnectionCallback False, CleanupCallback]" by auto
  from destroyed_ok [OF w2(2,3,5), of h] w1 w2 show ?thesis by auto
qed

text \<open>
  Destroying a connection that is being shut down (after the user's \<open>shutdown\<close>, before the
  peer has closed) stops the process: \<open>connectionDestroyed\<close> disables the channel only in the state
  \<open>kConnected\<close>, and \<open>Channel::remove\<close> asserts that no event is watched.
\<close>
theorem destroy_while_disconnecting_crashes:
  assumes "conn_inv w" "state w = Disconnecting"
  shows "connectionDestroyed h w = None"
proof -
  have o: "open_state w" using assms(2) by (simp add: open_state_def)
  from assms(1) obtain ch where ch: "chans w (chan w) = Some ch" "has (ch_events ch) kReadEvent"
    unfolding conn_inv_open [OF o] by blast
  then have "\<not> isNoneEvent ch" using has_not_none by (simp add: isNoneEvent_def)
  with ch assms(2) show ?thesis
    by (simp add: connectionDestroyed_def channel_remove_def assertInLoopThread_def abort_simps)
qed

text \<open>
  \<open>send(Buffer*)\<close> treats the caller's buffer differently in the two threads: called in the
  loop's thread it leaves the sent bytes in the buffer, so a second call sends them again; from
  another thread it empties the buffer.
\<close>
theorem send_buffer_consumes_only_across_threads:
  assumes "conn_inv w" "state w = Connected" "buffer_inv b"
  shows "(\<exists>w'. send_buffer b w = Some (w', b) \<and> (\<not> epipe (content b) w \<longrightarrow> stream w' = stream w @ content b))
    \<and> (\<exists>w' b'. send_buffer b (w\<lparr>in_loop_thread := False\<rparr>) = Some (w', b') \<and> content b' = []
        \<and> pendingFunctors w' = pendingFunctors w @ [SendInLoop (content b)])"
proof
  have o: "open_state w" using assms(2) by (simp add: open_state_def)
  have l: "in_loop_thread w" using assms(1) by (simp add: conn_inv_def)
  from sendInThread_ok [OF assms(1) o, of "content b"] obtain w' where
    "sendInThread (content b) w = Some w'" "stream w' = stream w @ (if epipe (content b) w then [] else content b)" by blast
  with l assms(2,3) show "\<exists>w'. send_buffer b w = Some (w', b) \<and> (\<not> epipe (content b) w \<longrightarrow> stream w' = stream w @ content b)"
    by (simp add: send_buffer_def readable_slice)
next
  from retrieveAllAsString_ok [OF assms(3)] obtain b' where
    "retrieveAllAsString b = Some (b', content b)" "content b' = []" by blast
  with assms(2) show "\<exists>w' b'. send_buffer b (w\<lparr>in_loop_thread := False\<rparr>) = Some (w', b') \<and> content b' = []
      \<and> pendingFunctors w' = pendingFunctors w @ [SendInLoop (content b)]"
    by (simp add: send_buffer_def queueInLoop_def)
qed

text \<open>
  Reading: bytes that arrive are appended to the input buffer and handed to the message
  callback exactly once; end of file on an open connection closes it; a second close of the same
  connection fails the assertion of \<open>handleClose\<close>.
\<close>
theorem handleRead_delivers:
  assumes "conn_inv w" "rscript (sock w) = ReadBytes s # rs" "length s \<le> extrabuf_size"
  shows "(s \<noteq> [] \<longrightarrow> (\<exists>w2. handleRead h w = on_message h w2
        \<and> content (inputBuffer w2) = content (inputBuffer w) @ s \<and> outputBuffer w2 = outputBuffer w
        \<and> user_calls w2 = user_calls w @ [MessageCallback]))
    \<and> (s = [] \<and> state w = Disconnected \<longrightarrow> handleRead h w = None)"
proof -
  have i: "buffer_inv (inputBuffer w)" "in_loop_thread w" using assms(1) by (simp_all add: conn_inv_def)
  have "length s \<le> writeableBytes (inputBuffer w) + extrabuf_size" using assms(3) by simp
  from readFd_ok [OF i(1) this] obtain b where b: "readFd (inputBuffer w) (ReadBytes s) = Some (b, int (length s), None)"
    "content b = content (inputBuffer w) @ s" by blast
  let ?w2 = "w\<lparr>sock := (sock w)\<lparr>rscript := rs\<rparr>, inputBuffer := b\<rparr>"
  have n: "next_read w = (ReadBytes s, w\<lparr>sock := (sock w)\<lparr>rscript := rs\<rparr>\<rparr>)" using assms(2) by (simp add: next_read_def)
  have eq: "handleRead h w = (if s \<noteq> [] then call_user MessageCallback (on_message h) ?w2 else handleClose h ?w2)"
    using i(2) b(1) by (simp add: handleRead_def assertInLoopThread_def abort_simps n)
  show ?thesis
  proof (intro conjI impI)
    assume "s \<noteq> []"
    then show "\<exists>w2. handleRead h w = on_message h w2 \<and> content (inputBuffer w2) = content (inputBuffer w) @ s
        \<and> outputBuffer w2 = outputBuffer w \<and> user_calls w2 = user_calls w @ [MessageCallback]"
      using eq b(2) by (intro exI [of _ "?w2\<lparr>user_calls := user_calls w @ [MessageCallback]\<rparr>"]) (simp add: call_user_def)
  next
    assume "s = [] \<and> state w = Disconnected"
    with eq show "handleRead h w = None" by (simp add: handleClose_def assertInLoopThread_def abort_simps)
  qed
qed

section \<open>Witnesses\<close>

definition sample_chan :: "conn_state \<Rightarrow> conn_cb channel" where
  "sample_chan st = (channel_new 5)\<lparr>ch_events := (if st = Connecting then kNoneEvent else kReadEvent),
     ch_state := (if st = Connecting then kNew else kAdded)\<rparr>"

definition sample_tcp :: "conn_state \<Rightarrow> tcp" where
  "sample_tcp st = \<lparr>chans = (\<lambda>c. if c = 1 then Some (sample_chan st) else None),
     channels = (\<lambda>fd. if fd = 5 \<and> st \<noteq> Connecting then Some 1 else None), evlist_size = 16,
     interest = (\<lambda>fd. if fd = 5 \<and> st \<noteq> Connecting then Some (kReadEvent, 1) else None), in_loop_thread = True,
     looping = True, quit_flag = False, loop_eventHandling = False, callingPendingFunctors = False,
     wakeup_channel = 0, eventfd_count = 0, activeChannels = [], currentHandingChannel = None,
     pendingFunctors = [], sockfd = 5, state = st, conn_name = ''c'', chan = 1,
     localAddr = inet_any 80, peerAddr = inet_any 90, inputBuffer = buffer_new, outputBuffer = buffer_new,
     sock = \<lparr>sent = [], wr_shut = False, closed = False, keepalive = False, nodelay = False,
       wscript = [WAccept 1], rscript = [ReadBytes ''hi'']\<rparr>, user_calls = []\<rparr>"

lemma sample_poller: "poller_inv (sample_tcp st)"
  by (auto simp: poller_inv_def kernel_entry_def sample_tcp_def sample_chan_def channel_new_def)

lemma read_event_bits: "has kReadEvent kReadEvent" "\<not> has kReadEvent kWriteEvent"
  by (simp_all add: has_def kReadEvent_def kWriteEvent_def epoll_bits)

lemma sample_tcp_inv: "st \<noteq> Disconnected \<Longrightarrow> conn_inv (sample_tcp st)"
  unfolding conn_inv_def
  by (cases st) (simp_all add: sample_poller, simp_all add: sample_tcp_def sample_chan_def chan_ok_def
    channel_new_def isWriting_def read_event_bits)

definition quiet_hooks :: hooks where
  "quiet_hooks = \<lparr>on_connection = send_data ''hello'', on_message = Some, on_cleanup = Some\<rparr>"

lemma quiet_ok: "hooks_ok quiet_hooks"
  using send_data_well_behaved by (simp add: hooks_ok_def quiet_hooks_def) (simp add: well_behaved_def)

theorem send_extends_stream_witness:
  "\<exists>w'. sendInThread ''abc'' (sample_tcp Connected) = Some w' \<and> stream w' = ''abc''"
proof -
  have "\<not> epipe ''abc'' (sample_tcp Connected)" "stream (sample_tcp Connected) = []"
    "state (sample_tcp Connected) = Connected"
    by (simp_all add: epipe_def kwrite_def sample_tcp_def stream_def)
  with send_extends_stream [of "sample_tcp Connected" "''abc''"] sample_tcp_inv [of Connected] show ?thesis by auto
qed

theorem handleWrite_drains_witness:
  "\<exists>w'. handleWrite (sample_tcp Disconnecting) = Some w' \<and> stream w' = []"
proof -
  have "stream (sample_tcp Disconnecting) = []" "state (sample_tcp Disconnecting) = Disconnecting"
    by (simp_all add: sample_tcp_def stream_def)
  with handleWrite_drains [of "sample_tcp Disconnecting"] sample_tcp_inv [of Disconnecting] show ?thesis by auto
qed

theorem connection_life_cycle_witness:
  "\<exists>w1 w2 w3. connectionEstablished quiet_hooks (sample_tcp Connecting) = Some w1
    \<and> handleClose quiet_hooks w1 = Some w2 \<and> connectionDestroyed quiet_hooks w2 = Some w3
    \<and> user_calls w3 = [ConnectionCallback True, ConnectionCallback False, CleanupCallback]"
proof -
  have "state (sample_tcp Connecting) = Connecting" "user_calls (sample_tcp Connecting) = []"
    by (simp_all add: sample_tcp_def)
  with connection_life_cycle [OF sample_tcp_inv _ quiet_ok, of Connecting] show ?thesis by auto
qed

theorem destroy_while_disconnecting_crashes_witness:
  "connectionDestroyed quiet_hooks (sample_tcp Disconnecting) = None"
  by (rule destroy_while_disconnecting_crashes [OF sample_tcp_inv]) (simp_all add: sample_tcp_def)

theorem send_buffer_consumes_only_across_threads_witness:
  "\<exists>w'. send_buffer buffer_new (sample_tcp Connected) = Some (w', buffer_new)"
  using send_buffer_consumes_only_across_threads [OF sample_tcp_inv, of Connected buffer_new]
  by (auto simp: sample_tcp_def)

theorem handleRead_delivers_witness:
  "\<exists>w2. handleRead quiet_hooks (sample_tcp Connected) = on_message quiet_hooks w2 \<and> content (inputBuffer w2) = ''hi''"
proof -
  have "rscript (sock (sample_tcp Connected)) = [ReadBytes ''hi'']" "content (inputBuffer (sample_tcp Connected)) = []"
    by (simp_all add: sample_tcp_def)
  with handleRead_delivers [OF sample_tcp_inv, of Connected "''hi''" "[]" quiet_hooks] show ?thesis
    by (auto simp: extrabuf_size_def)
qed

end
