(* ===== verification/ConnectionEvents.thy ===== *)
theory ConnectionEvents
  imports TcpConnection
begin

text \<open>
  A connection under its event loop (\<open>matelib/TcpConnection.cc\<close> behind \<open>Channel::handleEvent\<close> and
  \<open>EpollPoller::poll\<close>): \<open>epoll_wait\<close> reports any events for its descriptor, in any order of calls, for as
  long as the connection is open, and the handlers run as \<open>handleEvent\<close> dispatches them.
\<close>

section \<open>One report of \<open>epoll_wait\<close>\<close>

text \<open>The events reported, and what \<open>readv\<close> returns if it is called.\<close>

definition conn_poll :: "hooks \<Rightarrow> events \<times> read_result \<Rightarrow> tcp \<Rightarrow> tcp option" where
  "conn_poll h e w = do {
     (w1, active, n) \<leftarrow> poller_poll (Some [(fst e, chan w)]) [] (w\<lparr>sock := (sock w)\<lparr>rscript := [snd e]\<rparr>\<rparr>);
     handle_active (run_cb h) active w1
   }"

fun conn_polls :: "hooks \<Rightarrow> (events \<times> read_result) list \<Rightarrow> tcp \<Rightarrow> tcp option" where
  "conn_polls h [] w = Some w"
| "conn_polls h (e # es) w = (if open_state w then do { w1 \<leftarrow> conn_poll h e w; conn_polls h es w1 } else Some w)"

text \<open>The channel's callbacks are those the constructor set.\<close>

definition bound :: "conn_cb channel \<Rightarrow> bool" where
  "bound ch \<longleftrightarrow> readCallback ch = Some OnRead \<and> writeCallback ch = Some OnWrite
     \<and> closeCallback ch = Some OnClose \<and> errorCallback ch = Some OnError"

definition shows_events :: "events \<Rightarrow> tcp \<Rightarrow> bool" where
  "shows_events ev w \<longleftrightarrow> (\<exists>ch. chans w (chan w) = Some ch \<and> bound ch \<and> ch_revents ch = ev)"

definition is_bound :: "tcp \<Rightarrow> bool" where
  "is_bound w \<longleftrightarrow> (\<exists>ch. chans w (chan w) = Some ch \<and> bound ch) \<and> 1 \<le> evlist_size w"

text \<open>
  The user's callbacks leave the channel's callbacks and the poller's list alone, and do not watch the
  descriptor of a closed connection.
\<close>

definition leaves_channel :: "(tcp \<Rightarrow> tcp option) \<Rightarrow> bool" where
  "leaves_channel f \<longleftrightarrow> (\<forall>w w' ch. conn_inv w \<longrightarrow> f w = Some w' \<longrightarrow> chans w (chan w) = Some ch \<longrightarrow>
     (\<exists>ch'. chans w' (chan w) = Some ch' \<and> same_dispatch ch' ch) \<and> evlist_size w' = evlist_size w
     \<and> (state w = Disconnected \<longrightarrow> ch_watched (chan w) w' = ch_watched (chan w) w))"

definition hooks_leave :: "hooks \<Rightarrow> bool" where
  "hooks_leave h \<longleftrightarrow> leaves_channel (on_connection h) \<and> leaves_channel (on_message h) \<and> leaves_channel (on_cleanup h)"

lemma bound_same: "same_dispatch a b \<Longrightarrow> bound a = bound b"
  by (simp add: same_dispatch_def bound_def)

lemma same_dispatch_refl [simp]: "same_dispatch a a"
  by (simp add: same_dispatch_def)

lemma same_dispatch_trans: "same_dispatch a b \<Longrightarrow> same_dispatch b c \<Longrightarrow> same_dispatch a c"
  by (simp add: same_dispatch_def)

section \<open>What the handlers leave of the channel\<close>

definition kept :: "tcp \<Rightarrow> tcp \<Rightarrow> bool" where
  "kept w w' \<longleftrightarrow> (\<forall>ch. chans w (chan w) = Some ch \<longrightarrow> (\<exists>ch'. chans w' (chan w) = Some ch' \<and> same_dispatch ch' ch))
     \<and> evlist_size w' = evlist_size w"

lemma kept_refl: "chans w' = chans w \<Longrightarrow> evlist_size w' = evlist_size w \<Longrightarrow> kept w w'"
  by (simp add: kept_def)

lemma kept_trans: "kept u v \<Longrightarrow> kept v w \<Longrightarrow> chan v = chan u \<Longrightarrow> kept u w"
  unfolding kept_def using same_dispatch_trans by metis

lemma kept_shows: "shows_events ev w \<Longrightarrow> kept w w' \<Longrightarrow> chan w' = chan w \<Longrightarrow> shows_events ev w'"
  unfolding shows_events_def kept_def using bound_same same_dispatch_def by metis

lemma upd_channel_kept:
  assumes "upd_channel c f v = Some v'" "\<And>ch. same_dispatch (f ch) ch"
  shows "chans v d = Some ch \<Longrightarrow> \<exists>ch'. chans v' d = Some ch' \<and> same_dispatch ch' ch" "evlist_size v' = evlist_size v"
  using assms by (auto simp: upd_channel_def split: option.splits)

lemma poller_update_chans: "poller_update op1 c v = Some v' \<Longrightarrow> chans v' = chans v \<and> evlist_size v' = evlist_size v"
  by (auto simp: poller_update_def bind_Some_iff split: option.splits if_splits)

lemma updateChannel_kept:
  assumes "updateChannel c v = Some v'" "chans v d = Some ch"
  shows "(\<exists>ch'. chans v' d = Some ch' \<and> same_dispatch ch' ch) \<and> evlist_size v' = evlist_size v"
proof -
  have st: "same_dispatch (setState s x) x" for s and x :: "'a channel" by (simp add: same_dispatch_def setState_def)
  from assms show ?thesis
    by (auto simp: updateChannel_def abort_simps bind_Some_iff Let_def split: if_splits
        dest!: poller_update_chans dest: upd_channel_kept [OF _ st])
qed

lemma set_events_kept:
  assumes "set_events c f v = Some v'" "chans v d = Some ch"
  shows "(\<exists>ch'. chans v' d = Some ch' \<and> same_dispatch ch' ch) \<and> evlist_size v' = evlist_size v"
proof -
  from assms(1) obtain v1 where v1: "upd_channel c (\<lambda>ch. ch\<lparr>ch_events := f (ch_events ch)\<rparr>) v = Some v1" "updateChannel c v1 = Some v'"
    by (auto simp: set_events_def bind_Some_iff)
  have "same_dispatch (x\<lparr>ch_events := e\<rparr>) x" for e and x :: "'a channel" by (simp add: same_dispatch_def)
  from upd_channel_kept [OF v1(1) this] assms(2) obtain ch1 where "chans v1 d = Some ch1" "same_dispatch ch1 ch"
    "evlist_size v1 = evlist_size v" by blast
  with updateChannel_kept [OF v1(2), of d ch1] same_dispatch_trans show ?thesis by metis
qed

lemma call_user_kept:
  assumes "call_user u f w = Some w'" "conn_inv w" "leaves_channel f"
  shows "kept w w'" "state w = Disconnected \<Longrightarrow> shows_events ev w \<Longrightarrow> ch_watched (chan w) w' = ch_watched (chan w) w"
proof -
  let ?v = "w\<lparr>user_calls := user_calls w @ [u]\<rparr>"
  have v: "conn_inv ?v" "f ?v = Some w'" "ch_watched (chan w) ?v = ch_watched (chan w) w"
    using assms(1,2) by (simp_all add: call_user_def ch_watched_def split: option.split)
  have l: "(\<exists>ch'. chans w' (chan w) = Some ch' \<and> same_dispatch ch' ch) \<and> evlist_size w' = evlist_size w
      \<and> (state w = Disconnected \<longrightarrow> ch_watched (chan w) w' = ch_watched (chan w) w)" if "chans w (chan w) = Some ch" for ch
    using assms(3)[unfolded leaves_channel_def, rule_format, OF v(1,2)] that v(3) by simp
  obtain ch where "chans w (chan w) = Some ch" using conn_inv_channel [OF assms(2)] by blast
  with l show "kept w w'" "state w = Disconnected \<Longrightarrow> shows_events ev w \<Longrightarrow> ch_watched (chan w) w' = ch_watched (chan w) w"
    by (auto simp: kept_def)
qed

lemma handleClose_kept:
  assumes "conn_inv w" "open_state w" "hooks_ok h" "hooks_leave h" "shows_events ev w"
  shows "\<exists>w'. handleClose h w = Some w' \<and> conn_inv w' \<and> state w' = Disconnected \<and> chan w' = chan w \<and> kept w w'
    \<and> user_calls w' = user_calls w @ [ConnectionCallback False, CleanupCallback] \<and> ch_watched (chan w') w' = None"
proof -
  note h = assms(3)[unfolded hooks_ok_def] and l = assms(4)[unfolded hooks_leave_def]
  from disable_ok [OF assms(1,2)] obtain w1 where w1: "disableAll (chan w) (set_state Disconnected w) = Some w1"
    "conn_inv w1" "state w1 = Disconnected" "user_calls w1 = user_calls w" "chan w1 = chan w" "ch_watched (chan w) w1 = None" by blast
  from set_events_kept [OF w1(1)[unfolded disableAll_def]] have k1: "kept w w1"
    using conn_inv_channel [OF assms(1)] by (auto simp: kept_def set_state_def)
  from call_user_ok [of "on_connection h" w1 "ConnectionCallback False"] h w1 obtain w2 where
    w2: "call_user (ConnectionCallback False) (on_connection h) w1 = Some w2" "conn_inv w2" "state w2 = Disconnected"
    "user_calls w2 = user_calls w @ [ConnectionCallback False]" "chan w2 = chan w" by auto
  from call_user_ok [of "on_cleanup h" w2 CleanupCallback] h w2 obtain w3 where
    w3: "call_user CleanupCallback (on_cleanup h) w2 = Some w3" "conn_inv w3" "state w3 = Disconnected"
    "user_calls w3 = user_calls w @ [ConnectionCallback False, CleanupCallback]" "chan w3 = chan w" by auto
  note c2 = call_user_kept [OF w2(1) w1(2)] and c3 = call_user_kept [OF w3(1) w2(2)]
  have k2: "kept w w2" using kept_trans [OF k1 c2(1)] l w1(5) by blast
  have k3: "kept w w3" using kept_trans [OF k2 c3(1)] l w2(5) by blast
  have "ch_watched (chan w) w3 = None"
    using c2(2) [of ev] c3(2) [of ev] l w1(3,5,6) w2(3,5) kept_shows [OF assms(5) k1] kept_shows [OF assms(5) k2] by simp
  with k3 w1 w2 w3 assms show ?thesis
    by (intro exI [of _ w3])
      (auto simp: handleClose_def assertInLoopThread_def abort_simps conn_inv_def connected_def open_state_def)
qed

lemma shutdownInLoop_kept:
  assumes "shutdownInLoop v = Some v'"
  shows "chans v' = chans v" "evlist_size v' = evlist_size v" "inputBuffer v' = inputBuffer v"
proof -
  have "v' = v\<lparr>sock := (sock v)\<lparr>wr_shut := True\<rparr>\<rparr> \<or> v' = v"
    using assms by (cases "chans v (chan v)")
      (simp_all add: shutdownInLoop_def assertInLoopThread_def abort_simps split: if_split_asm)
  then show "chans v' = chans v" "evlist_size v' = evlist_size v" "inputBuffer v' = inputBuffer v" by (elim disjE; simp)+
qed

lemma handleWrite_outcome:
  assumes "handleWrite w = Some w'"
  obtains "w' = w" | k where "w' = w\<lparr>sock := k\<rparr>" | k ob where "w' = w\<lparr>sock := k, outputBuffer := ob\<rparr>"
  | k ob w3 where "disableWriting (chan w) (w\<lparr>sock := k, outputBuffer := ob\<rparr>) = Some w3" "w' = w3 \<or> shutdownInLoop w3 = Some w'"
proof -
  from assms obtain ch where ch: "chans w (chan w) = Some ch" by (auto simp: handleWrite_def bind_Some_iff)
  let ?ob = "outputBuffer w"
  obtain k r where kr: "kwrite (slice (peek ?ob) (peek ?ob + readableBytes ?ob) (bufvec ?ob)) (sock w) = (k, r)" by fastforce
  show thesis
  proof (cases "isWriting ch")
    case False
    with assms ch that(1) show thesis by (simp add: handleWrite_def)
  next
    case w: True
    show thesis
    proof (cases "\<exists>n > 0. r = Inr n")
      case False
      then have "(\<exists>e. r = Inl e) \<or> r = Inr 0" by (cases r) simp_all
      with assms ch kr w that(2) [of k] show thesis by (auto simp: handleWrite_def Let_def)
    next
      case True
      then obtain n where n: "isWriting ch" "n > 0" "r = Inr n" using w by blast
    with assms ch kr n obtain ob where ob: "retrieve ?ob n = Some ob" by (auto simp: handleWrite_def Let_def bind_Some_iff)
    let ?w2 = "w\<lparr>sock := k, outputBuffer := ob\<rparr>"
    have e: "handleWrite w = (if readableBytes ob = 0 then do {
        w3 \<leftarrow> disableWriting (chan w) ?w2; if state w3 = Disconnecting then shutdownInLoop w3 else Some w3 } else Some ?w2)"
      using ch kr n ob by (simp add: handleWrite_def Let_def)
    show thesis
    proof (cases "readableBytes ob = 0")
      case False
      with assms e that(3) [of ob k] show thesis by simp
    next
      case z: True
      with assms e obtain w3 where "disableWriting (chan w) ?w2 = Some w3"
        "(if state w3 = Disconnecting then shutdownInLoop w3 else Some w3) = Some w'"
        by (auto simp: bind_Some_iff)
      with that(4) show thesis by (auto split: if_splits)
    qed
    qed
  qed
qed

lemma handleWrite_kept:
  assumes "handleWrite w = Some w'" "conn_inv w"
  shows "kept w w'" "inputBuffer w' = inputBuffer w"
proof -
  obtain ch where ch: "chans w (chan w) = Some ch" using conn_inv_channel [OF assms(2)] by blast
  have "kept w w' \<and> inputBuffer w' = inputBuffer w"
  proof (rule handleWrite_outcome [OF assms(1)])
    fix k ob w3 assume d: "disableWriting (chan w) (w\<lparr>sock := k, outputBuffer := ob\<rparr>) = Some w3"
      and w': "w' = w3 \<or> shutdownInLoop w3 = Some w'"
    note d = d[unfolded disableWriting_def]
    have "kept w w3" "inputBuffer w3 = inputBuffer w"
      using set_events_kept [OF d] more_tcp(2) [OF set_events_more [OF d]] ch by (auto simp: kept_def)
    with w' shutdownInLoop_kept [of w3 w'] show ?thesis by (auto simp: kept_def)
  qed (simp_all add: kept_def)
  then show "kept w w'" "inputBuffer w' = inputBuffer w" by simp_all
qed

lemma sendInThread_kept:
  assumes "sendInThread s w = Some w'" "conn_inv w" "open_state w"
  shows "kept w w'"
proof -
  from assms(2) obtain ch where ch: "chans w (chan w) = Some ch" "in_loop_thread w" by (auto simp: conn_inv_def)
  obtain w1 err n where d: "(if \<not> isWriting ch \<and> readableBytes (outputBuffer w) = 0 then direct_write s w else (w, False, 0))
    = (w1, err, n)" by (metis prod_cases3)
  have w1: "chans w1 = chans w" "evlist_size w1 = evlist_size w" "chan w1 = chan w"
    using d by (auto simp: direct_write_def split: if_splits prod.splits sum.splits)
  have "w' = w1 \<or> buffer_rest (drop n s) w1 = Some w'"
    using assms(1) unfolding sendInThread_alt [OF ch(2) assms(3) ch(1)] d Let_def prod.case by (auto split: if_splits)
  then show ?thesis
  proof
    assume "buffer_rest (drop n s) w1 = Some w'"
    then obtain ob where "w' = w1\<lparr>outputBuffer := ob\<rparr> \<or> enableWriting (chan w1) (w1\<lparr>outputBuffer := ob\<rparr>) = Some w'"
      by (auto simp: buffer_rest_def Let_def bind_Some_iff split: if_splits)
    then show ?thesis
    proof
      assume "enableWriting (chan w1) (w1\<lparr>outputBuffer := ob\<rparr>) = Some w'"
      from set_events_kept [OF this[unfolded enableWriting_def], of "chan w"] w1 ch(1) show ?thesis by (simp add: kept_def)
    qed (use w1 in \<open>simp add: kept_def\<close>)
  qed (use w1 in \<open>simp add: kept_def\<close>)
qed

lemma handleWrite_closed:
  assumes "conn_inv w" "state w = Disconnected"
  shows "handleWrite w = Some w"
proof -
  from assms obtain ch where "chans w (chan w) = Some ch" "ch_events ch = kNoneEvent" by (auto simp: conn_inv_def chan_ok_def)
  then show ?thesis by (simp add: handleWrite_def isWriting_def has_def kNoneEvent_def)
qed

section \<open>One event of an open connection\<close>

text \<open>
  What the user has heard: messages, and when the connection has closed, that it is down and then the
  request to clean up.
\<close>

definition heard :: "user_call list \<Rightarrow> tcp \<Rightarrow> bool" where
  "heard us w \<longleftrightarrow> (\<exists>ms. set ms \<subseteq> {MessageCallback} \<and>
     (open_state w \<and> user_calls w = us @ ms \<or> state w = Disconnected \<and> ch_watched (chan w) w = None
        \<and> user_calls w = us @ ms @ [ConnectionCallback False, CleanupCallback]))"

definition running :: "nat \<Rightarrow> events \<Rightarrow> user_call list \<Rightarrow> tcp \<Rightarrow> bool" where
  "running c ev us w \<longleftrightarrow> conn_inv w \<and> chan w = c \<and> shows_events ev w \<and> heard us w \<and> 1 \<le> evlist_size w"

lemma running_close:
  assumes "running c ev us w" "open_state w" "hooks_ok h" "hooks_leave h"
  shows "\<exists>w'. handleClose h w = Some w' \<and> running c ev us w' \<and> state w' = Disconnected"
proof -
  from assms(1) have r: "conn_inv w" "chan w = c" "shows_events ev w" "heard us w" "1 \<le> evlist_size w" by (simp_all add: running_def)
  from handleClose_kept [OF r(1) assms(2,3,4) r(3)] obtain w' where w': "handleClose h w = Some w'" "conn_inv w'"
    "state w' = Disconnected" "chan w' = chan w" "kept w w'"
    "user_calls w' = user_calls w @ [ConnectionCallback False, CleanupCallback]" "ch_watched (chan w') w' = None" by blast
  from r(4) assms(2) obtain ms where "set ms \<subseteq> {MessageCallback}" "user_calls w = us @ ms"
    by (auto simp: heard_def open_state_def)
  with w' have "heard us w'" by (auto simp: heard_def)
  with w' r kept_shows [OF r(3) w'(5)] show ?thesis by (auto simp: running_def kept_def shows_events_def)
qed

definition valid_read :: "read_result \<Rightarrow> bool" where
  "valid_read r \<longleftrightarrow> (case r of ReadBytes s \<Rightarrow> length s \<le> extrabuf_size | ReadError e \<Rightarrow> True)"

lemma running_frame:
  assumes "running c ev us w" "wr_shut k = wr_shut (sock w)" "buffer_inv b"
  shows "running c ev us (w\<lparr>sock := k, inputBuffer := b\<rparr>)"
proof -
  have "conn_inv (w\<lparr>sock := k\<rparr>)" using assms(1,2) by (simp add: running_def conn_inv_sock)
  from conn_inv_input [OF this assms(3)] have "conn_inv (w\<lparr>sock := k, inputBuffer := b\<rparr>)" .
  moreover have "ch_watched d (w\<lparr>sock := k, inputBuffer := b\<rparr>) = ch_watched d w" for d
    by (simp add: ch_watched_def split: option.split)
  then have "heard us (w\<lparr>sock := k, inputBuffer := b\<rparr>) = heard us w" by (simp add: heard_def open_state_def)
  moreover have "shows_events ev (w\<lparr>sock := k, inputBuffer := b\<rparr>) = shows_events ev w" by (simp add: shows_events_def)
  ultimately show ?thesis using assms(1) by (simp add: running_def)
qed

lemma running_read:
  assumes "running c ev us w" "open_state w" "hooks_ok h" "hooks_leave h" "rscript (sock w) = [r]" "valid_read r"
  shows "\<exists>w'. handleRead h w = Some w' \<and> running c ev us w'"
proof -
  have i: "conn_inv w" using assms(1) by (simp add: running_def)
  then have i: "conn_inv w" "in_loop_thread w" "buffer_inv (inputBuffer w)" by (simp_all add: conn_inv_def)
  let ?k = "(sock w)\<lparr>rscript := []\<rparr>"
  have n: "next_read w = (r, w\<lparr>sock := ?k\<rparr>)" using assms(5) by (simp add: next_read_def)
  show ?thesis
  proof (cases r)
    case (ReadError e)
    then have "handleRead h w = Some (w\<lparr>sock := ?k, inputBuffer := inputBuffer w\<rparr>)"
      using i(2) n by (simp add: handleRead_def assertInLoopThread_def abort_simps readFd_def handleError_def)
    with running_frame [OF assms(1) _ i(3), of ?k] show ?thesis by simp
  next
    case (ReadBytes s)
    with assms(6) have "length s \<le> writeableBytes (inputBuffer w) + extrabuf_size" by (simp add: valid_read_def)
    from readFd_ok [OF i(3) this] obtain b where b: "readFd (inputBuffer w) (ReadBytes s) = Some (b, int (length s), None)"
      "buffer_inv b" by blast
    let ?v = "w\<lparr>sock := ?k, inputBuffer := b\<rparr>"
    have v: "running c ev us ?v" by (rule running_frame [OF assms(1) _ b(2)]) simp
    have e: "handleRead h w = (if s \<noteq> [] then call_user MessageCallback (on_message h) ?v else handleClose h ?v)"
      using i(2) b(1) ReadBytes by (simp add: handleRead_def assertInLoopThread_def abort_simps n)
    have o: "open_state ?v" using assms(2) by (simp add: open_state_def)
    show ?thesis
    proof (cases "s = []")
      case True
      with e running_close [OF v o assms(3,4)] show ?thesis by auto
    next
      case False
      have cv: "conn_inv ?v" "chan ?v = c" "shows_events ev ?v" "1 \<le> evlist_size ?v" using v by (simp_all add: running_def)
      from call_user_ok [of "on_message h" ?v MessageCallback] assms(3) cv(1) obtain w' where
        w': "call_user MessageCallback (on_message h) ?v = Some w'" "conn_inv w'" "state w' = state ?v"
        "user_calls w' = user_calls ?v @ [MessageCallback]" "chan w' = chan ?v" by (auto simp: hooks_ok_def)
      from call_user_kept(1) [OF w'(1) cv(1)] assms(4) have k: "kept ?v w'" by (simp add: hooks_leave_def)
      from v o obtain ms where ms: "set ms \<subseteq> {MessageCallback}" "user_calls ?v = us @ ms"
        by (auto simp: running_def heard_def open_state_def)
      with w'(3,4) o have "heard us w'" unfolding heard_def
        by (intro exI [of _ "ms @ [MessageCallback]"]) (simp add: open_state_def)
      moreover have "1 \<le> evlist_size w'" using k cv(4) by (simp add: kept_def)
      ultimately have "running c ev us w'" using w' cv(2) kept_shows [OF cv(3) k] by (simp add: running_def)
      with e w'(1) False show ?thesis by simp
    qed
  qed
qed

lemma running_write:
  assumes "running c ev us w"
  shows "\<exists>w'. handleWrite w = Some w' \<and> running c ev us w'"
proof (cases "open_state w")
  case True
  from assms have r: "conn_inv w" "chan w = c" "shows_events ev w" "heard us w" "1 \<le> evlist_size w" by (simp_all add: running_def)
  from handleWrite_ok [OF r(1) True] obtain w' where w': "handleWrite w = Some w'" "conn_inv w'" "state w' = state w"
    "chan w' = chan w" "user_calls w' = user_calls w" by blast
  have k: "kept w w'" by (rule handleWrite_kept(1) [OF w'(1) r(1)])
  have "heard us w'" using r(4) w'(3,5) True by (auto simp: heard_def open_state_def)
  with w' r kept_shows [OF r(3) k] k show ?thesis by (auto simp: running_def kept_def)
next
  case False
  with assms have "conn_inv w" "state w = Disconnected" by (auto simp: running_def heard_def)
  from handleWrite_closed [OF this] have "handleWrite w = Some w" .
  with assms show ?thesis by simp
qed

text \<open>
  A hang-up without data to read, reported together with urgent data or a shutdown by the peer: the close
  callback and the read callback run both.
\<close>

definition conflicting :: "events \<Rightarrow> bool" where
  "conflicting ev \<longleftrightarrow> has ev EPOLLHUP \<and> \<not> has ev EPOLLIN \<and> (has ev EPOLLPRI \<or> has ev EPOLLRDHUP)"

lemma call_if_shows:
  assumes "shows_events ev w"
  shows "call_if run (chan w) wants_close closeCallback w = (if has ev EPOLLHUP \<and> \<not> has ev EPOLLIN then run OnClose w else Some w)"
    and "call_if run (chan w) wants_read readCallback w
      = (if has ev EPOLLIN \<or> has ev EPOLLPRI \<or> has ev EPOLLRDHUP then run OnRead w else Some w)"
    and "call_if run (chan w) wants_write writeCallback w = (if has ev EPOLLOUT then run OnWrite w else Some w)"
    and "call_if (run_cb h) (chan w) wants_error errorCallback w = Some w"
  using assms by (auto simp: shows_events_def bound_def call_if_def wants_close_def wants_read_iff wants_write_def handleError_def)

definition flagged :: "bool \<Rightarrow> conn_cb channel \<Rightarrow> conn_cb channel" where
  "flagged b ch = ch\<lparr>eventHandling := b\<rparr>"

text \<open>
  What a user of the connection cares for: its state, its buffers and its socket, but for the answer of
  the next read. \<open>hangs_up\<close> and \<open>readable\<close> are the tests of the close and the read callback.
\<close>

definition core :: "tcp \<Rightarrow> conn_state \<times> buffer \<times> buffer \<times> ksock" where
  "core w = (state w, inputBuffer w, outputBuffer w, (sock w)\<lparr>rscript := []\<rparr>)"

abbreviation hangs_up :: "events \<Rightarrow> bool" where
  "hangs_up ev \<equiv> has ev EPOLLHUP \<and> \<not> has ev EPOLLIN"

abbreviation readable :: "events \<Rightarrow> bool" where
  "readable ev \<equiv> has ev EPOLLIN \<or> has ev EPOLLPRI \<or> has ev EPOLLRDHUP"

text \<open>
  \<open>leads h ev r P Q\<close>: from \<open>P\<close>, whichever of the two callbacks \<open>ev\<close> makes due leads to \<open>Q\<close> when the read
  returns \<open>r\<close>, and the write callback keeps \<open>Q\<close>.
\<close>

definition leads :: "hooks \<Rightarrow> events \<Rightarrow> read_result \<Rightarrow> (conn_state \<times> buffer \<times> buffer \<times> ksock \<Rightarrow> bool) \<Rightarrow>
    (conn_state \<times> buffer \<times> buffer \<times> ksock \<Rightarrow> bool) \<Rightarrow> bool" where
  "leads h ev r P Q \<longleftrightarrow> (\<forall>v v'. conn_inv v \<longrightarrow>
     (open_state v \<and> P (core v) \<longrightarrow> (hangs_up ev \<and> handleClose h v = Some v' \<longrightarrow> Q (core v'))
        \<and> (readable ev \<and> rscript (sock v) = [r] \<and> handleRead h v = Some v' \<longrightarrow> Q (core v'))
        \<and> (\<not> hangs_up ev \<and> \<not> readable ev \<longrightarrow> Q (core v)))
     \<and> (Q (core v) \<and> handleWrite v = Some v' \<longrightarrow> Q (core v')))"

lemma leads_any: "leads h ev r (\<lambda>_. True) (\<lambda>_. True)"
  by (simp add: leads_def)

text \<open>Changes of the channel that no invariant reads.\<close>

lemma conn_inv_channel_change:
  assumes "conn_inv w" "chans w (chan w) = Some ch" "ch_fd ch' = ch_fd ch" "ch_events ch' = ch_events ch" "ch_state ch' = ch_state ch"
  shows "conn_inv (w\<lparr>chans := (chans w)(chan w := Some ch')\<rparr>)"
proof -
  let ?v = "w\<lparr>chans := (chans w)(chan w := Some ch')\<rparr>"
  have k: "kernel_entry ?v fd = kernel_entry w fd" for fd
    using assms(2-5) by (auto simp: kernel_entry_def split: option.splits)
  have p: "poller_inv w" using assms(1) by (simp add: conn_inv_def)
  have A: "\<exists>x. chans ?v d = Some x \<and> ch_fd x = fd \<and> (ch_state x = kAdded \<or> ch_state x = kDeleted)"
    if "channels ?v fd = Some d" for fd d
    using poller_inv_registered [OF p, of fd d] that assms(2-5) by (cases "d = chan w") auto
  have B: "ch_state x = kNew \<or> channels ?v (ch_fd x) = Some d" if "chans ?v d = Some x" for d x
    using poller_inv_state [OF p, of d] that assms(2-5) by (cases "d = chan w") auto
  have C: "interest ?v fd = kernel_entry ?v fd" for fd using poller_inv_interest [OF p] k by simp
  have "poller_inv ?v" unfolding poller_inv_def using A B C by blast
  moreover have "chan_ok ?v ch' = chan_ok w ch" using assms(3-5)
    by (simp add: chan_ok_def isWriting_def split: conn_state.split)
  ultimately show ?thesis using assms(1,2) by (simp add: conn_inv_def)
qed

lemma running_flag:
  assumes "running c ev us w"
  shows "\<exists>w'. upd_channel c (flagged b) w = Some w' \<and> running c ev us w' \<and> state w' = state w \<and> sock w' = sock w
    \<and> core w' = core w"
proof -
  from assms have r: "conn_inv w" "chan w = c" "shows_events ev w" "heard us w" "1 \<le> evlist_size w" by (simp_all add: running_def)
  then obtain ch where ch: "chans w (chan w) = Some ch" "bound ch" "ch_revents ch = ev" by (auto simp: shows_events_def)
  let ?v = "w\<lparr>chans := (chans w)(chan w := Some (flagged b ch))\<rparr>"
  have "conn_inv ?v" by (rule conn_inv_channel_change [OF r(1) ch(1)]) (simp_all add: flagged_def)
  moreover have "shows_events ev ?v" using ch by (simp add: shows_events_def bound_def flagged_def)
  moreover have "ch_watched (chan w) ?v = ch_watched (chan w) w" using ch(1) by (simp add: ch_watched_def flagged_def)
  then have "heard us ?v" using r(4) by (simp add: heard_def open_state_def)
  ultimately show ?thesis using r(2,5) ch(1) by (auto simp: upd_channel_def running_def core_def)
qed

lemma running_event:
  assumes "running c ev us w" "open_state w" "hooks_ok h" "hooks_leave h" "rscript (sock w) = [r]" "valid_read r" "\<not> conflicting ev"
    and Q: "leads h ev r P Q" "P (core w)"
  shows "\<exists>w'. handleEvent (run_cb h) c w = Some w' \<and> running c ev us w' \<and> Q (core w')"
proof -
  from running_flag [OF assms(1), of True] assms(2,5) Q(2) obtain w0 where
    w0: "upd_channel c (flagged True) w = Some w0" "running c ev us w0" "open_state w0" "rscript (sock w0) = [r]" "P (core w0)"
    by (auto simp: open_state_def)
  have i: "conn_inv v" if "running c ev us v" for v using that by (simp add: running_def)
  have sh: "chan v = c" "shows_events ev v" if "running c ev us v" for v using that by (simp_all add: running_def)
  have lc: "handleClose h v = Some v' \<Longrightarrow> hangs_up ev \<Longrightarrow> running c ev us v \<Longrightarrow> open_state v \<Longrightarrow> P (core v) \<Longrightarrow> Q (core v')"
    and lr: "handleRead h v = Some v' \<Longrightarrow> readable ev \<Longrightarrow> running c ev us v \<Longrightarrow> open_state v \<Longrightarrow> P (core v)
      \<Longrightarrow> rscript (sock v) = [r] \<Longrightarrow> Q (core v')"
    and ln: "\<not> hangs_up ev \<Longrightarrow> \<not> readable ev \<Longrightarrow> running c ev us v \<Longrightarrow> open_state v \<Longrightarrow> P (core v) \<Longrightarrow> Q (core v)"
    and lw: "handleWrite v = Some v' \<Longrightarrow> running c ev us v \<Longrightarrow> Q (core v) \<Longrightarrow> Q (core v')" for v v'
    using Q(1) i unfolding leads_def by blast+
  have "\<exists>w1. call_if (run_cb h) c wants_close closeCallback w0 = Some w1 \<and> running c ev us w1
      \<and> (if hangs_up ev then Q (core w1) else w1 = w0)"
    using running_close [OF w0(2,3) assms(3,4)] call_if_shows(1) [OF sh(2) [OF w0(2)], of "run_cb h"] sh(1) [OF w0(2)] w0(2)
      lc [OF _ _ w0(2,3,5)] by auto
  then obtain w1 where w1: "call_if (run_cb h) c wants_close closeCallback w0 = Some w1" "running c ev us w1"
    "if hangs_up ev then Q (core w1) else w1 = w0" by blast
  have e1: "call_if (run_cb h) c wants_error errorCallback w1 = Some w1"
    using call_if_shows(4) [OF sh(2) [OF w1(2)]] sh(1) [OF w1(2)] by simp
  have "\<exists>w2. call_if (run_cb h) c wants_read readCallback w1 = Some w2 \<and> running c ev us w2 \<and> Q (core w2)"
  proof (cases "readable ev")
    case True
    with assms(7) w1(3) have "w1 = w0" by (auto simp: conflicting_def)
    with running_read [OF w0(2,3) assms(3,4) w0(4) assms(6)] True call_if_shows(2) [OF sh(2) [OF w1(2)], of "run_cb h"] sh(1) [OF w1(2)]
      lr [OF _ True w0(2,3,5,4)] show ?thesis by auto
  next
    case False
    then have "Q (core w1)" using w1(3) ln [OF _ False w0(2,3,5)] by (auto split: if_splits)
    with False w1(2) call_if_shows(2) [OF sh(2) [OF w1(2)], of "run_cb h"] sh(1) [OF w1(2)] show ?thesis by auto
  qed
  then obtain w2 where w2: "call_if (run_cb h) c wants_read readCallback w1 = Some w2" "running c ev us w2" "Q (core w2)" by blast
  have "\<exists>w3. call_if (run_cb h) c wants_write writeCallback w2 = Some w3 \<and> running c ev us w3 \<and> Q (core w3)"
    using running_write [OF w2(2)] w2(2,3) call_if_shows(3) [OF sh(2) [OF w2(2)], of "run_cb h"] sh(1) [OF w2(2)]
      lw [OF _ w2(2,3)] by auto
  then obtain w3 where w3: "call_if (run_cb h) c wants_write writeCallback w2 = Some w3" "running c ev us w3" "Q (core w3)" by blast
  from running_flag [OF w3(2), of False] w3(3) obtain w4 where
    w4: "upd_channel c (flagged False) w3 = Some w4" "running c ev us w4" "Q (core w4)" by auto
  have "handleEvent (run_cb h) c w = Some w4"
    using w0(1) w1(1) e1 w2(1) w3(1) w4(1) by (simp add: handleEvent_def flagged_def [abs_def])
  with w4(2,3) show ?thesis by blast
qed

section \<open>Any events\<close>

lemma poll_starts:
  assumes "conn_inv w" "is_bound w" "open_state w"
  shows "\<exists>w1. poller_poll (Some [(ev, chan w)]) [] (w\<lparr>sock := (sock w)\<lparr>rscript := [r]\<rparr>\<rparr>) = Some (w1, [chan w], 1)
    \<and> running (chan w) ev (user_calls w) (w1\<lparr>currentHandingChannel := Some (chan w)\<rparr>)
    \<and> open_state w1 \<and> rscript (sock w1) = [r] \<and> core w1 = core w"
proof -
  from assms(2) obtain ch where ch: "chans w (chan w) = Some ch" "bound ch" and n: "1 \<le> evlist_size w" by (auto simp: is_bound_def)
  let ?v = "w\<lparr>sock := (sock w)\<lparr>rscript := [r]\<rparr>, chans := (chans w)(chan w := Some (setRevents ev ch))\<rparr>"
  let ?w1 = "if evlist_size w = 1 then ?v\<lparr>evlist_size := evlist_size w * 2\<rparr> else ?v"
  let ?w2 = "?w1\<lparr>currentHandingChannel := Some (chan w)\<rparr>"
  have "conn_inv (w\<lparr>sock := (sock w)\<lparr>rscript := [r]\<rparr>\<rparr>)" using assms(1) by (simp add: conn_inv_sock)
  from conn_inv_channel_change [OF this, of ch "setRevents ev ch"] ch(1) have "conn_inv ?v" by (simp add: setRevents_def)
  then have "conn_inv ?w2" by (subst conn_inv_cong [of ?w2 ?v]) simp_all
  moreover have "shows_events ev ?w2" using ch by (simp add: shows_events_def bound_def setRevents_def)
  moreover have "heard (user_calls w) ?w2" unfolding heard_def
    by (intro exI [of _ "[]"]) (use assms(3) in \<open>simp add: open_state_def\<close>)
  moreover have "chan ?w2 = chan w" "1 \<le> evlist_size ?w2" using n by simp_all
  ultimately have "running (chan w) ev (user_calls w) ?w2" by (simp only: running_def simp_thms)
  moreover have "poller_poll (Some [(ev, chan w)]) [] (w\<lparr>sock := (sock w)\<lparr>rscript := [r]\<rparr>\<rparr>) = Some (?w1, [chan w], 1)"
    using ch(1) n by (simp add: poller_poll_def abort_simps upd_channel_def)
  ultimately show ?thesis using assms(3) by (intro exI [of _ ?w1]) (simp add: open_state_def core_def)
qed

lemma conn_poll_ok:
  assumes "conn_inv w" "is_bound w" "open_state w" "hooks_ok h" "hooks_leave h" "valid_read r" "\<not> conflicting ev"
    and Q: "leads h ev r P Q" "P (core w)"
  shows "\<exists>w'. conn_poll h (ev, r) w = Some w' \<and> conn_inv w' \<and> is_bound w' \<and> heard (user_calls w) w' \<and> Q (core w')"
proof -
  from poll_starts [OF assms(1-3), of ev r] obtain w1 where
    w1: "poller_poll (Some [(ev, chan w)]) [] (w\<lparr>sock := (sock w)\<lparr>rscript := [r]\<rparr>\<rparr>) = Some (w1, [chan w], 1)"
    "running (chan w) ev (user_calls w) (w1\<lparr>currentHandingChannel := Some (chan w)\<rparr>)"
    "open_state w1" "rscript (sock w1) = [r]" "core w1 = core w" by blast
  let ?w2 = "w1\<lparr>currentHandingChannel := Some (chan w)\<rparr>"
  have "open_state ?w2" "rscript (sock ?w2) = [r]" "P (core ?w2)"
    using w1(3-5) Q(2) by (simp_all add: open_state_def) (simp add: core_def)
  from running_event [OF w1(2) this(1) assms(4,5) this(2) assms(6,7) Q(1) this(3)] obtain w' where
    "handleEvent (run_cb h) (chan w) ?w2 = Some w'" "running (chan w) ev (user_calls w) w'" "Q (core w')" by auto
  with w1(1) show ?thesis by (auto simp: conn_poll_def running_def is_bound_def shows_events_def)
qed

lemma heard_more: "heard us v \<Longrightarrow> open_state v \<Longrightarrow> heard (user_calls v) w \<Longrightarrow> heard us w"
proof -
  assume "heard us v" "open_state v"
  then obtain ms where ms: "set ms \<subseteq> {MessageCallback}" "user_calls v = us @ ms" by (auto simp: heard_def open_state_def)
  assume "heard (user_calls v) w"
  then obtain ns where ns: "set ns \<subseteq> {MessageCallback}" and
    "open_state w \<and> user_calls w = user_calls v @ ns \<or> state w = Disconnected \<and> ch_watched (chan w) w = None
        \<and> user_calls w = user_calls v @ ns @ [ConnectionCallback False, CleanupCallback]" by (auto simp: heard_def)
  then show ?thesis using ms unfolding heard_def by (intro exI [of _ "ms @ ns"]) auto
qed

lemma conn_polls_ok:
  assumes "hooks_ok h" "hooks_leave h"
  shows "conn_inv w \<Longrightarrow> is_bound w \<Longrightarrow> heard us w \<Longrightarrow> \<forall>e \<in> set es. valid_read (snd e) \<and> \<not> conflicting (fst e)
    \<Longrightarrow> \<exists>w'. conn_polls h es w = Some w' \<and> conn_inv w' \<and> heard us w'"
proof (induction es arbitrary: w)
  case (Cons e es)
  show ?case
  proof (cases "open_state w")
    case True
    obtain ev r where e: "e = (ev, r)" by (cases e)
    from conn_poll_ok [OF Cons.prems(1,2) True assms _ _ leads_any, of r ev] Cons.prems(4) e obtain w1 where
      w1: "conn_poll h e w = Some w1" "conn_inv w1" "is_bound w1" "heard (user_calls w) w1" by auto
    from Cons.IH [OF w1(2,3) heard_more [OF Cons.prems(3) True w1(4)]] Cons.prems(4) w1(1) True show ?thesis by simp
  qed (use Cons.prems in simp)
qed auto

text \<open>
  C5. A connection survives its event loop: whatever events are reported for its descriptor, in whatever
  combination and for as long as it is open, and whatever its reads return, the handlers that are due pass
  every assertion and keep the invariant. The user hears messages only, until the connection closes; then
  that it is down and the request to clean up, once each and in this order, after which the kernel watches
  the descriptor no more. The one combination excluded is a hang-up without data that comes together
  with urgent data or the peer's shutdown.
\<close>
theorem connection_survives_events:
  assumes "conn_inv w" "state w = Connected \<or> state w = Disconnecting" "is_bound w" "hooks_ok h" "hooks_leave h"
    "\<forall>e \<in> set es. valid_read (snd e) \<and> \<not> conflicting (fst e)"
  shows "\<exists>w' ms. conn_polls h es w = Some w' \<and> conn_inv w' \<and> set ms \<subseteq> {MessageCallback}
    \<and> (if state w' = Disconnected
       then user_calls w' = user_calls w @ ms @ [ConnectionCallback False, CleanupCallback] \<and> ch_watched (chan w') w' = None
       else user_calls w' = user_calls w @ ms \<and> (state w' = Connected \<or> state w' = Disconnecting))"
proof -
  have "heard (user_calls w) w" unfolding heard_def using assms(2) by (intro exI [of _ "[]"]) (simp add: open_state_def)
  from conn_polls_ok [OF assms(4,5,1,3) this assms(6)] obtain w' ms where w': "conn_polls h es w = Some w'" "conn_inv w'"
    "set ms \<subseteq> {MessageCallback}" "open_state w' \<and> user_calls w' = user_calls w @ ms \<or> state w' = Disconnected
      \<and> ch_watched (chan w') w' = None \<and> user_calls w' = user_calls w @ ms @ [ConnectionCallback False, CleanupCallback]"
    by (auto simp: heard_def)
  then show ?thesis by (intro exI [of _ w'] exI [of _ ms]) (auto simp: open_state_def)
qed

end
