(* ===== verification/SendOrder.thy ===== *)
theory SendOrder
  imports TcpConnection
begin

text \<open>
  Sends from several threads on one \<open>TcpConnection\<close>. The loop's thread calls \<open>send\<close> directly; other
  threads queue functors, which the loop runs in the order they were queued; between them the channel may
  become writable. The flag \<open>in_loop_thread\<close> says which thread makes a call. The events of a run are in
  the order in which they take effect: the loop's own are atomic with respect to each other, and the
  queue is changed under a lock.
\<close>

datatype net_event = LocalSend string | RemoteSend string | RemoteShutdown | NextFunctor | Writable

text \<open>A call made by a thread other than the loop's.\<close>

definition remotely :: "(tcp \<Rightarrow> tcp option) \<Rightarrow> tcp \<Rightarrow> tcp option" where
  "remotely f w = map_option (\<lambda>v. v\<lparr>in_loop_thread := in_loop_thread w\<rparr>) (f (w\<lparr>in_loop_thread := False\<rparr>))"

definition next_fun :: "hooks \<Rightarrow> tcp \<Rightarrow> tcp option" where
  "next_fun h w = (case pendingFunctors w of [] \<Rightarrow> Some w | f # fs \<Rightarrow> run_fun h f (w\<lparr>pendingFunctors := fs\<rparr>))"

fun net_step :: "hooks \<Rightarrow> net_event \<Rightarrow> tcp \<Rightarrow> tcp option" where
  "net_step h (LocalSend s) w = send_data s w"
| "net_step h (RemoteSend s) w = remotely (send_data s) w"
| "net_step h RemoteShutdown w = remotely conn_shutdown w"
| "net_step h NextFunctor w = next_fun h w"
| "net_step h Writable w = handleWrite w"

fun net_run :: "hooks \<Rightarrow> net_event list \<Rightarrow> tcp \<Rightarrow> tcp option" where
  "net_run h [] w = Some w"
| "net_run h (e # es) w = net_step h e w \<bind> net_run h es"

text \<open>What the loop's thread sends, and what the others send, in order.\<close>

fun locals :: "net_event list \<Rightarrow> string list" where
  "locals [] = []"
| "locals (LocalSend s # es) = s # locals es"
| "locals (e # es) = locals es"

fun remotes :: "net_event list \<Rightarrow> string list" where
  "remotes [] = []"
| "remotes (RemoteSend s # es) = s # remotes es"
| "remotes (e # es) = remotes es"

section \<open>What the operations leave alone\<close>

lemma events_keep_tcp:
  fixes v v' :: tcp
  assumes "set_events c f v = Some v'"
  shows "pendingFunctors v' = pendingFunctors v" "sock v' = sock v"
  using more_tcp [OF set_events_more [OF assms]] by simp_all

lemma kwrite_wscript: "kwrite s k = (k', r) \<Longrightarrow> set (wscript k') \<subseteq> set (wscript k)"
  by (auto simp: kwrite_def split: if_splits list.splits wres.splits)

lemma buffer_rest_pending: "buffer_rest r w = Some w' \<Longrightarrow> pendingFunctors w' = pendingFunctors w"
  by (auto simp: buffer_rest_def Let_def enableWriting_def bind_Some_iff split: if_splits dest!: events_keep_tcp(1))

lemma sendInThread_pending:
  assumes "conn_inv w" "open_state w" "sendInThread s w = Some w'"
  shows "pendingFunctors w' = pendingFunctors w"
proof -
  from assms(1) obtain ch where ch: "chans w (chan w) = Some ch" "in_loop_thread w"
    unfolding conn_inv_open [OF assms(2)] by blast
  obtain w1 err n where d: "(if \<not> isWriting ch \<and> readableBytes (outputBuffer w) = 0 then direct_write s w else (w, False, 0))
    = (w1, err, n)" by (metis prod_cases3)
  have 1: "pendingFunctors w1 = pendingFunctors w"
    using d by (auto simp: direct_write_def split: prod.splits sum.splits if_splits)
  have "(if \<not> err \<and> length s - n > 0 then buffer_rest (drop n s) w1 else Some w1) = Some w'"
    using sendInThread_alt [OF ch(2) assms(2) ch(1), of s] assms(3) d by simp
  with 1 show ?thesis by (auto split: if_splits dest: buffer_rest_pending)
qed

lemma shutdownInLoop_keeps:
  assumes "shutdownInLoop w = Some w'"
  shows "pendingFunctors w' = pendingFunctors w \<and> wscript (sock w') = wscript (sock w) \<and> sent (sock w') = sent (sock w)"
proof -
  from assms obtain ch :: "conn_cb channel" where "Some (if \<not> isWriting ch then w\<lparr>sock := (sock w)\<lparr>wr_shut := True\<rparr>\<rparr> else w) = Some w'"
    unfolding shutdownInLoop_def bind_Some_iff by blast
  then show ?thesis by (cases "isWriting ch") auto
qed

text \<open>After the write side is shut down, a message is dropped.\<close>

lemma sendInThread_shut:
  assumes "conn_inv w" "open_state w" "wr_shut (sock w)" "content (outputBuffer w) = []"
  shows "sendInThread s w = Some w"
proof -
  from assms(1) obtain ch where ch: "chans w (chan w) = Some ch" "\<not> isWriting ch" "in_loop_thread w" "buffer_inv (outputBuffer w)"
    unfolding conn_inv_open [OF assms(2)] using assms(4) by auto
  have "readableBytes (outputBuffer w) = 0" using readable_content [OF ch(4)] assms(4) by simp
  then show ?thesis
    unfolding sendInThread_alt [OF ch(3) assms(2) ch(1)] using ch(2) assms(3) by (simp add: direct_write_def kwrite_shut)
qed

lemma handleWrite_frame:
  assumes "handleWrite w = Some w'"
  shows "pendingFunctors w' = pendingFunctors w" "set (wscript (sock w')) \<subseteq> set (wscript (sock w))"
    "chans w (chan w) = Some ch \<Longrightarrow> isWriting ch \<Longrightarrow> buffer_inv (outputBuffer w) \<Longrightarrow>
      sent (sock w') = sent (fst (kwrite (content (outputBuffer w)) (sock w)))"
proof -
  let ?ob = "outputBuffer w"
  obtain c where c: "chans w (chan w) = Some c" using assms(1) by (auto simp: handleWrite_def bind_Some_iff)
  obtain k r where kw: "kwrite (slice (peek ?ob) (peek ?ob + readableBytes ?ob) (bufvec ?ob)) (sock w) = (k, r)" by fastforce
  have "pendingFunctors w' = pendingFunctors w \<and> (if isWriting c then wscript (sock w') = wscript k \<and> sent (sock w') = sent k else w' = w)"
  proof (cases "isWriting c \<and> (\<exists>n>0. r = Inr n)")
    case False
    with assms(1) c kw show ?thesis by (cases r) (auto simp: handleWrite_def Let_def split: if_splits)
  next
    case True
    then obtain n where n: "isWriting c" "n > 0" "r = Inr n" by blast
    with assms(1) c kw obtain ob where ob: "retrieve ?ob n = Some ob" by (auto simp: handleWrite_def Let_def bind_Some_iff)
    let ?w2 = "w\<lparr>sock := k, outputBuffer := ob\<rparr>"
    show ?thesis
    proof (cases "readableBytes ob = 0")
      case False
      with assms(1) c kw n ob show ?thesis by (auto simp: handleWrite_def Let_def)
    next
      case True
      with assms(1) c kw n ob obtain w3 where w3: "disableWriting (chan w) ?w2 = Some w3"
        "(if state w3 = Disconnecting then shutdownInLoop w3 else Some w3) = Some w'"
        by (auto simp: handleWrite_def Let_def bind_Some_iff)
      have "pendingFunctors w3 = pendingFunctors w" "sock w3 = k"
        using events_keep_tcp w3(1) unfolding disableWriting_def by fastforce+
      with w3(2) n(1) show ?thesis by (auto split: if_splits dest: shutdownInLoop_keeps)
    qed
  qed
  with kwrite_wscript [OF kw] show "pendingFunctors w' = pendingFunctors w" "set (wscript (sock w')) \<subseteq> set (wscript (sock w))"
    by (auto split: if_splits)
  show "chans w (chan w) = Some ch \<Longrightarrow> isWriting ch \<Longrightarrow> buffer_inv ?ob \<Longrightarrow>
      sent (sock w') = sent (fst (kwrite (content ?ob) (sock w)))"
    using \<open>pendingFunctors w' = pendingFunctors w \<and> _\<close> c kw by (simp add: readable_slice)
qed

text \<open>Queueing changes the queue and the loop's wakeup counter only.\<close>

lemma remote_send:
  assumes "conn_inv w" "state w = Connected"
  shows "\<exists>w'. remotely (send_data s) w = Some w' \<and> conn_inv w' \<and> state w' = Connected \<and> sock w' = sock w
    \<and> outputBuffer w' = outputBuffer w \<and> pendingFunctors w' = pendingFunctors w @ [SendInLoop s]"
proof -
  obtain w' where w': "remotely (send_data s) w = Some w'" "w' = (queueInLoop (SendInLoop s) (w\<lparr>in_loop_thread := False\<rparr>))\<lparr>in_loop_thread := in_loop_thread w\<rparr>"
    using assms(2) by (simp add: remotely_def send_data_def)
  have k: "chans w' = chans w" "channels w' = channels w" "interest w' = interest w" "in_loop_thread w' = in_loop_thread w"
    "inputBuffer w' = inputBuffer w" "outputBuffer w' = outputBuffer w" "chan w' = chan w" "sockfd w' = sockfd w"
    "state w' = state w" "sock w' = sock w" "pendingFunctors w' = pendingFunctors w @ [SendInLoop s]"
    by (simp_all add: w'(2) queueInLoop_def queue_wake_def queue_push_def wakeup_def)
  with conn_inv_cong [OF k(1-10)] w'(1) assms show ?thesis by simp
qed

lemma remote_shutdown:
  assumes "conn_inv w" "state w = Connected"
  shows "\<exists>w'. remotely conn_shutdown w = Some w' \<and> conn_inv w' \<and> state w' = Disconnecting \<and> sock w' = sock w
    \<and> outputBuffer w' = outputBuffer w \<and> pendingFunctors w' = pendingFunctors w @ [ShutdownInLoop]"
proof -
  let ?v = "set_state Disconnecting w"
  obtain w' where w': "remotely conn_shutdown w = Some w'"
    "w' = (queueInLoop ShutdownInLoop (set_state Disconnecting (w\<lparr>in_loop_thread := False\<rparr>)))\<lparr>in_loop_thread := in_loop_thread w\<rparr>"
    using assms(2) by (simp add: remotely_def conn_shutdown_def Let_def) (simp add: set_state_def)
  have k: "chans w' = chans ?v" "channels w' = channels ?v" "interest w' = interest ?v" "in_loop_thread w' = in_loop_thread ?v"
    "inputBuffer w' = inputBuffer ?v" "outputBuffer w' = outputBuffer ?v" "chan w' = chan ?v" "sockfd w' = sockfd ?v"
    "state w' = state ?v" "sock w' = sock ?v" "pendingFunctors w' = pendingFunctors w @ [ShutdownInLoop]"
    by (simp_all add: w'(2) queueInLoop_def queue_wake_def queue_push_def wakeup_def set_state_def)
  with conn_inv_cong [OF k(1-10)] conn_inv_shutting [OF assms] w'(1) show ?thesis by (simp add: set_state_def)
qed

lemma pop_functor:
  assumes "conn_inv w" "pendingFunctors w = SendInLoop s # fs"
  shows "conn_inv (w\<lparr>pendingFunctors := fs\<rparr>)" "next_fun h w = sendInThread s (w\<lparr>pendingFunctors := fs\<rparr>)"
proof -
  have "conn_inv (w\<lparr>pendingFunctors := fs\<rparr>) = conn_inv w" by (rule conn_inv_cong) simp_all
  with assms(1) show "conn_inv (w\<lparr>pendingFunctors := fs\<rparr>)" by simp
  show "next_fun h w = sendInThread s (w\<lparr>pendingFunctors := fs\<rparr>)"
    using assms(2) by (simp add: next_fun_def sendInLoop_def sp_asString_def sp_of_string_def)
qed

section \<open>Order\<close>

lemma shuffles_snoc:
  "zs \<in> shuffles xs ys \<Longrightarrow> zs @ [x] \<in> shuffles (xs @ [x]) ys"
  "zs \<in> shuffles xs ys \<Longrightarrow> zs @ [x] \<in> shuffles xs (ys @ [x])"
proof -
  show 1: "zs \<in> shuffles xs ys \<Longrightarrow> zs @ [x] \<in> shuffles (xs @ [x]) ys" for xs ys zs :: "'a list"
  proof (induction xs ys arbitrary: zs rule: shuffles.induct)
    case (1 ys)
    then show ?case by (induction ys arbitrary: zs) (auto simp: Cons_in_shuffles_iff)
  qed (auto simp: Cons_in_shuffles_iff)
  from 1 show "zs \<in> shuffles xs ys \<Longrightarrow> zs @ [x] \<in> shuffles xs (ys @ [x])" using shuffles_commutes by metis
qed

definition in_order :: "string \<Rightarrow> string list \<Rightarrow> string list \<Rightarrow> tcp \<Rightarrow> bool" where
  "in_order base ls rs w \<longleftrightarrow> conn_inv w \<and> state w = Connected \<and> peer_stays w \<and>
     (\<exists>ds pend. rs = ds @ pend \<and> pendingFunctors w = map SendInLoop pend \<and> (\<exists>ms \<in> shuffles ls ds. stream w = base @ concat ms))"

lemma connected_send:
  assumes "conn_inv w" "state w = Connected" "peer_stays w"
  shows "\<exists>w'. sendInThread s w = Some w' \<and> conn_inv w' \<and> state w' = Connected \<and> peer_stays w'
    \<and> stream w' = stream w @ s \<and> pendingFunctors w' = pendingFunctors w"
proof -
  have o: "open_state w" using assms(2) by (simp add: open_state_def)
  have "\<not> wr_shut (sock w)" using assms(1,2) by (auto simp: conn_inv_def)
  then have "\<not> epipe s w" using peer_stays_epipe assms(3) by blast
  with sendInThread_ok [OF assms(1) o, of s] obtain w' where w': "sendInThread s w = Some w'" "conn_inv w'" "state w' = Connected"
    "stream w' = stream w @ s" using assms(2) by auto
  with sendInThread_frame(2) [OF w'(1)] sendInThread_pending [OF assms(1) o w'(1)] assms(3) show ?thesis
    by (auto simp: peer_stays_def)
qed

lemma net_step_in_order:
  assumes "in_order base ls rs w" "e \<noteq> RemoteShutdown"
  shows "\<exists>w'. net_step h e w = Some w' \<and> in_order base (ls @ locals [e]) (rs @ remotes [e]) w'"
proof -
  from assms(1) obtain ds pend ms where w: "conn_inv w" "state w = Connected" "peer_stays w" "rs = ds @ pend"
    "pendingFunctors w = map SendInLoop pend" "ms \<in> shuffles ls ds" "stream w = base @ concat ms" by (auto simp: in_order_def)
  show ?thesis
  proof (cases e)
    case (LocalSend s)
    from connected_send [OF w(1-3), of s] obtain w' where w': "sendInThread s w = Some w'" "conn_inv w'" "state w' = Connected"
      "peer_stays w'" "stream w' = stream w @ s" "pendingFunctors w' = pendingFunctors w" by blast
    have "ms @ [s] \<in> shuffles (ls @ [s]) ds" by (rule shuffles_snoc(1) [OF w(6)])
    moreover have "stream w' = base @ concat (ms @ [s])" using w'(5) w(7) by simp
    ultimately have "in_order base (ls @ [s]) rs w'" using w'(2-4) w'(6) [unfolded w(5)] w(4) unfolding in_order_def by blast
    moreover have "send_data s w = Some w'" using w'(1) w(1,2) by (simp add: send_data_def conn_inv_def)
    ultimately show ?thesis using LocalSend by simp
  next
    case (RemoteSend s)
    from remote_send [OF w(1,2), of s] obtain w' where w': "remotely (send_data s) w = Some w'" "conn_inv w'" "state w' = Connected"
      "sock w' = sock w" "outputBuffer w' = outputBuffer w" "pendingFunctors w' = pendingFunctors w @ [SendInLoop s]" by blast
    then have "rs @ [s] = ds @ (pend @ [s])" "pendingFunctors w' = map SendInLoop (pend @ [s])" "stream w' = base @ concat ms" "peer_stays w'"
      using w by (simp_all add: stream_def peer_stays_def)
    with w' w(6) have "in_order base ls (rs @ [s]) w'" unfolding in_order_def by blast
    with w'(1) RemoteSend show ?thesis by simp
  next
    case NextFunctor
    show ?thesis
    proof (cases pend)
      case Nil
      with w(5) assms(1) NextFunctor show ?thesis by (simp add: next_fun_def)
    next
      case (Cons s rest)
      then have pf: "pendingFunctors w = SendInLoop s # map SendInLoop rest" using w(5) by simp
      let ?v = "w\<lparr>pendingFunctors := map SendInLoop rest\<rparr>"
      note pop = pop_functor [OF w(1) pf]
      have v: "state ?v = Connected" "peer_stays ?v" "stream ?v = stream w" using w(2,3) by (simp_all add: peer_stays_def stream_def)
      from connected_send [OF pop(1) v(1,2), of s] obtain w' where w': "sendInThread s ?v = Some w'" "conn_inv w'" "state w' = Connected"
        "peer_stays w'" "stream w' = stream ?v @ s" "pendingFunctors w' = map SendInLoop rest" by auto
      have "ms @ [s] \<in> shuffles ls (ds @ [s])" by (rule shuffles_snoc(2) [OF w(6)])
      moreover have "stream w' = base @ concat (ms @ [s])" "rs = (ds @ [s]) @ rest" using w'(5) w(4,7) v(3) Cons by simp_all
      ultimately have "in_order base ls rs w'" using w' unfolding in_order_def by blast
      with w'(1) pop(2) NextFunctor show ?thesis by simp
    qed
  next
    case Writable
    have "open_state w" using w(2) by (simp add: open_state_def)
    from handleWrite_ok [OF w(1) this] w(2) obtain w' where w': "handleWrite w = Some w'" "conn_inv w'" "state w' = Connected"
      "stream w' = stream w" by auto
    with handleWrite_frame(1,2) [OF w'(1)] w have "in_order base ls rs w'" by (auto simp: in_order_def peer_stays_def)
    with w'(1) Writable show ?thesis by simp
  qed (use assms(2) in simp)
qed

lemma locals_append: "locals (a @ b) = locals a @ locals b" "remotes (a @ b) = remotes a @ remotes b"
  by (induction a rule: locals.induct; simp) (induction a rule: remotes.induct; simp)

lemma net_run_in_order:
  assumes "in_order base ls rs w" "RemoteShutdown \<notin> set es"
  shows "\<exists>w'. net_run h es w = Some w' \<and> in_order base (ls @ locals es) (rs @ remotes es) w'"
  using assms
proof (induction es arbitrary: ls rs w)
  case (Cons e es)
  then have "e \<noteq> RemoteShutdown" "RemoteShutdown \<notin> set es" by auto
  from net_step_in_order [OF Cons.prems(1) this(1)] obtain w1 where w1: "net_step h e w = Some w1"
    "in_order base (ls @ locals [e]) (rs @ remotes [e]) w1" by blast
  from Cons.IH [OF w1(2) \<open>RemoteShutdown \<notin> set es\<close>] w1(1) locals_append [of "[e]" es] show ?case by auto
qed simp

section \<open>Properties\<close>


text \<open>
  \<open>shutdown\<close> called by another thread can overtake what that thread has sent: it changes the state at
  once, while the message waits as a functor. If the channel becomes writable first and the output buffer
  runs empty, \<open>handleWrite\<close> closes the write side, and the message is dropped.
\<close>
theorem shutdown_overtakes_send:
  assumes "conn_inv w" "state w = Connected" "pendingFunctors w = []" "wscript (sock w) = []"
    "content (outputBuffer w) \<noteq> []"
  shows "\<exists>w'. net_run h [RemoteSend s, RemoteShutdown, Writable, NextFunctor] w = Some w' \<and> stream w' = stream w
    \<and> wr_shut (sock w')"
proof -
  from remote_send [OF assms(1,2), of s] obtain w1 where w1: "remotely (send_data s) w = Some w1" "conn_inv w1" "state w1 = Connected"
    "sock w1 = sock w" "outputBuffer w1 = outputBuffer w" "pendingFunctors w1 = [SendInLoop s]" using assms(3) by auto
  from remote_shutdown [OF w1(2,3)] obtain w2 where w2: "remotely conn_shutdown w1 = Some w2" "conn_inv w2" "state w2 = Disconnecting"
    "sock w2 = sock w" "outputBuffer w2 = outputBuffer w" "pendingFunctors w2 = [SendInLoop s, ShutdownInLoop]" using w1 by auto
  have o2: "open_state w2" using w2(3) by (simp add: open_state_def)
  from handleWrite_ok [OF w2(2) o2] w2(3,5) assms(5) obtain w3 where w3: "handleWrite w2 = Some w3" "conn_inv w3"
    "state w3 = Disconnecting" "stream w3 = stream w2" "content (outputBuffer w3) = [] \<longrightarrow> wr_shut (sock w3)" by auto
  obtain ch where ch: "chans w2 (chan w2) = Some ch" "isWriting ch" "buffer_inv (outputBuffer w2)"
    using w2(2,5) assms(5) unfolding conn_inv_open [OF o2] by auto
  have "\<not> wr_shut (sock w)" using assms(1,2) by (auto simp: conn_inv_def)
  then have "sent (sock w3) = sent (sock w) @ content (outputBuffer w)"
    using handleWrite_frame(3) [OF w3(1) ch] w2(4,5) assms(4) by (simp add: kwrite_def)
  then have c3: "content (outputBuffer w3) = []" using w3(4) w2(4,5) by (simp add: stream_def)
  have "pendingFunctors w3 = SendInLoop s # [ShutdownInLoop]" using handleWrite_frame(1) [OF w3(1)] w2(6) by simp
  note pop = pop_functor [OF w3(2) this]
  let ?v = "w3\<lparr>pendingFunctors := [ShutdownInLoop]\<rparr>"
  have ov: "open_state ?v" using w3(3) by (simp add: open_state_def)
  have "sendInThread s ?v = Some ?v" by (rule sendInThread_shut [OF pop(1) ov]) (use c3 w3(5) in simp_all)
  moreover have "stream ?v = stream w" using w3(4) w2(4,5) by (simp add: stream_def)
  ultimately show ?thesis using w1(1) w2(1) w3(1,5) c3 pop(2) by simp
qed

section \<open>Witnesses\<close>


text \<open>A connection whose kernel has taken one byte of two and then has room again.\<close>

theorem shutdown_overtakes_send_witness:
  "\<exists>w w'. sendInThread ''ab'' (sample_tcp Connected) = Some w \<and> stream w = ''ab''
    \<and> net_run quiet_hooks [RemoteSend ''lost'', RemoteShutdown, Writable, NextFunctor] w = Some w' \<and> stream w' = ''ab''"
proof -
  let ?w = "sample_tcp Connected"
  let ?k = "(sock ?w)\<lparr>sent := ''a'', wscript := []\<rparr>"
  let ?w1 = "?w\<lparr>sock := ?k\<rparr>"
  have o: "open_state ?w" "open_state ?w1" by (simp_all add: open_state_def sample_tcp_def)
  have c: "chans ?w (chan ?w) = Some (sample_chan Connected)" "in_loop_thread ?w" "\<not> isWriting (sample_chan Connected)"
    "readableBytes (outputBuffer ?w) = 0"
    by (simp_all add: sample_tcp_def sample_chan_def isWriting_def read_event_bits readableBytes_def buffer_new_def)
  have "kwrite ''ab'' (sock ?w) = (?k, Inr 1)" by (simp add: kwrite_def sample_tcp_def)
  then have 1: "sendInThread ''ab'' ?w = buffer_rest ''b'' ?w1"
    unfolding sendInThread_alt [OF c(2) o(1) c(1)] using c(3,4) by (simp add: direct_write_def)
  have "conn_inv ?w1" using conn_inv_sock [of ?k ?w] sample_tcp_inv [of Connected] by simp
  moreover have "\<not> wr_shut (sock ?w1)" "''b'' \<noteq> []" by (simp_all add: sample_tcp_def)
  ultimately obtain w where w: "buffer_rest ''b'' ?w1 = Some w" "conn_inv w" "stream w = stream ?w1 @ ''b''" "sock w = ?k"
    "state w = state ?w1" using buffer_rest_ok [of ?w1 "''b''"] o(2) by auto
  have "stream ?w1 = ''a''" by (simp add: stream_def sample_tcp_def)
  then have s: "stream w = ''ab''" using w(3) by simp
  then have "content (outputBuffer w) \<noteq> []" using w(4) by (simp add: stream_def)
  moreover have "state w = Connected" "wscript (sock w) = []" using w(4,5) by (simp_all add: sample_tcp_def)
  moreover have "pendingFunctors w = []" using buffer_rest_pending [OF w(1)] by (simp add: sample_tcp_def)
  ultimately show ?thesis using shutdown_overtakes_send [OF w(2), of quiet_hooks "''lost''"] 1 w(1) s by auto
qed

end
