(* ===== verification/EchoServer.thy ===== *)
theory EchoServer
  imports ConnectionEvents SendOrder
begin

text \<open>
  The echo server of \<open>matelib/tests/TcpServer_test.cc\<close>: what the library makes of a user's message callback.
\<close>

text \<open>The test prints the message; \<open>onConnection\<close> does nothing. The removal of the connection is the server's and left out here.\<close>

(* src/matelib/tests/TcpServer_test.cc:39-49 TestServer::onMessage *)
definition echo_onMessage :: "tcp \<Rightarrow> tcp option" where
  "echo_onMessage w = do {
     (b, msg) \<leftarrow> retrieveAllAsString (inputBuffer w);
     send_piece (sp_of_string msg) (w\<lparr>inputBuffer := b\<rparr>)
   }"

(* src/matelib/tests/TcpServer_test.cc:16-24 TestServer::TestServer *)
definition test_server :: hooks where
  "test_server = \<lparr>on_connection = Some, on_message = echo_onMessage, on_cleanup = Some\<rparr>"

section \<open>The callbacks behave well\<close>

lemma echo_eq:
  assumes "conn_inv w"
  shows "\<exists>b. buffer_inv b \<and> content b = [] \<and> echo_onMessage w =
    (if state w = Connected then sendInThread (content (inputBuffer w)) (w\<lparr>inputBuffer := b\<rparr>) else Some (w\<lparr>inputBuffer := b\<rparr>))"
proof -
  have i: "in_loop_thread w" "buffer_inv (inputBuffer w)" using assms by (simp_all add: conn_inv_def)
  from retrieveAllAsString_ok [OF i(2)] obtain b where
    "retrieveAllAsString (inputBuffer w) = Some (b, content (inputBuffer w))" "buffer_inv b" "content b = []" by blast
  with i(1) show ?thesis
    by (intro exI [of _ b]) (simp add: echo_onMessage_def send_piece_def sp_asString_def sp_of_string_def)
qed

lemma echo_sends:
  assumes "conn_inv w" "state w = Connected"
  shows "\<exists>w'. echo_onMessage w = Some w' \<and> conn_inv w' \<and> state w' = Connected \<and> content (inputBuffer w') = []
    \<and> stream w' = stream w @ (if epipe (content (inputBuffer w)) w then [] else content (inputBuffer w))
    \<and> user_calls w' = user_calls w \<and> chan w' = chan w \<and> kept w w' \<and> set (wscript (sock w')) \<subseteq> set (wscript (sock w))"
proof -
  from echo_eq [OF assms(1)] assms(2) obtain b where b: "buffer_inv b" "content b = []"
    "echo_onMessage w = sendInThread (content (inputBuffer w)) (w\<lparr>inputBuffer := b\<rparr>)" by auto
  let ?v = "w\<lparr>inputBuffer := b\<rparr>"
  have v: "conn_inv ?v" "open_state ?v" using conn_inv_input [OF assms(1) b(1)] assms(2) by (simp_all add: open_state_def)
  from sendInThread_ok [OF v, of "content (inputBuffer w)"] obtain w' where
    w': "sendInThread (content (inputBuffer w)) ?v = Some w'" "conn_inv w'" "state w' = state ?v" "user_calls w' = user_calls ?v"
    "chan w' = chan ?v" "stream w' = stream ?v @ (if epipe (content (inputBuffer w)) ?v then [] else content (inputBuffer w))" by blast
  note f = sendInThread_frame [OF w'(1)]
  have "kept ?v w'" by (rule sendInThread_kept [OF w'(1) v])
  then have "kept w w'" by (simp add: kept_def)
  with w' f b assms(2) show ?thesis by (simp add: stream_def epipe_def)
qed

lemma echo_closed: "conn_inv w \<Longrightarrow> state w \<noteq> Connected \<Longrightarrow>
    \<exists>b. buffer_inv b \<and> echo_onMessage w = Some (w\<lparr>inputBuffer := b\<rparr>) \<and> conn_inv (w\<lparr>inputBuffer := b\<rparr>)"
  using echo_eq [of w] conn_inv_input [of w] by auto

lemma test_server_ok: "hooks_ok test_server" "hooks_leave test_server"
proof -
  have e: "\<exists>w'. echo_onMessage w = Some w' \<and> conn_inv w' \<and> state w' = state w \<and> user_calls w' = user_calls w
      \<and> chan w' = chan w \<and> ch_registered (chan w) w' = ch_registered (chan w) w" if i: "conn_inv w" for w
  proof (cases "state w = Connected")
    case True
    from echo_sends [OF i this] obtain w' where w': "echo_onMessage w = Some w'" "conn_inv w'" "state w' = Connected"
      "user_calls w' = user_calls w" "chan w' = chan w" by blast
    moreover have "ch_registered (chan w) w'" "ch_registered (chan w) w"
      using open_registered [OF i] open_registered [OF w'(2)] w' True by (simp_all add: open_state_def)
    ultimately show ?thesis using True by auto
  next
    case False
    from echo_closed [OF i this] show ?thesis by (auto simp: ch_registered_def)
  qed
  have l: "leaves_channel echo_onMessage"
    unfolding leaves_channel_def
  proof (intro allI impI)
    fix w w' ch assume a: "conn_inv w" "echo_onMessage w = Some w'" "chans w (chan w) = Some ch"
    show "(\<exists>ch'. chans w' (chan w) = Some ch' \<and> same_dispatch ch' ch) \<and> evlist_size w' = evlist_size w
      \<and> (state w = Disconnected \<longrightarrow> ch_watched (chan w) w' = ch_watched (chan w) w)"
    proof (cases "state w = Connected")
      case True
      with echo_sends [OF a(1) True] a(2,3) show ?thesis by (auto simp: kept_def)
    next
      case False
      from echo_closed [OF a(1) this] a(2) obtain b where "w' = w\<lparr>inputBuffer := b\<rparr>" by auto
      then show ?thesis using a(3) by (simp add: ch_watched_def)
    qed
  qed
  have s: "leaves_channel Some" "well_behaved Some" by (simp_all add: leaves_channel_def well_behaved_def)
  from e have "well_behaved echo_onMessage" by (simp add: well_behaved_def)
  with l s show "hooks_ok test_server" "hooks_leave test_server" by (simp_all add: hooks_ok_def hooks_leave_def test_server_def)
qed

section \<open>What a connection echoes\<close>

text \<open>The bytes that reach the server before the connection closes.\<close>

definition read_bytes :: "events \<Rightarrow> read_result \<Rightarrow> string" where
  "read_bytes ev r = (if readable ev then case r of ReadBytes s \<Rightarrow> s | ReadError e \<Rightarrow> [] else [])"

fun arrived :: "(events \<times> read_result) list \<Rightarrow> string" where
  "arrived [] = []"
| "arrived ((ev, r) # es) = (if hangs_up ev \<or> readable ev \<and> r = ReadBytes [] then [] else read_bytes ev r @ arrived es)"

fun echoed :: "string \<Rightarrow> conn_state \<times> buffer \<times> buffer \<times> ksock \<Rightarrow> bool" where
  "echoed out (st, ib, ob, k) \<longleftrightarrow> sent k @ content ob = out
     \<and> (st = Disconnected \<or> st = Connected \<and> content ib = [] \<and> WError EPIPE \<notin> set (wscript k))"

lemma echoed_core: "echoed out (core w) \<longleftrightarrow> stream w = out \<and> (state w = Disconnected \<or>
    state w = Connected \<and> content (inputBuffer w) = [] \<and> peer_stays w)"
  by (simp add: core_def stream_def peer_stays_def)

text \<open>Closing leaves the stream as it is.\<close>

lemma echo_close:
  assumes "conn_inv v" "open_state v" "handleClose test_server v = Some v'"
  shows "stream v' = stream v \<and> state v' = Disconnected"
proof -
  from disable_ok [OF assms(1,2)] obtain w1 where "disableAll (chan v) (set_state Disconnected v) = Some w1"
    "stream w1 = stream v" "state w1 = Disconnected" by blast
  moreover from this(1) have "v' = w1\<lparr>user_calls := user_calls w1 @ [ConnectionCallback (connected w1), CleanupCallback]\<rparr>"
    using assms by (auto simp: handleClose_def assertInLoopThread_def abort_simps test_server_def call_user_def split: if_splits)
  ultimately show ?thesis by (simp add: stream_def)
qed

lemma echo_read:
  assumes "conn_inv v" "open_state v" "echoed out (core v)" "rscript (sock v) = [r]" "valid_read r"
    "handleRead test_server v = Some v'"
  shows "echoed (out @ (case r of ReadBytes s \<Rightarrow> s | ReadError e \<Rightarrow> [])) (core v') \<and> (state v' = Disconnected \<longleftrightarrow> r = ReadBytes [])"
proof -
  have st: "state v = Connected" "content (inputBuffer v) = []" "peer_stays v" "stream v = out"
    using assms(2,3) unfolding echoed_core by (auto simp: open_state_def)
  have i: "in_loop_thread v" "buffer_inv (inputBuffer v)" "\<not> wr_shut (sock v)" using assms(1) st(1) by (auto simp: conn_inv_def)
  let ?k = "(sock v)\<lparr>rscript := []\<rparr>"
  have n: "next_read v = (r, v\<lparr>sock := ?k\<rparr>)" using assms(4) by (simp add: next_read_def)
  show ?thesis
  proof (cases r)
    case (ReadError e)
    with assms(6) i(1) n have "v' = v\<lparr>sock := ?k\<rparr>"
      by (simp add: handleRead_def assertInLoopThread_def abort_simps readFd_def handleError_def)
    with ReadError st show ?thesis by (simp add: echoed_core stream_def peer_stays_def)
  next
    case (ReadBytes s)
    with assms(5) have "length s \<le> writeableBytes (inputBuffer v) + extrabuf_size" by (simp add: valid_read_def)
    from readFd_ok [OF i(2) this] obtain b where b: "readFd (inputBuffer v) (ReadBytes s) = Some (b, int (length s), None)"
      "buffer_inv b" "content b = content (inputBuffer v) @ s" by blast
    let ?v = "v\<lparr>sock := ?k, inputBuffer := b\<rparr>"
    have "conn_inv (v\<lparr>sock := ?k\<rparr>)" using assms(1) by (simp add: conn_inv_sock)
    from conn_inv_input [OF this b(2)] have v: "conn_inv ?v" .
    have e: "handleRead test_server v = (if s \<noteq> [] then call_user MessageCallback echo_onMessage ?v else handleClose test_server ?v)"
      using i(1) b(1) ReadBytes by (simp add: handleRead_def assertInLoopThread_def abort_simps n test_server_def)
    show ?thesis
    proof (cases "s = []")
      case True
      with e assms(6) echo_close [OF v, of v'] st ReadBytes show ?thesis
        by (simp add: echoed_core open_state_def stream_def)
    next
      case False
      let ?u = "?v\<lparr>user_calls := user_calls v @ [MessageCallback]\<rparr>"
      have u: "conn_inv ?u" "state ?u = Connected" "content (inputBuffer ?u) = s" "stream ?u = out"
        using v b(3) st by (simp_all add: stream_def)
      have "\<not> epipe s ?u" using peer_stays_epipe [of ?u s] st(3) i(3) by (simp add: peer_stays_def)
      with echo_sends [OF u(1,2)] u(3,4) e assms(6) False st(3) ReadBytes show ?thesis
        by (auto simp: call_user_def echoed_core peer_stays_def)
    qed
  qed
qed

text \<open>The output after one report, and whether it closes the connection.\<close>

definition echo_step :: "events \<Rightarrow> read_result \<Rightarrow> string \<Rightarrow> conn_state \<times> buffer \<times> buffer \<times> ksock \<Rightarrow> bool" where
  "echo_step ev r out c \<longleftrightarrow> echoed (out @ (if hangs_up ev then [] else read_bytes ev r)) c
     \<and> (fst c = Disconnected \<longleftrightarrow> hangs_up ev \<or> readable ev \<and> r = ReadBytes [])"

lemma echo_leads:
  assumes "valid_read r" "\<not> conflicting ev"
  shows "leads test_server ev r (echoed out) (echo_step ev r out)"
proof -
  have no: "\<not> (hangs_up ev \<and> readable ev)" using assms(2) by (auto simp: conflicting_def)
  have st: "fst (core v) = state v" for v by (simp add: core_def)
  have w: "echo_step ev r out (core v')" if "conn_inv v" "echo_step ev r out (core v)" "handleWrite v = Some v'" for v v'
  proof (cases "state v = Disconnected")
    case True
    with handleWrite_closed [OF that(1)] that(2,3) show ?thesis by simp
  next
    case False
    with that(2) have "state v = Connected" by (auto simp: echo_step_def echoed_core)
    then have "open_state v" by (simp add: open_state_def)
    from handleWrite_ok [OF that(1) this] that(3) have "state v' = state v" "stream v' = stream v" by auto
    with that(2) False handleWrite_frame(2) [OF that(3)] handleWrite_kept(2) [OF that(3,1)] show ?thesis
      by (auto simp: echo_step_def echoed_core st peer_stays_def)
  qed
  have c: "echo_step ev r out (core v')" if "conn_inv v" "open_state v" "echoed out (core v)" "hangs_up ev"
      "handleClose test_server v = Some v'" for v v'
    using echo_close [OF that(1,2,5)] that(3,4) by (simp add: echo_step_def echoed_core st)
  have rd: "echo_step ev r out (core v')" if "conn_inv v" "open_state v" "echoed out (core v)" "readable ev"
      "rscript (sock v) = [r]" "handleRead test_server v = Some v'" for v v'
  proof -
    have h: "hangs_up ev = False" "readable ev = True" using no that(4) by blast+
    show ?thesis using echo_read [OF that(1-3,5) assms(1) that(6)]
      unfolding echo_step_def read_bytes_def st h by simp
  qed
  have n: "echo_step ev r out (core v)" if "open_state v" "echoed out (core v)" "\<not> hangs_up ev" "\<not> readable ev" for v
    using that by (auto simp: echo_step_def st read_bytes_def open_state_def)
  show ?thesis unfolding leads_def using w c rd n by blast
qed

lemma echo_run:
  "conn_inv w \<Longrightarrow> is_bound w \<Longrightarrow> state w = Connected \<Longrightarrow> echoed out (core w)
    \<Longrightarrow> \<forall>e \<in> set es. valid_read (snd e) \<and> \<not> conflicting (fst e)
    \<Longrightarrow> \<exists>w'. conn_polls test_server es w = Some w' \<and> conn_inv w' \<and> stream w' = out @ arrived es"
proof (induction es arbitrary: w out)
  case Nil
  then show ?case by (simp add: echoed_core)
next
  case (Cons e es)
  obtain ev r where e: "e = (ev, r)" by (cases e)
  have o: "open_state w" using Cons.prems(3) by (simp add: open_state_def)
  have v: "valid_read r" "\<not> conflicting ev" using Cons.prems(5) e by simp_all
  from conn_poll_ok [OF Cons.prems(1,2) o test_server_ok v echo_leads [OF v] Cons.prems(4)] obtain w1 where
    w1: "conn_poll test_server (ev, r) w = Some w1" "conn_inv w1" "is_bound w1" "echo_step ev r out (core w1)" by blast
  have st: "fst (core w1) = state w1" by (simp add: core_def)
  show ?case
  proof (cases "state w1 = Disconnected")
    case True
    have "conn_polls test_server es w1 = Some w1" using True by (cases es) (simp_all add: open_state_def)
    moreover have "stream w1 = out @ arrived (e # es)"
      using w1(4) True e by (auto simp: echo_step_def echoed_core st read_bytes_def split: if_splits)
    ultimately show ?thesis using e o w1(1,2) by simp
  next
    case False
    with w1(4) have "\<not> hangs_up ev" "\<not> (readable ev \<and> r = ReadBytes [])" "state w1 = Connected"
      "echoed (out @ read_bytes ev r) (core w1)" by (auto simp: echo_step_def echoed_core st split: if_splits)
    with Cons.IH [OF w1(2,3) this(3,4)] Cons.prems(5) e o w1(1) show ?thesis by auto
  qed
qed


section \<open>Witnesses\<close>

definition sample_bound :: tcp where
  "sample_bound = (sample_tcp Connected)\<lparr>chans := (chans (sample_tcp Connected))(1 := Some
     (setErrorCallback OnError (setCloseCallback OnClose (setWriteCallback OnWrite
       (setReadCallback OnRead (sample_chan Connected))))))\<rparr>"

lemma sample_bound_ok: "conn_inv sample_bound" "is_bound sample_bound" "state sample_bound = Connected"
  "content (inputBuffer sample_bound) = []" "peer_stays sample_bound" "stream sample_bound = []" "user_calls sample_bound = []"
proof -
  let ?w = "sample_tcp Connected" and ?ch = "setErrorCallback OnError (setCloseCallback OnClose (setWriteCallback OnWrite
       (setReadCallback OnRead (sample_chan Connected))))"
  have c: "chans ?w (chan ?w) = Some (sample_chan Connected)" "chan ?w = 1" by (simp_all add: sample_tcp_def)
  have i: "conn_inv ?w" by (rule sample_tcp_inv) simp
  have "conn_inv (?w\<lparr>chans := (chans ?w)(chan ?w := Some ?ch)\<rparr>)"
    by (rule conn_inv_channel_change [OF i c(1)])
      (simp_all add: setReadCallback_def setWriteCallback_def setCloseCallback_def setErrorCallback_def)
  then show "conn_inv sample_bound" unfolding sample_bound_def c(2) .
  show "is_bound sample_bound" "state sample_bound = Connected" "content (inputBuffer sample_bound) = []"
    "peer_stays sample_bound" "stream sample_bound = []" "user_calls sample_bound = []"
    by (simp_all add: sample_bound_def sample_tcp_def is_bound_def bound_def peer_stays_def stream_def
        setReadCallback_def setWriteCallback_def setCloseCallback_def setErrorCallback_def)
qed

lemma sample_events: "\<forall>e \<in> set [(EPOLLIN, ReadBytes ''hi''), (EPOLLIN OR EPOLLOUT, ReadBytes ''you''), (EPOLLIN, ReadBytes [])].
    valid_read (snd e) \<and> \<not> conflicting (fst e)"
  by (simp add: valid_read_def extrabuf_size_def conflicting_def has_def epoll_bits)


theorem connection_survives_events_witness:
  "\<exists>w' ms. conn_polls test_server [(EPOLLIN, ReadBytes ''hi''), (EPOLLIN OR EPOLLOUT, ReadBytes ''you''), (EPOLLIN, ReadBytes [])]
    sample_bound = Some w' \<and> conn_inv w' \<and> set ms \<subseteq> {MessageCallback}
    \<and> (state w' = Disconnected \<longrightarrow> user_calls w' = ms @ [ConnectionCallback False, CleanupCallback])"
  using connection_survives_events [OF sample_bound_ok(1) _ sample_bound_ok(2) test_server_ok sample_events]
  unfolding sample_bound_ok(3,7) append_Nil by (meson simp_thms)

end
