(* ===== verification/TcpServer.thy ===== *)
theory TcpServer
  imports TcpConnection EventLoopPool "HOL-Library.List_Lexorder" "HOL-Library.Char_ord"
begin

text \<open>
  \<open>matelib/TcpServer.h\<close> and \<open>.cc\<close>: the acceptor in the base loop, the map of connections and their
  hand-over between the base loop and the loops of the pool.

  The server is developed over an interface of connections, \<open>conn_class\<close>: what the server calls on
  a \<open>TcpConnection\<close>. The locale \<open>connection_class\<close> states the laws its correctness rests on;
  they are discharged for the model of \<open>TcpConnection\<close>. Loops are numbers; \<open>queues\<close> holds each
  loop's pending functors (in \<open>EventLoop\<close> they are shown to run once each, in order). What a
  connection sees of its loop is part of its own state. \<open>finished\<close> records the functors that have
  run. \<open>None\<close> is a failed assertion or a use of a freed object.
\<close>

section \<open>The default callbacks and the socket flags\<close>

text \<open>What they print, and the connection afterwards.\<close>

(* src/matelib/TcpServer.cc:19-24 detail::defaultConnectionCallback *)
definition defaultConnectionCallback :: "tcp \<Rightarrow> string \<times> tcp" where
  "defaultConnectionCallback w =
     (''New connection '' @ c_string (conn_name w) @ '' is '' @ (if connected w then ''UP'' else ''DOWN'')
        @ [CHR 0x0A], w)"

(* src/matelib/TcpServer.cc:26-34 detail::defaultMessageCallback *)
definition defaultMessageCallback :: "tcp \<Rightarrow> string \<times> tcp" where
  "defaultMessageCallback w =
     (''Recved '' @ show_int (to_int32 (int (readableBytes (inputBuffer w)))) @ '' bytes data from ''
        @ c_string (conn_name w) @ [CHR 0x0A],
      w\<lparr>inputBuffer := retrieveAll (inputBuffer w)\<rparr>)"

definition O_NONBLOCK :: "32 word" where "O_NONBLOCK = 0x800"

definition O_CLOEXEC :: "32 word" where "O_CLOEXEC = 0x80000"

definition FD_CLOEXEC :: "32 word" where "FD_CLOEXEC = 1"

text \<open>
  A descriptor's status flags and descriptor flags. \<open>F_SETFD\<close> keeps the bit \<open>FD_CLOEXEC\<close> only.
\<close>

(* src/matelib/TcpServer.cc:36-45 detail::setNONBLOCKandCLOEXEC *)
definition setNONBLOCKandCLOEXEC :: "32 word \<times> 32 word \<Rightarrow> 32 word \<times> 32 word" where
  "setNONBLOCKandCLOEXEC f =
     (let fl = fst f OR O_NONBLOCK; fd = snd f OR O_CLOEXEC in (fl, fd AND FD_CLOEXEC))"

section \<open>State\<close>

text \<open>What the server calls on a connection; \<open>k_open\<close>: its descriptor is being watched.\<close>

record 'k conn_class =
  k_new :: "int \<Rightarrow> string \<Rightarrow> sockaddr_in \<Rightarrow> sockaddr_in \<Rightarrow> 'k"
  k_setNoDelay :: "'k \<Rightarrow> 'k"
  k_established :: "'k \<Rightarrow> 'k option"
  k_write :: "'k \<Rightarrow> 'k option"
  k_closed :: "'k \<Rightarrow> 'k option"
  k_destroyed :: "'k \<Rightarrow> 'k option"
  k_open :: "'k \<Rightarrow> bool"

record 'k conn_obj =
  co_name :: string
  co_loop :: nat
  co_fd :: int
  co_state :: 'k

datatype srv_fun = Established nat | RemoveConnection nat | Destroyed nat

primrec fun_conn :: "srv_fun \<Rightarrow> nat" where
  "fun_conn (Established i) = i"
| "fun_conn (RemoveConnection i) = i"
| "fun_conn (Destroyed i) = i"

(* src/matelib/TcpServer.h:48-61 TcpServer *)
record 'k server =
  srv_started :: bool
  baseLoop :: nat
  idleFd :: int
  listenSock :: int
  accept_reading :: bool
  hostIpPort :: string
  ioThreadPool :: loop_pool
  nextConnId :: "32 word"
  connectionMap :: "(string \<times> nat) list"
  srv_deleted :: bool
  open_fds :: "int set"
  conns :: "nat \<Rightarrow> 'k conn_obj option"
  nconns :: nat
  queues :: "nat \<Rightarrow> srv_fun list"
  finished :: "srv_fun list"

definition open_fd :: "int \<Rightarrow> 'k server \<Rightarrow> 'k server" where
  "open_fd fd s = (if fd \<ge> 0 then s\<lparr>open_fds := open_fds s \<union> {fd}\<rparr> else s)"

definition close_fd :: "int \<Rightarrow> 'k server \<Rightarrow> 'k server" where
  "close_fd fd s = s\<lparr>open_fds := open_fds s - {fd}\<rparr>"

text \<open>\<open>std::map\<close>: an association list in the order of its keys.\<close>

fun map_insert :: "string \<Rightarrow> 'v \<Rightarrow> (string \<times> 'v) list \<Rightarrow> (string \<times> 'v) list" where
  "map_insert k v [] = [(k, v)]"
| "map_insert k v ((k', v') # m) =
     (if k = k' then (k, v) # m else if k < k' then (k, v) # (k', v') # m else (k', v') # map_insert k v m)"

definition map_erase :: "string \<Rightarrow> (string \<times> 'v) list \<Rightarrow> (string \<times> 'v) list" where
  "map_erase k m = filter (\<lambda>e. fst e \<noteq> k) m"

(* src/matelib/TcpServer.cc:52-85 TcpServer::TcpServer *)
definition server_new :: "nat \<Rightarrow> int \<Rightarrow> int \<Rightarrow> bool \<Rightarrow> sockaddr_in \<Rightarrow> nat \<Rightarrow> 'k server option" where
  "server_new base idle lsock bind_ok addr threadNum = do {
     assertc (lsock > 0);
     assertc bind_ok;
     Some (open_fd idle (open_fd lsock \<lparr>srv_started = False, baseLoop = base, idleFd = idle, listenSock = lsock, accept_reading = False,
       hostIpPort = toIpPort addr, ioThreadPool = loop_pool_new base threadNum, nextConnId = 0,
       connectionMap = [], srv_deleted = False, open_fds = {}, conns = (\<lambda>_. None), nconns = 0,
       queues = (\<lambda>_. []), finished = []\<rparr>))
   }"

text \<open>\<open>cur\<close> is the loop of the thread that makes the call.\<close>

(* src/matelib/TcpServer.cc:99-114 TcpServer::start *)
definition server_start :: "nat \<Rightarrow> bool \<Rightarrow> nat list \<Rightarrow> bool \<Rightarrow> 'k server \<Rightarrow> 'k server option" where
  "server_start cur init_cb new_loops listen_ok s = do {
     assertc (cur = baseLoop s);
     if \<not> srv_started s then do {
       let s1 = s\<lparr>srv_started := True\<rparr>;
       p \<leftarrow> loop_pool_start (cur = baseLoop s1) init_cb new_loops (ioThreadPool s1);
       let s2 = s1\<lparr>ioThreadPool := p\<rparr>;
       assertc listen_ok;
       Some (s2\<lparr>accept_reading := True\<rparr>)
     } else Some s
   }"

section \<open>Functors\<close>

definition post :: "nat \<Rightarrow> srv_fun \<Rightarrow> 'k server \<Rightarrow> 'k server" where
  "post l f s = s\<lparr>queues := (queues s)(l := queues s l @ [f])\<rparr>"

text \<open>An operation of connection \<open>i\<close>, which has to run in its loop.\<close>

definition on_conn :: "nat \<Rightarrow> nat \<Rightarrow> ('k \<Rightarrow> 'k option) \<Rightarrow> 'k server \<Rightarrow> 'k server option" where
  "on_conn cur i f s = do {
     c \<leftarrow> conns s i;
     assertc (cur = co_loop c);
     k \<leftarrow> f (co_state c);
     Some (s\<lparr>conns := (conns s)(i \<mapsto> c\<lparr>co_state := k\<rparr>)\<rparr>)
   }"

text \<open>
  The functor of \<open>connectionDestroyed\<close> holds the last pointer to the connection: afterwards the
  object is freed and its descriptor closed.
\<close>

definition free_conn :: "nat \<Rightarrow> 'k server \<Rightarrow> 'k server option" where
  "free_conn i s = do {
     c \<leftarrow> conns s i;
     Some (close_fd (co_fd c) (s\<lparr>conns := (conns s)(i := None)\<rparr>))
   }"

(* src/matelib/TcpServer.cc:174-185 TcpServer::removeConnectionInLoop *)
definition removeConnectionInLoop :: "nat \<Rightarrow> nat \<Rightarrow> 'k server \<Rightarrow> 'k server option" where
  "removeConnectionInLoop cur i s = do {
     assertc (\<not> srv_deleted s);
     assertc (cur = baseLoop s);
     c \<leftarrow> conns s i;
     let s1 = s\<lparr>connectionMap := map_erase (co_name c) (connectionMap s)\<rparr>;
     Some (post (co_loop c) (Destroyed i) s1)
   }"

definition finish :: "srv_fun \<Rightarrow> 'k server \<Rightarrow> 'k server" where
  "finish f s = s\<lparr>finished := finished s @ [f]\<rparr>"

fun srv_run :: "'k conn_class \<Rightarrow> nat \<Rightarrow> srv_fun \<Rightarrow> 'k server \<Rightarrow> 'k server option" where
  "srv_run K cur (Established i) s = map_option (finish (Established i)) (on_conn cur i (k_established K) s)"
| "srv_run K cur (RemoveConnection i) s = map_option (finish (RemoveConnection i)) (removeConnectionInLoop cur i s)"
| "srv_run K cur (Destroyed i) s =
     map_option (finish (Destroyed i)) (on_conn cur i (k_destroyed K) s \<bind> free_conn i)"

text \<open>\<open>EventLoop::runInLoop\<close> of loop \<open>l\<close>.\<close>

definition run_in :: "'k conn_class \<Rightarrow> nat \<Rightarrow> nat \<Rightarrow> srv_fun \<Rightarrow> 'k server \<Rightarrow> 'k server option" where
  "run_in K cur l f s = (if cur = l then srv_run K cur f s else Some (post l f s))"

(* src/matelib/TcpServer.cc:168-171 TcpServer::removeConnection *)
definition removeConnection :: "'k conn_class \<Rightarrow> nat \<Rightarrow> nat \<Rightarrow> 'k server \<Rightarrow> 'k server option" where
  "removeConnection K cur i s = do {
     assertc (\<not> srv_deleted s);
     run_in K cur (baseLoop s) (RemoveConnection i) s
   }"

section \<open>Accepting\<close>

text \<open>The answers of the kernel: to \<open>accept4\<close>, and to \<open>accept\<close> and \<open>open\<close> when descriptors ran out.\<close>

datatype accept_result = Accepted int sockaddr_in sockaddr_in | AcceptError bool

definition conn_name_of :: "32 word \<Rightarrow> string \<Rightarrow> int \<Rightarrow> string \<Rightarrow> string" where
  "conn_name_of n port fd peer =
     take 31 (''#'' @ show_int (sint n) @ '':'' @ port @ ''.'' @ show_int fd @ ''-'' @ peer)"

definition alloc_conn :: "'k conn_obj \<Rightarrow> 'k server \<Rightarrow> 'k server \<times> nat" where
  "alloc_conn c s = (s\<lparr>conns := (conns s)(nconns s \<mapsto> c), nconns := nconns s + 1\<rparr>, nconns s)"

(* src/matelib/TcpServer.cc:128-142 TcpServer::handleConnection *)
definition shed_connection :: "int \<Rightarrow> int \<Rightarrow> 'k server \<Rightarrow> 'k server" where
  "shed_connection second reopened s =
     (let s1 = close_fd (idleFd s) s;
          s2 = open_fd second (s1\<lparr>idleFd := second\<rparr>);
          s3 = close_fd (idleFd s2) s2
      in open_fd reopened (s3\<lparr>idleFd := reopened\<rparr>))"

(* src/matelib/TcpServer.cc:117-165 TcpServer::handleConnection *)
definition handleConnection ::
  "'k conn_class \<Rightarrow> nat \<Rightarrow> accept_result \<Rightarrow> int \<Rightarrow> int \<Rightarrow> 'k server \<Rightarrow> 'k server option" where
  "handleConnection K cur r second reopened s = do {
     assertc (cur = baseLoop s);
     (case r of
        AcceptError emfile \<Rightarrow> Some (if emfile then shed_connection second reopened s else s)
      | Accepted connfd peer local \<Rightarrow> do {
          let s1 = open_fd connfd s;
          let peerAddr = inet_of_sockaddr peer;
          let localAddr = inet_of_sockaddr local;
          let connName = conn_name_of (nextConnId s1) (toPort localAddr) connfd (toIpPort peerAddr);
          let s2 = s1\<lparr>nextConnId := nextConnId s1 + 1\<rparr>;
          (p, ioLoop) \<leftarrow> getNextLoop (cur = baseLoop s2) (ioThreadPool s2);
          let s3 = s2\<lparr>ioThreadPool := p\<rparr>;
          let (s4, conn) = alloc_conn \<lparr>co_name = connName, co_loop = ioLoop, co_fd = connfd,
              co_state = k_setNoDelay K (k_new K connfd connName localAddr peerAddr)\<rparr> s3;
          let s5 = s4\<lparr>connectionMap := map_insert connName conn (connectionMap s4)\<rparr>;
          run_in K cur ioLoop (Established conn) s5
        })
   }"

text \<open>
  The channel of connection \<open>i\<close> reports the peer's close: \<open>handleClose\<close>, whose last call is the
  cleanup callback, \<open>removeConnection\<close>.
\<close>

definition conn_close :: "'k conn_class \<Rightarrow> nat \<Rightarrow> nat \<Rightarrow> 'k server \<Rightarrow> 'k server option" where
  "conn_close K cur i s = on_conn cur i (k_closed K) s \<bind> removeConnection K cur i"

text \<open>
  The destructor, called in the thread of loop \<open>cur\<close>: every connection in the map is destroyed in
  its loop. From then on the server's members must not be used.
\<close>

fun destroy_all :: "'k conn_class \<Rightarrow> nat \<Rightarrow> (string \<times> nat) list \<Rightarrow> 'k server \<Rightarrow> 'k server option" where
  "destroy_all K cur [] s = Some s"
| "destroy_all K cur ((n, i) # m) s = do {
     c \<leftarrow> conns s i;
     s1 \<leftarrow> run_in K cur (co_loop c) (Destroyed i) s;
     destroy_all K cur m s1
   }"

(* src/matelib/TcpServer.cc:87-97 TcpServer::~TcpServer *)
definition server_delete :: "'k conn_class \<Rightarrow> nat \<Rightarrow> 'k server \<Rightarrow> 'k server option" where
  "server_delete K cur s = do {
     s1 \<leftarrow> destroy_all K cur (connectionMap s) s;
     Some (s1\<lparr>connectionMap := [], srv_deleted := True, accept_reading := False\<rparr>)
   }"

section \<open>Runs\<close>

text \<open>
  One step: the acceptor's callback, with a descriptor from the set \<open>okfd\<close>; a loop runs its next
  functor; an open connection's channel is writable; its peer closes. The model follows the first
  \<open>2\<^sup>3\<^sup>2\<close> connections: then the 32-bit counter in their names starts again.
\<close>

inductive srv_step :: "'k conn_class \<Rightarrow> (int \<Rightarrow> bool) \<Rightarrow> 'k server \<Rightarrow> 'k server \<Rightarrow> bool" for K okfd where
  accept: "accept_reading s \<Longrightarrow> nconns s < 2 ^ 32 \<Longrightarrow> okfd fd \<Longrightarrow>
    handleConnection K (baseLoop s) (Accepted fd peer local) 0 0 s = Some s' \<Longrightarrow> srv_step K okfd s s'"
| no_accept: "accept_reading s \<Longrightarrow>
    handleConnection K (baseLoop s) (AcceptError em) second reopened s = Some s' \<Longrightarrow> srv_step K okfd s s'"
| next_functor: "queues s l = f # fs \<Longrightarrow> srv_run K l f (s\<lparr>queues := (queues s)(l := fs)\<rparr>) = Some s' \<Longrightarrow>
    srv_step K okfd s s'"
| writable: "conns s i = Some c \<Longrightarrow> k_open K (co_state c) \<Longrightarrow> on_conn (co_loop c) i (k_write K) s = Some s' \<Longrightarrow>
    srv_step K okfd s s'"
| peer_close: "conns s i = Some c \<Longrightarrow> k_open K (co_state c) \<Longrightarrow> conn_close K (co_loop c) i s = Some s' \<Longrightarrow>
    srv_step K okfd s s'"

definition srv_running :: "nat \<Rightarrow> 'k server \<Rightarrow> bool" where
  "srv_running n s \<longleftrightarrow> (\<exists>base idle lsock addr init_cb ls s0.
     server_new base idle lsock True addr n = Some s0 \<and> server_start base init_cb ls True s0 = Some s)"

text \<open>The stages of a connection's life on the server.\<close>

datatype stage = Fresh | Up | Closing | Removed | Freed

fun stage_log :: "nat \<Rightarrow> stage \<Rightarrow> srv_fun list" where
  "stage_log i Fresh = []"
| "stage_log i Up = [Established i]"
| "stage_log i Closing = [Established i]"
| "stage_log i Removed = [Established i, RemoveConnection i]"
| "stage_log i Freed = [Established i, RemoveConnection i, Destroyed i]"

fun stage_pend :: "nat \<Rightarrow> nat \<Rightarrow> nat \<Rightarrow> stage \<Rightarrow> nat \<Rightarrow> srv_fun list" where
  "stage_pend base l i Fresh l' = (if l' = l then [Established i] else [])"
| "stage_pend base l i Closing l' = (if l' = base then [RemoveConnection i] else [])"
| "stage_pend base l i Removed l' = (if l' = l then [Destroyed i] else [])"
| "stage_pend base l i st l' = []"

definition log_of :: "nat \<Rightarrow> 'k server \<Rightarrow> srv_fun list" where
  "log_of i s = filter (\<lambda>f. fun_conn f = i) (finished s)"

definition pend_of :: "nat \<Rightarrow> 'k server \<Rightarrow> nat \<Rightarrow> srv_fun list" where
  "pend_of i s l = filter (\<lambda>f. fun_conn f = i) (queues s l)"

definition names_of :: "nat \<Rightarrow> 'k server \<Rightarrow> string set" where
  "names_of i s = {n. map_of (connectionMap s) n = Some i}"

text \<open>A name built for the connection with number \<open>i\<close>.\<close>

definition named :: "nat \<Rightarrow> string \<Rightarrow> bool" where
  "named i n \<longleftrightarrow> (\<exists>port fd peer. n = conn_name_of (of_nat i) port fd peer)"

section \<open>Names\<close>

lemma colon_no_digit: "CHR '':'' \<notin> set (show_int i)"
  using no_dot by (auto simp: show_int_def)

lemma length_show_int32: "length (show_int (sint (w :: 32 word))) \<le> 11"
proof -
  have "\<bar>sint w\<bar> \<le> 2 ^ 31"
    using sint_ge [of w] sint_lt [of w] by (simp add: abs_le_iff)
  then have "nat \<bar>sint w\<bar> < 10 ^ 10" by simp
  then have "length (show_nat (nat \<bar>sint w\<bar>)) \<le> 10" by (rule length_show_nat) simp
  then show ?thesis by (auto simp: show_int_def)
qed

text \<open>The cut at 31 characters leaves the number and its colon.\<close>

lemma name_tag: "takeWhile (\<lambda>c. c \<noteq> CHR '':'') (conn_name_of w port fd peer) = ''#'' @ show_int (sint w)"
proof -
  let ?t = "''#'' @ show_int (sint w)"
  have l: "length ?t \<le> 12" using length_show_int32 [of w] by simp
  then obtain r where "conn_name_of w port fd peer = ?t @ CHR '':'' # r"
    by (auto simp: conn_name_of_def take_Cons')
  moreover have "takeWhile (\<lambda>c. c \<noteq> CHR '':'') ?t = ?t" "\<forall>c\<in>set ?t. c \<noteq> CHR '':''"
    using colon_no_digit [of "sint w"] by (auto simp: takeWhile_eq_all_conv)
  ultimately show ?thesis by (simp add: takeWhile_append2)
qed

lemma show_int_inject: "show_int a = show_int b \<Longrightarrow> a = b"
proof -
  have m: "show_nat n \<noteq> CHR ''-'' # r" for n r
    using show_nat_digits [of "CHR ''-''" n] by (auto simp: is_digit_def)
  assume "show_int a = show_int b"
  then show ?thesis using m m [symmetric] by (auto simp: show_int_def show_nat_inject split: if_splits)
qed

lemma of_nat32_inject:
  assumes "(of_nat i :: 32 word) = of_nat j" "i < 2 ^ 32" "j < 2 ^ 32"
  shows "i = j"
proof -
  from assms(1) have "unat (of_nat i :: 32 word) = unat (of_nat j :: 32 word)" by simp
  with assms(2,3) show ?thesis by (simp add: unat_of_nat take_bit_nat_eq_self)
qed

lemma named_unique:
  assumes "named i n" "named j n" "i < 2 ^ 32" "j < 2 ^ 32"
  shows "i = j"
proof -
  from assms(1,2) have "show_int (sint (of_nat i :: 32 word)) = show_int (sint (of_nat j :: 32 word))"
    unfolding named_def using name_tag by (metis append_same_eq same_append_eq)
  then have "sint (of_nat i :: 32 word) = sint (of_nat j :: 32 word)" by (rule show_int_inject)
  then have "(of_nat i :: 32 word) = of_nat j" by (rule signed_word_eqI)
  then show ?thesis using assms(3,4) by (rule of_nat32_inject)
qed

text \<open>Names that, below \<open>2\<^sup>3\<^sup>2\<close>, belong to one number.\<close>

definition unique_names :: "(nat \<Rightarrow> string \<Rightarrow> bool) \<Rightarrow> bool" where
  "unique_names nm \<longleftrightarrow> (\<forall>i j n. nm i n \<longrightarrow> nm j n \<longrightarrow> i < 2 ^ 32 \<longrightarrow> j < 2 ^ 32 \<longrightarrow> i = j)"

lemma unique_named: "unique_names named"
  using named_unique unfolding unique_names_def by blast

section \<open>The connection map\<close>

lemma map_of_insert [simp]: "map_of (map_insert k v m) = (map_of m)(k \<mapsto> v)"
  by (induction k v m rule: map_insert.induct) auto

lemma map_of_erase [simp]: "map_of (map_erase k m) = (map_of m)(k := None)"
  by (rule ext, induction m) (auto simp: map_erase_def)

section \<open>The state of one connection\<close>

text \<open>
  Connection \<open>i\<close> is at stage \<open>st\<close>: the functors that have run, its object, its name in the map, and
  (for \<open>conn_stage\<close>) the one functor pending. The phases are those of the connection's own state.
\<close>

fun stage_phase :: "('k \<Rightarrow> bool) \<Rightarrow> ('k \<Rightarrow> bool) \<Rightarrow> ('k \<Rightarrow> bool) \<Rightarrow> stage \<Rightarrow> 'k \<Rightarrow> bool" where
  "stage_phase fresh up down Fresh k = fresh k"
| "stage_phase fresh up down Up k = up k"
| "stage_phase fresh up down st k = down k"

definition conn_at :: "('k \<Rightarrow> bool) \<Rightarrow> ('k \<Rightarrow> bool) \<Rightarrow> ('k \<Rightarrow> bool) \<Rightarrow> 'k server \<Rightarrow> nat \<Rightarrow> stage \<Rightarrow> nat \<Rightarrow> bool" where
  "conn_at fresh up down s i st l \<longleftrightarrow> log_of i s = stage_log i st \<and>
     (if st = Freed then conns s i = None \<and> names_of i s = {}
      else \<exists>c. conns s i = Some c \<and> co_loop c = l \<and> stage_phase fresh up down st (co_state c)
        \<and> names_of i s = (if st = Removed then {} else {co_name c}))"

definition conn_stage :: "('k \<Rightarrow> bool) \<Rightarrow> ('k \<Rightarrow> bool) \<Rightarrow> ('k \<Rightarrow> bool) \<Rightarrow> 'k server \<Rightarrow> nat \<Rightarrow> stage \<Rightarrow> bool" where
  "conn_stage fresh up down s i st \<longleftrightarrow>
     (\<exists>l. conn_at fresh up down s i st l \<and> (\<forall>l'. pend_of i s l' = stage_pend (baseLoop s) l i st l'))"

definition pool_ok :: "nat \<Rightarrow> loop_pool \<Rightarrow> bool" where
  "pool_ok base p \<longleftrightarrow> baseloop p = base \<and> length (loops p) = lp_threadNum p
     \<and> (0 < lp_threadNum p \<longrightarrow> next_index p < lp_threadNum p)"

lemma loop_pool_start_ok: "loop_pool_start b init_cb ls (loop_pool_new base n) = Some p \<Longrightarrow> pool_ok base p"
  by (auto simp: loop_pool_start_def loop_pool_new_def pool_ok_def bind_Some_iff Let_def split: if_splits)

text \<open>What a step on connection \<open>j\<close> leaves alone.\<close>

definition same_conn :: "nat \<Rightarrow> 'k server \<Rightarrow> 'k server \<Rightarrow> bool" where
  "same_conn i s s' \<longleftrightarrow> log_of i s' = log_of i s \<and> pend_of i s' = pend_of i s \<and> conns s' i = conns s i
     \<and> names_of i s' = names_of i s"

definition srv_frame :: "nat \<Rightarrow> 'k server \<Rightarrow> 'k server \<Rightarrow> bool" where
  "srv_frame j s s' \<longleftrightarrow> (\<forall>i. i \<noteq> j \<longrightarrow> same_conn i s s') \<and> names_of j s' \<subseteq> names_of j s
     \<and> baseLoop s' = baseLoop s \<and> nconns s' = nconns s \<and> nextConnId s' = nextConnId s
     \<and> srv_deleted s' = srv_deleted s \<and> ioThreadPool s' = ioThreadPool s"

lemma srv_frame_refl [simp]: "srv_frame j s s"
  by (simp add: srv_frame_def same_conn_def)

lemma srv_frame_trans: "srv_frame j s t \<Longrightarrow> srv_frame j t u \<Longrightarrow> srv_frame j s u"
  unfolding srv_frame_def same_conn_def by auto

lemma log_of_simps [simp]:
  "log_of i (finish f s) = log_of i s @ (if fun_conn f = i then [f] else [])"
  "log_of i (post l f s) = log_of i s" "log_of i (close_fd fd s) = log_of i s"
  "log_of i (s\<lparr>conns := cs\<rparr>) = log_of i s" "log_of i (s\<lparr>connectionMap := m\<rparr>) = log_of i s"
  "log_of i (s\<lparr>queues := q\<rparr>) = log_of i s"
  by (simp_all add: log_of_def finish_def post_def close_fd_def)

lemma pend_of_simps [simp]:
  "pend_of i (post l f s) = (\<lambda>l'. pend_of i s l' @ (if l' = l \<and> fun_conn f = i then [f] else []))"
  "pend_of i (finish f s) = pend_of i s" "pend_of i (close_fd fd s) = pend_of i s"
  "pend_of i (s\<lparr>conns := cs\<rparr>) = pend_of i s" "pend_of i (s\<lparr>connectionMap := m\<rparr>) = pend_of i s"
  by (simp_all add: pend_of_def finish_def post_def close_fd_def fun_eq_iff)

lemma names_of_simps [simp]:
  "names_of i (post l f s) = names_of i s" "names_of i (finish f s) = names_of i s"
  "names_of i (close_fd fd s) = names_of i s" "names_of i (s\<lparr>conns := cs\<rparr>) = names_of i s"
  "names_of i (s\<lparr>queues := q\<rparr>) = names_of i s"
  "names_of i (s\<lparr>connectionMap := map_erase n (connectionMap s)\<rparr>) = names_of i s - {n}"
  by (auto simp: names_of_def finish_def post_def close_fd_def)

lemma server_simps [simp]:
  "conns (post l f s) = conns s" "baseLoop (post l f s) = baseLoop s" "nconns (post l f s) = nconns s"
  "nextConnId (post l f s) = nextConnId s" "srv_deleted (post l f s) = srv_deleted s"
  "ioThreadPool (post l f s) = ioThreadPool s" "connectionMap (post l f s) = connectionMap s"
  "conns (finish f s) = conns s" "baseLoop (finish f s) = baseLoop s" "nconns (finish f s) = nconns s"
  "nextConnId (finish f s) = nextConnId s" "srv_deleted (finish f s) = srv_deleted s"
  "ioThreadPool (finish f s) = ioThreadPool s"
  "conns (close_fd fd s) = conns s" "baseLoop (close_fd fd s) = baseLoop s" "nconns (close_fd fd s) = nconns s"
  "nextConnId (close_fd fd s) = nextConnId s" "srv_deleted (close_fd fd s) = srv_deleted s"
  "ioThreadPool (close_fd fd s) = ioThreadPool s"
  by (simp_all add: post_def finish_def close_fd_def)

lemma same_conn_stage:
  "same_conn i s s' \<Longrightarrow> baseLoop s' = baseLoop s \<Longrightarrow>
    conn_stage fresh up down s' i st = conn_stage fresh up down s i st"
  unfolding same_conn_def conn_stage_def conn_at_def by simp

text \<open>Names in the map belong to one connection.\<close>

lemma names_other: "n \<in> names_of j s \<Longrightarrow> i \<noteq> j \<Longrightarrow> n \<notin> names_of i s"
  by (simp add: names_of_def)

definition srv_inv :: "(nat \<Rightarrow> string \<Rightarrow> bool) \<Rightarrow> ('k \<Rightarrow> bool) \<Rightarrow> ('k \<Rightarrow> bool) \<Rightarrow> ('k \<Rightarrow> bool) \<Rightarrow> 'k server \<Rightarrow> bool" where
  "srv_inv nm fresh up down s \<longleftrightarrow> nconns s \<le> 2 ^ 32 \<and> nextConnId s = of_nat (nconns s) \<and> \<not> srv_deleted s
     \<and> (\<forall>i<nconns s. \<exists>st. conn_stage fresh up down s i st)
     \<and> (\<forall>i\<ge>nconns s. log_of i s = [] \<and> (\<forall>l. pend_of i s l = []) \<and> names_of i s = {} \<and> conns s i = None)
     \<and> (\<forall>i. \<forall>n\<in>names_of i s. nm i n) \<and> pool_ok (baseLoop s) (ioThreadPool s)"

lemma shed_inv: "srv_inv nm fresh up down (shed_connection a b s) = srv_inv nm fresh up down s"
proof -
  have e: "shed_connection a b s = s\<lparr>idleFd := b, open_fds := open_fds (shed_connection a b s)\<rparr>"
    by (simp add: shed_connection_def Let_def close_fd_def open_fd_def)
  have "srv_inv nm fresh up down (s\<lparr>idleFd := x, open_fds := y\<rparr>) = srv_inv nm fresh up down s" for x y
    by (simp add: srv_inv_def conn_stage_def conn_at_def log_of_def pend_of_def names_of_def)
  then show ?thesis by (subst e)
qed

section \<open>The laws of a connection\<close>

text \<open>
  What the server relies on. A new connection is fresh; \<open>connectionEstablished\<close> brings it up; the
  handling of writability keeps it up; \<open>handleClose\<close> takes it down; \<open>connectionDestroyed\<close> succeeds
  once it is down. Only a connection that is up is watched.
\<close>

locale connection_class =
  fixes K :: "'k conn_class"
    and okfd :: "int \<Rightarrow> bool"
    and fresh :: "'k \<Rightarrow> bool"
    and up :: "'k \<Rightarrow> bool"
    and down :: "'k \<Rightarrow> bool"
  assumes new_fresh: "okfd fd \<Longrightarrow> fresh (k_setNoDelay K (k_new K fd n la pa))"
    and established_up: "fresh k \<Longrightarrow> \<exists>k'. k_established K k = Some k' \<and> up k'"
    and write_up: "up k \<Longrightarrow> \<exists>k'. k_write K k = Some k' \<and> up k'"
    and closed_down: "up k \<Longrightarrow> \<exists>k'. k_closed K k = Some k' \<and> down k'"
    and destroyed_ends: "down k \<Longrightarrow> k_destroyed K k \<noteq> None"
    and fresh_shut: "fresh k \<Longrightarrow> \<not> k_open K k"
    and down_shut: "down k \<Longrightarrow> \<not> k_open K k"
begin

abbreviation at_stage :: "'k server \<Rightarrow> nat \<Rightarrow> stage \<Rightarrow> nat \<Rightarrow> bool" where
  "at_stage \<equiv> conn_at fresh up down"

abbreviation in_stage :: "'k server \<Rightarrow> nat \<Rightarrow> stage \<Rightarrow> bool" where
  "in_stage \<equiv> conn_stage fresh up down"

lemma run_established:
  assumes "at_stage s j Fresh l" "\<And>l'. pend_of j s l' = []"
  shows "\<exists>s'. srv_run K l (Established j) s = Some s' \<and> in_stage s' j Up \<and> srv_frame j s s'"
proof -
  from assms(1) obtain c where c: "conns s j = Some c" "co_loop c = l" "fresh (co_state c)"
    "names_of j s = {co_name c}" "log_of j s = []" by (auto simp: conn_at_def)
  from established_up [OF c(3)] obtain k where k: "k_established K (co_state c) = Some k" "up k" by blast
  with c assms(2) show ?thesis
    by (auto simp: on_conn_def abort_simps conn_stage_def conn_at_def srv_frame_def same_conn_def)
qed

lemma run_remove:
  assumes "at_stage s j Closing l" "\<And>l'. pend_of j s l' = []" "\<not> srv_deleted s"
  shows "\<exists>s'. srv_run K (baseLoop s) (RemoveConnection j) s = Some s' \<and> in_stage s' j Removed \<and> srv_frame j s s'"
proof -
  from assms(1) obtain c where c: "conns s j = Some c" "co_loop c = l" "down (co_state c)"
    "names_of j s = {co_name c}" "log_of j s = [Established j]" by (auto simp: conn_at_def)
  have o: "co_name c \<notin> names_of i s" if "i \<noteq> j" for i using c(4) names_other [of _ j s i] that by blast
  from c o assms(2,3) show ?thesis
    by (auto simp: removeConnectionInLoop_def abort_simps conn_stage_def conn_at_def srv_frame_def
        same_conn_def fun_eq_iff)
qed

lemma run_destroyed:
  assumes "at_stage s j Removed l" "\<And>l'. pend_of j s l' = []"
  shows "\<exists>s'. srv_run K l (Destroyed j) s = Some s' \<and> in_stage s' j Freed \<and> srv_frame j s s'"
proof -
  from assms(1) obtain c where c: "conns s j = Some c" "co_loop c = l" "down (co_state c)"
    "names_of j s = {}" "log_of j s = [Established j, RemoveConnection j]" by (auto simp: conn_at_def)
  from destroyed_ends [OF c(3)] obtain k where "k_destroyed K (co_state c) = Some k" by blast
  with c assms(2) show ?thesis
    by (auto simp: on_conn_def free_conn_def abort_simps conn_stage_def conn_at_def srv_frame_def same_conn_def)
qed

lemma stage_pend_short: "length (stage_pend b l i st l') \<le> 1"
  by (cases st) auto

lemma stage_pend_one: "stage_pend b l i st l1 \<noteq> [] \<Longrightarrow> stage_pend b l i st l2 \<noteq> [] \<Longrightarrow> l1 = l2"
  by (cases st) (auto split: if_splits)

text \<open>A loop takes its next functor: it belongs to a connection that waits for just this functor.\<close>

lemma pop_frame:
  assumes "queues s l = f # fs"
  shows "srv_frame (fun_conn f) s (s\<lparr>queues := (queues s)(l := fs)\<rparr>)"
    and "conn_at fr u d (s\<lparr>queues := (queues s)(l := fs)\<rparr>) j st l0 = conn_at fr u d s j st l0"
    and "pend_of (fun_conn f) s l' = (if l' = l then [f] else []) @ pend_of (fun_conn f) (s\<lparr>queues := (queues s)(l := fs)\<rparr>) l'"
  using assms by (auto simp: srv_frame_def same_conn_def pend_of_def conn_at_def fun_eq_iff)

lemma next_functor_ok:
  assumes "queues s l = f # fs" "in_stage s (fun_conn f) st" "\<not> srv_deleted s"
  shows "\<exists>s' st'. srv_run K l f (s\<lparr>queues := (queues s)(l := fs)\<rparr>) = Some s' \<and> in_stage s' (fun_conn f) st'
    \<and> srv_frame (fun_conn f) s s'"
proof -
  let ?j = "fun_conn f" and ?s = "s\<lparr>queues := (queues s)(l := fs)\<rparr>"
  from assms(2) obtain l0 where at: "at_stage ?s ?j st l0"
    and p: "pend_of ?j s l' = stage_pend (baseLoop s) l0 ?j st l'" for l'
    using pop_frame(2) [OF assms(1)] by (auto simp: conn_stage_def)
  have e: "(if l' = l then [f] else []) @ pend_of ?j ?s l' = stage_pend (baseLoop s) l0 ?j st l'" for l'
    using p pop_frame(3) [OF assms(1)] by metis
  have f: "stage_pend (baseLoop s) l0 ?j st l = [f]"
  proof -
    have "length ([f] @ pend_of ?j ?s l) \<le> 1"
      using stage_pend_short [of "baseLoop s" l0 ?j st l] unfolding e [of l, symmetric] by simp
    then show ?thesis unfolding e [of l, symmetric] by simp
  qed
  have nil: "pend_of ?j ?s l' = []" for l'
  proof (cases "l' = l")
    case True
    then show ?thesis using e [of l] f by simp
  next
    case False
    then show ?thesis using e [of l'] f stage_pend_one [of "baseLoop s" l0 ?j st l l'] by auto
  qed
  have "\<exists>s' st'. srv_run K l f ?s = Some s' \<and> in_stage s' ?j st' \<and> srv_frame ?j ?s s'"
  proof (cases st)
    case Fresh
    with f have "f = Established ?j" "l = l0" by (auto split: if_splits)
    then show ?thesis using run_established [of ?s ?j l0] at nil Fresh by metis
  next
    case Closing
    with f have "f = RemoveConnection ?j" "l = baseLoop ?s" by (auto split: if_splits)
    moreover have "\<not> srv_deleted ?s" using assms(3) by simp
    ultimately show ?thesis using run_remove [of ?s ?j l0] at nil Closing by metis
  next
    case Removed
    with f have "f = Destroyed ?j" "l = l0" by (auto split: if_splits)
    then show ?thesis using run_destroyed [of ?s ?j l0] at nil Removed by metis
  qed (use f in auto)
  then show ?thesis using srv_frame_trans [OF pop_frame(1) [OF assms(1)]] by blast
qed

lemma frame_inv:
  assumes "srv_inv nm fresh up down s" "j < nconns s" "srv_frame j s s'" "in_stage s' j st"
  shows "srv_inv nm fresh up down s'"
proof -
  have f: "baseLoop s' = baseLoop s" "nconns s' = nconns s" "nextConnId s' = nextConnId s"
    "srv_deleted s' = srv_deleted s" "ioThreadPool s' = ioThreadPool s" "names_of j s' \<subseteq> names_of j s"
    and o: "\<And>i. i \<noteq> j \<Longrightarrow> same_conn i s s'"
    using assms(3) by (simp_all add: srv_frame_def)
  have "\<exists>st. in_stage s' i st" if "i < nconns s" for i
    using assms(1,4) that same_conn_stage [OF o f(1), of i] unfolding srv_inv_def by (cases "i = j") auto
  moreover have "log_of i s' = [] \<and> (\<forall>l. pend_of i s' l = []) \<and> names_of i s' = {} \<and> conns s' i = None"
    if "nconns s \<le> i" for i
  proof -
    from that assms(2) have "i \<noteq> j" by simp
    from o [OF this] assms(1) that show ?thesis unfolding srv_inv_def same_conn_def by simp
  qed
  moreover have "nm i n" if "n \<in> names_of i s'" for i n
    using assms(1) that o [of i] f(6) unfolding srv_inv_def same_conn_def by (cases "i = j") auto
  ultimately show ?thesis using assms(1) f unfolding srv_inv_def by simp
qed

lemma functor_ok:
  assumes "srv_inv nm fresh up down s" "queues s l = f # fs"
  shows "\<exists>s'. srv_run K l f (s\<lparr>queues := (queues s)(l := fs)\<rparr>) = Some s' \<and> srv_inv nm fresh up down s'"
proof -
  have "f \<in> set (pend_of (fun_conn f) s l)" using assms(2) by (simp add: pend_of_def)
  with assms(1) have j: "fun_conn f < nconns s"
    unfolding srv_inv_def by (metis empty_iff empty_set not_le)
  with assms(1) obtain st where "in_stage s (fun_conn f) st" "\<not> srv_deleted s" unfolding srv_inv_def by blast
  from next_functor_ok [OF assms(2) this] frame_inv [OF assms(1) j] show ?thesis by blast
qed

text \<open>A watched connection is up.\<close>

lemma open_up:
  assumes "srv_inv nm fresh up down s" "conns s i = Some c" "k_open K (co_state c)"
  shows "i < nconns s" "at_stage s i Up (co_loop c)" "pend_of i s l = []" "up (co_state c)"
proof -
  show i: "i < nconns s" using assms(1,2) unfolding srv_inv_def by (metis not_le option.distinct(1))
  with assms(1) obtain st l0 where st: "at_stage s i st l0" "pend_of i s l = stage_pend (baseLoop s) l0 i st l"
    unfolding srv_inv_def conn_stage_def by blast
  have "st = Up"
  proof (cases st)
    case Up
    then show ?thesis .
  qed (use st(1) assms(2,3) fresh_shut down_shut in \<open>auto simp: conn_at_def\<close>)
  with st assms(2) show "at_stage s i Up (co_loop c)" "pend_of i s l = []" "up (co_state c)"
    by (auto simp: conn_at_def)
qed

lemma on_conn_frame:
  assumes "conns s i = Some c" "f (co_state c) = Some k"
  shows "on_conn (co_loop c) i f s = Some (s\<lparr>conns := (conns s)(i \<mapsto> c\<lparr>co_state := k\<rparr>)\<rparr>)"
    and "srv_frame i s (s\<lparr>conns := (conns s)(i \<mapsto> c\<lparr>co_state := k\<rparr>)\<rparr>)"
  using assms by (simp_all add: on_conn_def abort_simps srv_frame_def same_conn_def)

lemma writable_ok:
  assumes "srv_inv nm fresh up down s" "conns s i = Some c" "k_open K (co_state c)"
  shows "\<exists>s'. on_conn (co_loop c) i (k_write K) s = Some s' \<and> srv_inv nm fresh up down s'"
proof -
  note up = open_up [OF assms]
  from write_up [OF up(4)] obtain k where k: "k_write K (co_state c) = Some k" "up k" by blast
  let ?s = "s\<lparr>conns := (conns s)(i \<mapsto> c\<lparr>co_state := k\<rparr>)\<rparr>"
  have "in_stage ?s i Up"
    using up(2,3) assms(2) k(2) by (auto simp: conn_stage_def conn_at_def)
  from frame_inv [OF assms(1) up(1) _ this] on_conn_frame [where f = "k_write K", OF assms(2) k(1)]
  show ?thesis by blast
qed

lemma close_ok:
  assumes "srv_inv nm fresh up down s" "conns s i = Some c" "k_open K (co_state c)"
  shows "\<exists>s'. conn_close K (co_loop c) i s = Some s' \<and> srv_inv nm fresh up down s'"
proof -
  note up = open_up [OF assms]
  from closed_down [OF up(4)] obtain k where k: "k_closed K (co_state c) = Some k" "down k" by blast
  let ?s = "s\<lparr>conns := (conns s)(i \<mapsto> c\<lparr>co_state := k\<rparr>)\<rparr>"
  note oc = on_conn_frame [where f = "k_closed K", OF assms(2) k(1)]
  have at: "at_stage ?s i Closing (co_loop c)" and nil: "pend_of i ?s l = []" and dl: "\<not> srv_deleted ?s" for l
    using up(2,3) assms(1,2) k(2) by (auto simp: conn_at_def srv_inv_def)
  show ?thesis
  proof (cases "co_loop c = baseLoop s")
    case True
    from run_remove [OF at nil dl] obtain s' where s': "srv_run K (baseLoop s) (RemoveConnection i) ?s = Some s'"
      "in_stage s' i Removed" "srv_frame i ?s s'" by auto
    then have "conn_close K (co_loop c) i s = Some s'"
      using True oc(1) dl by (simp add: conn_close_def removeConnection_def run_in_def abort_simps)
    with frame_inv [OF assms(1) up(1) srv_frame_trans [OF oc(2) s'(3)] s'(2)] show ?thesis by blast
  next
    case False
    let ?s' = "post (baseLoop s) (RemoveConnection i) ?s"
    have "conn_close K (co_loop c) i s = Some ?s'"
      using False oc(1) dl by (simp add: conn_close_def removeConnection_def run_in_def abort_simps)
    moreover have "in_stage ?s' i Closing"
      using at nil by (auto simp: conn_stage_def conn_at_def)
    moreover have "srv_frame i s ?s'" by (auto simp: srv_frame_def same_conn_def fun_eq_iff)
    ultimately show ?thesis using frame_inv [OF assms(1) up(1)] by blast
  qed
qed

text \<open>The connection object and the map entry of an accepted connection, before its functor.\<close>

lemma accepted_state:
  assumes "srv_inv nm fresh up down s" "nconns s < 2 ^ 32" "nm (nconns s) n" "fresh k" "pool_ok (baseLoop s) p"
    "c = \<lparr>co_name = n, co_loop = l, co_fd = fd, co_state = k\<rparr>"
    "s' = s\<lparr>open_fds := fds, nextConnId := nextConnId s + 1, ioThreadPool := p, conns := (conns s)(nconns s \<mapsto> c),
       nconns := nconns s + 1, connectionMap := map_insert n (nconns s) (connectionMap s)\<rparr>"
    "unique_names nm"
  shows "at_stage s' (nconns s) Fresh l" "pend_of (nconns s) s' l' = []" "i \<noteq> nconns s \<Longrightarrow> same_conn i s s'"
    "names_of (nconns s) s' = {n}"
proof -
  have e: "log_of (nconns s) s = []" "pend_of (nconns s) s l' = []" "names_of (nconns s) s = {}" for l'
    using assms(1) unfolding srv_inv_def by auto
  have v: "log_of i s' = log_of i s" "pend_of i s' = pend_of i s" for i
    by (simp_all add: assms(7) log_of_def pend_of_def fun_eq_iff)
  have names: "names_of i s' = (if i = nconns s then insert n (names_of i s) else names_of i s - {n})" for i
    by (auto simp: assms(7) names_of_def)
  have "n \<notin> names_of i s" if "i \<noteq> nconns s" for i
  proof
    assume n: "n \<in> names_of i s"
    with assms(1) have "i < nconns s" "nm i n" unfolding srv_inv_def by (auto simp: not_le [symmetric])
    with assms(2,3,8) that show False unfolding unique_names_def by fastforce
  qed
  with v names e show "i \<noteq> nconns s \<Longrightarrow> same_conn i s s'" "names_of (nconns s) s' = {n}"
    by (simp_all add: same_conn_def assms(7))
  with e v show "pend_of (nconns s) s' l' = []" "at_stage s' (nconns s) Fresh l"
    by (simp_all add: conn_at_def assms(4,6,7))
qed

lemma inv_add:
  assumes "srv_inv nm fresh up down s" "nconns s < 2 ^ 32" "nconns s' = nconns s + 1" "nextConnId s' = nextConnId s + 1"
    "baseLoop s' = baseLoop s" "\<not> srv_deleted s'" "pool_ok (baseLoop s) (ioThreadPool s')"
    "\<And>i. i \<noteq> nconns s \<Longrightarrow> same_conn i s s'" "in_stage s' (nconns s) st" "names_of (nconns s) s' \<subseteq> {n}"
    "nm (nconns s) n"
  shows "srv_inv nm fresh up down s'"
proof -
  have "\<exists>st. in_stage s' i st" if "i < nconns s'" for i
  proof (cases "i = nconns s")
    case True
    with assms(9) show ?thesis by blast
  next
    case False
    with that assms(3) have "i < nconns s" by simp
    with assms(1) same_conn_stage [OF assms(8) [OF False] assms(5)] show ?thesis unfolding srv_inv_def by blast
  qed
  moreover have "log_of i s' = [] \<and> (\<forall>l. pend_of i s' l = []) \<and> names_of i s' = {} \<and> conns s' i = None"
    if "nconns s' \<le> i" for i
  proof -
    from that assms(3) have "i \<noteq> nconns s" "nconns s \<le> i" by simp_all
    with assms(8) [of i] assms(1) show ?thesis unfolding srv_inv_def same_conn_def by simp
  qed
  moreover have "nm i m" if "m \<in> names_of i s'" for i m
    using assms(1) that assms(8) [of i] assms(10,11) unfolding srv_inv_def same_conn_def
    by (cases "i = nconns s") auto
  ultimately show ?thesis using assms(1-7) unfolding srv_inv_def by simp
qed

lemma getNextLoop_ok:
  assumes "pool_ok b p"
  shows "\<exists>p' l. getNextLoop True p = Some (p', l) \<and> pool_ok b p'"
  using assms by (auto simp: getNextLoop_def pool_ok_def abort_simps)

text \<open>The new connection's functor runs or waits.\<close>

lemma accept_established:
  assumes "srv_inv nm fresh up down s" "unique_names nm" "nconns s < 2 ^ 32" "nm (nconns s) n" "fresh k"
    "pool_ok (baseLoop s) p" "c = \<lparr>co_name = n, co_loop = l, co_fd = fd, co_state = k\<rparr>"
    "s1 = s\<lparr>open_fds := fds, nextConnId := nextConnId s + 1, ioThreadPool := p, conns := (conns s)(nconns s \<mapsto> c),
       nconns := nconns s + 1, connectionMap := map_insert n (nconns s) (connectionMap s)\<rparr>"
  shows "\<exists>s'. run_in K (baseLoop s) l (Established (nconns s)) s1 = Some s' \<and> srv_inv nm fresh up down s'
    \<and> nconns s' = nconns s + 1"
proof -
  have d: "\<not> srv_deleted s" using assms(1) unfolding srv_inv_def by auto
  note st = accepted_state [OF assms(1,3,4,5,6,7,8,2)]
  have b: "baseLoop s1 = baseLoop s" "nconns s1 = nconns s + 1" "nextConnId s1 = nextConnId s + 1"
    "\<not> srv_deleted s1" "pool_ok (baseLoop s) (ioThreadPool s1)"
    using d assms(6) by (simp_all add: assms(8))
  show ?thesis
  proof (cases "l = baseLoop s")
    case True
    from run_established [OF st(1,2)] obtain s2 where s2: "srv_run K l (Established (nconns s)) s1 = Some s2"
      "in_stage s2 (nconns s) Up" "srv_frame (nconns s) s1 s2" by blast
    have f: "nconns s2 = nconns s + 1" "nextConnId s2 = nextConnId s + 1" "baseLoop s2 = baseLoop s" "\<not> srv_deleted s2"
      "pool_ok (baseLoop s) (ioThreadPool s2)" "names_of (nconns s) s2 \<subseteq> {n}"
      using s2(3) b st(4) by (simp_all add: srv_frame_def)
    have o: "same_conn i s s2" if "i \<noteq> nconns s" for i
      using s2(3) st(3) [OF that] that by (simp add: srv_frame_def same_conn_def)
    have "run_in K (baseLoop s) l (Established (nconns s)) s1 = Some s2"
      using s2(1) True unfolding run_in_def by simp
    with inv_add [OF assms(1,3) f(1-5) o s2(2) f(6) assms(4)] f(1) show ?thesis by blast
  next
    case False
    let ?s2 = "post l (Established (nconns s)) s1"
    have f: "nconns ?s2 = nconns s + 1" "nextConnId ?s2 = nextConnId s + 1" "baseLoop ?s2 = baseLoop s" "\<not> srv_deleted ?s2"
      "pool_ok (baseLoop s) (ioThreadPool ?s2)" "names_of (nconns s) ?s2 \<subseteq> {n}"
      using b st(4) by simp_all
    have o: "same_conn i s ?s2" if "i \<noteq> nconns s" for i
      using st(3) [OF that] that by (simp add: same_conn_def fun_eq_iff)
    have g: "in_stage ?s2 (nconns s) Fresh"
      using st(1,2) by (auto simp: conn_stage_def conn_at_def)
    from inv_add [OF assms(1,3) f(1-5) o g f(6) assms(4)] False f(1) show ?thesis by (simp add: run_in_def)
  qed
qed

lemma accept_ok:
  assumes "srv_inv named fresh up down s" "nconns s < 2 ^ 32" "okfd fd"
  shows "\<exists>s'. handleConnection K (baseLoop s) (Accepted fd peer loc) a b s = Some s' \<and> srv_inv named fresh up down s'
    \<and> nconns s' = nconns s + 1"
proof -
  let ?n = "conn_name_of (nextConnId s) (toPort (inet_of_sockaddr loc)) fd (toIpPort (inet_of_sockaddr peer))"
  let ?k = "k_setNoDelay K (k_new K fd ?n (inet_of_sockaddr loc) (inet_of_sockaddr peer))"
  have i: "pool_ok (baseLoop s) (ioThreadPool s)" "nextConnId s = of_nat (nconns s)"
    using assms(1) unfolding srv_inv_def by auto
  from getNextLoop_ok [OF i(1)] obtain p l where p: "getNextLoop True (ioThreadPool s) = Some (p, l)"
    "pool_ok (baseLoop s) p" by blast
  have n: "named (nconns s) ?n" unfolding named_def i(2) by blast
  define c where "c = \<lparr>co_name = ?n, co_loop = l, co_fd = fd, co_state = ?k\<rparr>"
  define s1 where "s1 = s\<lparr>open_fds := open_fds (open_fd fd s), nextConnId := nextConnId s + 1, ioThreadPool := p,
     conns := (conns s)(nconns s \<mapsto> c), nconns := nconns s + 1,
     connectionMap := map_insert ?n (nconns s) (connectionMap s)\<rparr>"
  have "handleConnection K (baseLoop s) (Accepted fd peer loc) a b s
    = run_in K (baseLoop s) l (Established (nconns s)) s1"
    using p(1) by (simp add: handleConnection_def abort_simps Let_def alloc_conn_def s1_def c_def open_fd_def)
  with accept_established [OF assms(1) unique_named assms(2) n new_fresh [OF assms(3)] p(2) c_def s1_def]
  show ?thesis by simp
qed

lemma handleConnection_error:
  "handleConnection K (baseLoop s) (AcceptError em) a b s = Some (if em then shed_connection a b s else s)"
  by (simp add: handleConnection_def abort_simps)

lemma srv_step_inv:
  assumes "srv_step K okfd s s'" "srv_inv named fresh up down s"
  shows "srv_inv named fresh up down s'"
  using assms(1)
proof cases
  case (accept fd peer loc)
  with accept_ok [OF assms(2) accept(2,3), of peer loc 0 0] show ?thesis by auto
next
  case (no_accept em a b)
  with assms(2) show ?thesis by (auto simp: handleConnection_error shed_inv)
next
  case (next_functor l f fs)
  with functor_ok [OF assms(2) next_functor(1)] show ?thesis by auto
next
  case (writable i c)
  with writable_ok [OF assms(2) writable(1,2)] show ?thesis by auto
next
  case (peer_close i c)
  with close_ok [OF assms(2) peer_close(1,2)] show ?thesis by auto
qed

lemma srv_running_inv:
  assumes "srv_running n s"
  shows "srv_inv nm fresh up down s"
proof -
  from assms obtain base idle lsock addr init_cb ls s0 where
    "server_new base idle lsock True addr n = Some s0" "server_start base init_cb ls True s0 = Some s"
    by (auto simp: srv_running_def)
  note s0 = this
  have f: "baseLoop s0 = base" "nconns s0 = 0" "nextConnId s0 = 0" "\<not> srv_deleted s0" "conns s0 = (\<lambda>_. None)"
    "queues s0 = (\<lambda>_. [])" "finished s0 = []" "connectionMap s0 = []" "ioThreadPool s0 = loop_pool_new base n"
    "\<not> srv_started s0"
    using s0(1) by (auto simp: server_new_def abort_simps open_fd_def split: if_splits)
  from s0(2) obtain p where p: "loop_pool_start True init_cb ls (loop_pool_new base n) = Some p"
    and s: "s = s0\<lparr>srv_started := True, ioThreadPool := p, accept_reading := True\<rparr>"
    by (simp add: server_start_def f abort_simps bind_Some_iff) blast
  from p have "pool_ok base p" by (rule loop_pool_start_ok)
  with f s show ?thesis by (simp add: srv_inv_def log_of_def pend_of_def names_of_def)
qed

end

sublocale connection_class \<subseteq> srv: transition_system "\<lambda>s. \<exists>n. srv_running n s" "srv_step K okfd" "srv_inv named fresh up down"
  by unfold_locales (use srv_running_inv srv_step_inv in blast)+

context connection_class
begin

text \<open>What the invariant says of one connection's life.\<close>

lemma inv_life:
  assumes "srv_inv nm fresh up down s" "i < nconns s"
  shows "\<exists>r. log_of i s @ r = [Established i, RemoveConnection i, Destroyed i]
    \<and> ((\<exists>m. map_of (connectionMap s) m = Some i) \<longleftrightarrow> RemoveConnection i \<in> set r)
    \<and> (conns s i = None \<longleftrightarrow> r = [])
    \<and> ((\<forall>l. queues s l = []) \<longrightarrow> r = [] \<or> r = [RemoveConnection i, Destroyed i])"
proof -
  from assms obtain st l where st: "at_stage s i st l" "\<And>l'. pend_of i s l' = stage_pend (baseLoop s) l i st l'"
    unfolding srv_inv_def conn_stage_def by blast
  have q: "(\<forall>l. queues s l = []) \<longrightarrow> stage_pend (baseLoop s) l i st l' = []" for l'
    using st(2) [of l', symmetric] by (simp add: pend_of_def)
  have m: "(\<exists>m. map_of (connectionMap s) m = Some i) \<longleftrightarrow> names_of i s \<noteq> {}" by (auto simp: names_of_def)
  show ?thesis
    using st(1) q [of l] q [of "baseLoop s"] unfolding m by (cases st) (auto simp: conn_at_def)
qed

lemma server_life:
  assumes "srv_running n s0" "(srv_step K okfd)\<^sup>*\<^sup>* s0 s" "i < nconns s"
  shows "\<exists>r. log_of i s @ r = [Established i, RemoveConnection i, Destroyed i]
    \<and> ((\<exists>m. map_of (connectionMap s) m = Some i) \<longleftrightarrow> RemoveConnection i \<in> set r)
    \<and> (conns s i = None \<longleftrightarrow> r = [])
    \<and> ((\<forall>l. queues s l = []) \<longrightarrow> r = [] \<or> r = [RemoveConnection i, Destroyed i])"
  using srv.inv_reachable assms(1,2) by (intro inv_life [OF _ assms(3)]) blast

lemma server_total:
  assumes "srv_running n s0" "(srv_step K okfd)\<^sup>*\<^sup>* s0 s"
  shows "nconns s < 2 ^ 32 \<Longrightarrow> okfd fd \<Longrightarrow>
      handleConnection K (baseLoop s) (Accepted fd peer loc) a b s \<noteq> None"
    and "handleConnection K (baseLoop s) (AcceptError em) a b s \<noteq> None"
    and "queues s l = f # fs \<Longrightarrow> srv_run K l f (s\<lparr>queues := (queues s)(l := fs)\<rparr>) \<noteq> None"
    and "conns s i = Some c \<Longrightarrow> k_open K (co_state c) \<Longrightarrow> conn_close K (co_loop c) i s \<noteq> None"
proof -
  have i: "srv_inv named fresh up down s" using srv.inv_reachable assms by blast
  show "nconns s < 2 ^ 32 \<Longrightarrow> okfd fd \<Longrightarrow>
      handleConnection K (baseLoop s) (Accepted fd peer loc) a b s \<noteq> None"
    using accept_ok [OF i] by fastforce
  show "queues s l = f # fs \<Longrightarrow> srv_run K l f (s\<lparr>queues := (queues s)(l := fs)\<rparr>) \<noteq> None"
    using functor_ok [OF i] by fastforce
  show "conns s i = Some c \<Longrightarrow> k_open K (co_state c) \<Longrightarrow> conn_close K (co_loop c) i s \<noteq> None"
    using close_ok [OF i] by fastforce
qed (simp add: handleConnection_error)

end

section \<open>The connections are \<open>TcpConnection\<close>s\<close>

text \<open>
  A connection made in loop \<open>l\<close> with a free channel number \<open>c\<close> on a descriptor \<open>l\<close> does not
  watch, with the kernel socket \<open>k\<close> and the user's callbacks \<open>h\<close>.
\<close>

definition tcp_class :: "hooks \<Rightarrow> (conn_cb, conn_fun) loop \<Rightarrow> nat \<Rightarrow> ksock \<Rightarrow> tcp conn_class" where
  "tcp_class h l c k = \<lparr>k_new = (\<lambda>fd n la pa. tcp_new l fd n c la pa k), k_setNoDelay = setNoDelay,
     k_established = connectionEstablished h, k_write = handleWrite, k_closed = handleClose h,
     k_destroyed = connectionDestroyed h, k_open = open_state\<rparr>"

definition tcp_okfd :: "hooks \<Rightarrow> (conn_cb, conn_fun) loop \<Rightarrow> nat \<Rightarrow> ksock \<Rightarrow> int \<Rightarrow> bool" where
  "tcp_okfd h l c k fd \<longleftrightarrow> hooks_ok h \<and> poller_inv l \<and> in_loop_thread l \<and> chans l c = None
     \<and> channels l fd = None \<and> \<not> wr_shut k"

definition tcp_fresh :: "hooks \<Rightarrow> tcp \<Rightarrow> bool" where
  "tcp_fresh h w \<longleftrightarrow> conn_inv w \<and> state w = Connecting \<and> hooks_ok h"

definition tcp_up :: "hooks \<Rightarrow> tcp \<Rightarrow> bool" where
  "tcp_up h w \<longleftrightarrow> conn_inv w \<and> open_state w \<and> hooks_ok h"

definition tcp_down :: "tcp \<Rightarrow> bool" where
  "tcp_down w \<longleftrightarrow> conn_inv w \<and> state w = Disconnected \<and> ch_registered (chan w) w"

lemma poller_inv_new_channel:
  assumes "poller_inv l" "chans l c = None" "ch_state ch = kNew" "channels w = channels l" "interest w = interest l"
    "chans w = (chans l)(c \<mapsto> ch)"
  shows "poller_inv w"
proof -
  have n: "channels l fd \<noteq> Some c" for fd using poller_inv_registered [OF assms(1), of fd c] assms(2) by auto
  then have "kernel_entry w fd = kernel_entry l fd" for fd
    by (auto simp: kernel_entry_def assms(4,6) split: option.splits)
  with assms n show ?thesis unfolding poller_inv_def by auto
qed

lemma tcp_new_fresh:
  assumes "tcp_okfd h l c k fd"
  shows "tcp_fresh h (setNoDelay (tcp_new l fd n c la pa k))"
proof -
  let ?w = "setNoDelay (tcp_new l fd n c la pa k)"
  let ?ch = "setErrorCallback OnError (setCloseCallback OnClose (setWriteCallback OnWrite
    (setReadCallback OnRead (channel_new fd))))"
  have ch: "ch_fd ?ch = fd" "ch_state ?ch = kNew" "ch_events ?ch = kNoneEvent"
    by (simp_all add: setErrorCallback_def setCloseCallback_def setWriteCallback_def setReadCallback_def
      channel_new_def kNew_def kNoneEvent_def)
  have w: "channels ?w = channels l" "interest ?w = interest l" "chans ?w = (chans l)(c \<mapsto> ?ch)"
    "in_loop_thread ?w = in_loop_thread l" "state ?w = Connecting" "sockfd ?w = fd" "chan ?w = c"
    "inputBuffer ?w = buffer_new" "outputBuffer ?w = buffer_new" "wr_shut (sock ?w) = wr_shut k"
    by (simp_all add: setNoDelay_def tcp_new_def loop.extend_def)
  have "poller_inv ?w"
    by (rule poller_inv_new_channel [OF _ _ ch(2) w(1-3)]) (use assms in \<open>simp_all add: tcp_okfd_def\<close>)
  moreover have "chan_ok ?w ?ch"
    using assms by (simp add: chan_ok_def w ch tcp_okfd_def)
  ultimately show ?thesis
    using assms by (simp add: tcp_fresh_def conn_inv_def w tcp_okfd_def)
qed

interpretation tc: connection_class "tcp_class h l c k" "tcp_okfd h l c k" "tcp_fresh h" "tcp_up h" tcp_down
  for h l c k
proof unfold_locales
  fix w :: tcp
  show "tcp_fresh h w \<Longrightarrow> \<exists>w'. k_established (tcp_class h l c k) w = Some w' \<and> tcp_up h w'"
    using established_ok [of w h] by (auto simp: tcp_class_def tcp_fresh_def tcp_up_def open_state_def)
  show "tcp_up h w \<Longrightarrow> \<exists>w'. k_write (tcp_class h l c k) w = Some w' \<and> tcp_up h w'"
    using handleWrite_ok [of w] by (fastforce simp: tcp_class_def tcp_up_def open_state_def)
  show "tcp_up h w \<Longrightarrow> \<exists>w'. k_closed (tcp_class h l c k) w = Some w' \<and> tcp_down w'"
    using handleClose_ok [of w h] by (fastforce simp: tcp_class_def tcp_up_def tcp_down_def)
  show "tcp_down w \<Longrightarrow> k_destroyed (tcp_class h l c k) w \<noteq> None"
    using destroyed_ok [of w h] by (fastforce simp: tcp_class_def tcp_down_def)
qed (use tcp_new_fresh in \<open>simp_all add: tcp_class_def tcp_fresh_def tcp_down_def open_state_def\<close>)

section \<open>Properties\<close>

text \<open>
  C4. The life of a connection on the server, over \<open>TcpConnection\<close> with well-behaved callbacks and in
  every interleaving of the base loop with the loops of the pool: it is established, removed from the
  map and destroyed, each at most once and in this order, each in the right loop; its name is in the
  map exactly until it is removed; its object lives exactly until it has been destroyed. When no
  functor is pending it is either up and in the map, or all of it is gone.
\<close>
theorem server_connection_life:
  assumes "srv_running n s0" "(srv_step (tcp_class h l c k) (tcp_okfd h l c k))\<^sup>*\<^sup>* s0 s" "i < nconns s"
  shows "\<exists>r. log_of i s @ r = [Established i, RemoveConnection i, Destroyed i]
    \<and> ((\<exists>m. map_of (connectionMap s) m = Some i) \<longleftrightarrow> RemoveConnection i \<in> set r)
    \<and> (conns s i = None \<longleftrightarrow> r = [])
    \<and> ((\<forall>l. queues s l = []) \<longrightarrow> r = [] \<or> r = [RemoveConnection i, Destroyed i])"
  by (rule tc.server_life [OF assms])


text \<open>
  C39. Connection names are at most 31 characters, the rest is cut off, and still name one connection:
  names of different connections differ up to the wrap-around of the 32-bit counter, whatever their
  ports, descriptors and peers; the cut never reaches the counter.
\<close>
theorem connection_names_distinct:
  assumes "i mod 2 ^ 32 \<noteq> j mod 2 ^ 32"
  shows "conn_name_of (of_nat i) port fd peer \<noteq> conn_name_of (of_nat j) port' fd' peer'
    \<and> length (conn_name_of (of_nat i) port fd peer) \<le> 31"
proof
  have m: "(of_nat (x mod 2 ^ 32) :: 32 word) = of_nat x" for x
    by (simp add: word_of_nat_eq_iff take_bit_eq_mod)
  have "named (x mod 2 ^ 32) (conn_name_of (of_nat x) p f a)" for x p f a
    unfolding named_def m by blast
  then show "conn_name_of (of_nat i) port fd peer \<noteq> conn_name_of (of_nat j) port' fd' peer'"
    using assms named_unique [of "i mod 2 ^ 32" _ "j mod 2 ^ 32"] by (metis mod_less_divisor zero_less_numeral zero_less_power)
qed (simp add: conn_name_of_def)

text \<open>
  Out of descriptors, a waiting connection is shed: the idle descriptor makes room for it, it is
  accepted and closed, and the idle descriptor is opened again, so the server is as ready as before
  and no connection or loop notices.
\<close>
theorem accept_sheds_when_full:
  assumes "srv_inv named fr u d s" "idleFd s \<in> open_fds s" "0 \<le> second" "0 \<le> reopened"
    "second \<notin> open_fds s - {idleFd s}" "reopened \<notin> open_fds s - {idleFd s}"
  shows "\<exists>s'. handleConnection K (baseLoop s) (AcceptError True) second reopened s = Some s' \<and> srv_inv named fr u d s'
    \<and> idleFd s' = reopened \<and> idleFd s' \<in> open_fds s' \<and> open_fds s' - {idleFd s'} = open_fds s - {idleFd s}
    \<and> conns s' = conns s \<and> connectionMap s' = connectionMap s \<and> queues s' = queues s"
proof -
  let ?s = "shed_connection second reopened s"
  have "handleConnection K (baseLoop s) (AcceptError True) second reopened s = Some ?s"
    by (simp add: handleConnection_def abort_simps)
  moreover have "srv_inv named fr u d ?s"
    using assms(1) by (simp add: shed_inv)
  moreover have "idleFd ?s = reopened" "conns ?s = conns s" "connectionMap ?s = connectionMap s" "queues ?s = queues s"
    "open_fds ?s = insert reopened (open_fds s - {idleFd s} - {second})"
    using assms(3,4) by (auto simp: shed_connection_def Let_def close_fd_def open_fd_def)
  ultimately show ?thesis using assms(5,6) by (intro exI [of _ ?s]) auto
qed

lemma destroy_all_posts:
  assumes "\<forall>(n, i) \<in> set m. \<exists>c. conns s i = Some c \<and> co_loop c \<noteq> cur"
  shows "\<exists>s'. destroy_all K cur m s = Some s' \<and> conns s' = conns s"
  using assms
proof (induction m arbitrary: s)
  case (Cons e m)
  obtain n i where e: "e = (n, i)" by force
  with Cons.prems obtain c where c: "conns s i = Some c" "co_loop c \<noteq> cur" by auto
  from Cons.IH [of "post (co_loop c) (Destroyed i) s"] Cons.prems c e show ?case by (auto simp: run_in_def)
qed simp

text \<open>
  Deleting the server leaves its connections in the hands of their loops, where
  \<open>connectionDestroyed\<close> is queued. A peer that closes before that functor runs makes \<open>handleClose\<close>
  call \<open>removeConnection\<close> on the freed server.
\<close>
theorem close_after_server_delete_crashes:
  assumes "\<forall>(n, i) \<in> set (connectionMap s). \<exists>c. conns s i = Some c \<and> co_loop c \<noteq> cur"
    "conns s i = Some c"
  shows "\<exists>s'. server_delete K cur s = Some s' \<and> conns s' i = Some c \<and> conn_close K (co_loop c) i s' = None"
proof -
  from destroy_all_posts [OF assms(1)] obtain s1 where "destroy_all K cur (connectionMap s) s = Some s1"
    "conns s1 = conns s" by blast
  with assms(2) show ?thesis
    by (auto simp: server_delete_def conn_close_def removeConnection_def abort_simps on_conn_def
      split: option.splits)
qed

text \<open>
  \<open>setNONBLOCKandCLOEXEC\<close> sets the wrong bit: the close-on-exec flag stays as it was.
\<close>

lemma cloexec_unchanged: "snd (setNONBLOCKandCLOEXEC (fl, fd)) = fd AND FD_CLOEXEC"
proof -
  have "O_CLOEXEC AND FD_CLOEXEC = 0" by (simp add: O_CLOEXEC_def FD_CLOEXEC_def)
  then show ?thesis by (simp add: setNONBLOCKandCLOEXEC_def Let_def bit.conj_disj_distrib2)
qed

definition sample_loop :: "(conn_cb, conn_fun) loop" where
  "sample_loop = \<lparr>chans = (\<lambda>_. None), channels = (\<lambda>_. None), evlist_size = 16, interest = (\<lambda>_. None),
     in_loop_thread = True, looping = True, quit_flag = False, loop_eventHandling = False,
     callingPendingFunctors = False, wakeup_channel = 0, eventfd_count = 0, activeChannels = [],
     currentHandingChannel = None, pendingFunctors = []\<rparr>"

definition sample_ksock :: ksock where
  "sample_ksock = \<lparr>sent = [], wr_shut = False, closed = False, keepalive = False, nodelay = False,
     wscript = [], rscript = []\<rparr>"

definition sample_server :: "tcp server" where
  "sample_server = (open_fd 3 (open_fd 4 \<lparr>srv_started = False, baseLoop = 0, idleFd = 3, listenSock = 4,
     accept_reading = False, hostIpPort = toIpPort (inet_any 80), ioThreadPool = loop_pool_new 0 1, nextConnId = 0,
     connectionMap = [], srv_deleted = False, open_fds = {}, conns = (\<lambda>_. None), nconns = 0, queues = (\<lambda>_. []),
     finished = []\<rparr>))\<lparr>srv_started := True, accept_reading := True,
       ioThreadPool := (loop_pool_new 0 1)\<lparr>loops := [7], lp_started := True\<rparr>\<rparr>"

abbreviation sample_class :: "tcp conn_class" where
  "sample_class \<equiv> tcp_class quiet_hooks sample_loop 1 sample_ksock"

abbreviation sample_okfd :: "int \<Rightarrow> bool" where
  "sample_okfd \<equiv> tcp_okfd quiet_hooks sample_loop 1 sample_ksock"

lemma sample_running: "srv_running 1 sample_server" "accept_reading sample_server" "nconns sample_server = 0"
  unfolding srv_running_def
  by (intro exI [of _ 0] exI [of _ 3] exI [of _ 4] exI [of _ "inet_any 80"] exI [of _ False] exI [of _ "[7]"])
    (simp_all add: server_new_def server_start_def sample_server_def abort_simps open_fd_def loop_pool_start_def
      loop_pool_new_def Let_def)

lemma sample_okfd5: "sample_okfd 5"
  by (simp add: tcp_okfd_def quiet_ok sample_loop_def sample_ksock_def poller_inv_def kernel_entry_def)

lemma sample_accept: "\<exists>s. srv_step sample_class sample_okfd sample_server s \<and> nconns s = 1"
proof -
  have i: "srv_inv named (tcp_fresh quiet_hooks) (tcp_up quiet_hooks) tcp_down sample_server"
    by (rule tc.srv_running_inv [OF sample_running(1)])
  from tc.accept_ok [OF i _ sample_okfd5, of "inet_any 90" "inet_any 80" 0 0]
  obtain s where "handleConnection sample_class (baseLoop sample_server) (Accepted 5 (inet_any 90) (inet_any 80)) 0 0
    sample_server = Some s" "nconns s = 1"
    by (auto simp: sample_running(3))
  with sample_okfd5 sample_running(2,3) show ?thesis by (intro exI [of _ s]) (auto intro: srv_step.accept)
qed

theorem server_connection_life_witness:
  "\<exists>s r. (srv_step sample_class sample_okfd)\<^sup>*\<^sup>* sample_server s \<and> nconns s = 1
    \<and> log_of 0 s @ r = [Established 0, RemoveConnection 0, Destroyed 0]"
proof -
  from sample_accept obtain s where s: "srv_step sample_class sample_okfd sample_server s" "nconns s = 1" by blast
  then have "(srv_step sample_class sample_okfd)\<^sup>*\<^sup>* sample_server s" by blast
  with server_connection_life [OF sample_running(1) this, of 0] s(2) show ?thesis by auto
qed


theorem connection_names_distinct_witness:
  "conn_name_of (of_nat 1) ''80'' 12 ''255.255.255.255:65535'' \<noteq> conn_name_of (of_nat 2) ''80'' 12 ''255.255.255.255:65535''"
  using connection_names_distinct [of 1 2] by simp

theorem accept_sheds_when_full_witness:
  "\<exists>s'. handleConnection sample_class (baseLoop sample_server) (AcceptError True) 3 3 sample_server = Some s'
    \<and> idleFd s' = 3 \<and> 3 \<in> open_fds s'"
proof -
  have i: "srv_inv named (tcp_fresh quiet_hooks) (tcp_up quiet_hooks) tcp_down sample_server"
    by (rule tc.srv_running_inv [OF sample_running(1)])
  have "idleFd sample_server = 3" "open_fds sample_server = {3, 4}"
    by (auto simp: sample_server_def open_fd_def)
  with accept_sheds_when_full [OF i, of 3 3 sample_class] show ?thesis by auto
qed

end
