(* ===== verification/TcpClient.thy ===== *)
theory TcpClient
  imports TcpConnection
begin

text \<open>
  \<open>matelib/TcpClient.h\<close> and \<open>.cc\<close>: connecting with retries, and the client's three callbacks on its
  one connection.

  The client owns a \<open>TcpConnection\<close>, whose state contains its loop. The connection's operations call
  the client back as their last action (\<open>connectionEstablished\<close>, \<open>handleRead\<close>, \<open>handleClose\<close>), so a
  call is modelled as the connection's operation followed by the callbacks it recorded, in order. The
  user's callbacks are parameters; \<open>None\<close> is an empty \<open>std::function\<close>. \<open>retry_timers\<close> are the
  delays given to \<open>runAfter\<close>, whose timers call \<open>connect\<close> again; \<open>closed_fds\<close> the arguments of
  \<open>close\<close>.
\<close>

section \<open>State\<close>

(* src/matelib/TcpClient.h:58-58 TcpClient::State *)
datatype cli_state = CDisconnected | CConnected | CConnectError

(* src/matelib/TcpClient.h:68-74 TcpClient *)
record client =
  cstate :: cli_state
  connectTimes :: int
  csockfd :: int
  serverAddr :: sockaddr_in
  retryDelayMs :: int
  conn :: tcp
  retry_timers :: "rat list"
  closed_fds :: "int list"

(* src/matelib/TcpClient.h:76-78 TcpClient callbacks *)
record cli_hooks =
  connectionCallback :: "(client \<Rightarrow> client option) option"
  messageCallback :: "(client \<Rightarrow> client option) option"
  cleanupCallback :: "(client \<Rightarrow> client option) option"

(* src/matelib/TcpClient.h:80-80 TcpClient::maxRetryDelayMs_ *)
definition maxRetryDelayMs :: int where "maxRetryDelayMs = 30 * 1000"

(* src/matelib/TcpClient.h:81-81 TcpClient::maxRetryTimes *)
definition maxRetryTimes :: int where "maxRetryTimes = 10"

text \<open>What \<open>connect\<close> leaves in \<open>errno\<close>, 0 for success.\<close>

datatype connect_errno = CE_OK | CE_ISCONN | CE_INPROGRESS | CE_INTR | CE_AGAIN | CE_ADDRINUSE
  | CE_ADDRNOTAVAIL | CE_CONNREFUSED | CE_NETUNREACH | CE_ACCES | CE_PERM | CE_AFNOSUPPORT | CE_ALREADY
  | CE_BADF | CE_FAULT | CE_NOTSOCK | CE_OTHER

datatype connect_case = CSuccess | CRetry | CFatal

(* src/matelib/TcpClient.cc:47-78 TcpClient::connect *)
fun connect_switch :: "connect_errno \<Rightarrow> connect_case" where
  "connect_switch CE_OK = CSuccess"
| "connect_switch CE_ISCONN = CSuccess"
| "connect_switch CE_INPROGRESS = CRetry"
| "connect_switch CE_INTR = CRetry"
| "connect_switch CE_AGAIN = CRetry"
| "connect_switch CE_ADDRINUSE = CRetry"
| "connect_switch CE_ADDRNOTAVAIL = CRetry"
| "connect_switch CE_CONNREFUSED = CRetry"
| "connect_switch CE_NETUNREACH = CRetry"
| "connect_switch e = CFatal"

section \<open>Construction and callbacks\<close>

text \<open>The connection is built before the descriptor is checked; its name is still empty.\<close>

(* src/matelib/TcpClient.cc:19-37 TcpClient::TcpClient *)
definition client_new ::
  "(conn_cb, conn_fun) loop \<Rightarrow> nat \<Rightarrow> ksock \<Rightarrow> int \<Rightarrow> sockaddr_in \<Rightarrow> int \<Rightarrow> client option" where
  "client_new l c k fd addr delay = do {
     let s = \<lparr>cstate = CDisconnected, connectTimes = 0, csockfd = fd, serverAddr = addr, retryDelayMs = delay,
       conn = tcp_new l fd [] c addr addr k, retry_timers = [], closed_fds = []\<rparr>;
     assertc (\<not> fd < 0);
     Some s
   }"

(* src/matelib/TcpClient.h:59-59 TcpClient::setState *)
definition setClientState :: "cli_state \<Rightarrow> client \<Rightarrow> client" where
  "setClientState st s = s\<lparr>cstate := st\<rparr>"

(* src/matelib/TcpClient.h:54-54 TcpClient::connected *)
definition cli_connected :: "client \<Rightarrow> bool" where
  "cli_connected s = (cstate s = CConnected)"

(* src/matelib/TcpClient.h:55-55 TcpClient::connectError *)
definition connectError :: "client \<Rightarrow> bool" where
  "connectError s = (cstate s = CConnectError)"

definition call_hook :: "(client \<Rightarrow> client option) option \<Rightarrow> client \<Rightarrow> client option" where
  "call_hook f s = (case f of None \<Rightarrow> Some s | Some g \<Rightarrow> g s)"

text \<open>Without a callback \<open>onConnection\<close> only logs.\<close>

(* src/matelib/TcpClient.cc:122-138 TcpClient::onConnection *)
definition onConnection :: "cli_hooks \<Rightarrow> bool \<Rightarrow> client \<Rightarrow> client option" where
  "onConnection H is_connected s =
     call_hook (connectionCallback H) (setClientState (if is_connected then CConnected else CDisconnected) s)"

(* src/matelib/TcpClient.cc:140-149 TcpClient::onMessage *)
definition onMessage :: "cli_hooks \<Rightarrow> client \<Rightarrow> client option" where
  "onMessage H s =
     (case messageCallback H of
        Some f \<Rightarrow> f s
      | None \<Rightarrow> Some (s\<lparr>conn := (conn s)\<lparr>inputBuffer := retrieveAll (inputBuffer (conn s))\<rparr>\<rparr>))"

(* src/matelib/TcpClient.cc:151-158 TcpClient::onCleanup *)
definition onCleanup :: "cli_hooks \<Rightarrow> client \<Rightarrow> client option" where
  "onCleanup H s = do {
     s1 \<leftarrow> call_hook (cleanupCallback H) s;
     Some (s1\<lparr>conn := queueInLoop ConnectionDestroyed (conn s1)\<rparr>)
   }"

fun cli_call :: "cli_hooks \<Rightarrow> user_call \<Rightarrow> client \<Rightarrow> client option" where
  "cli_call H (ConnectionCallback b) s = onConnection H b s"
| "cli_call H MessageCallback s = onMessage H s"
| "cli_call H CleanupCallback s = onCleanup H s"

definition bare :: hooks where
  "bare = \<lparr>on_connection = Some, on_message = Some, on_cleanup = Some\<rparr>"

text \<open>An operation of the connection, then the callbacks it made.\<close>

definition conn_op :: "cli_hooks \<Rightarrow> (tcp \<Rightarrow> tcp option) \<Rightarrow> client \<Rightarrow> client option" where
  "conn_op H f s = do {
     w \<leftarrow> f (conn s);
     run_all (cli_call H) (drop (length (user_calls (conn s))) (user_calls w)) (s\<lparr>conn := w\<rparr>)
   }"

section \<open>Connecting\<close>

(* src/matelib/TcpClient.cc:108-109 TcpClient::initConnection *)
definition cli_conn_name :: "sockaddr_in \<Rightarrow> int \<Rightarrow> sockaddr_in \<Rightarrow> string" where
  "cli_conn_name local fd server =
     ''c:'' @ toPort local @ ''.'' @ show_int fd @ ''-'' @ toIpPort server"

text \<open>\<open>local\<close> is the answer of \<open>getsockname\<close>. The result of \<open>runInLoop\<close> outside the loop is a functor.\<close>

(* src/matelib/TcpClient.cc:89-120 TcpClient::initConnection *)
definition initConnection :: "cli_hooks \<Rightarrow> sockaddr_in \<Rightarrow> client \<Rightarrow> (client \<times> int) option" where
  "initConnection H local s = do {
     let s1 = s\<lparr>connectTimes := 0\<rparr>;
     let localAddr' = inet_of_sockaddr local;
     let w = setNoDelay ((conn s1)\<lparr>conn_name := cli_conn_name localAddr' (csockfd s1) (serverAddr s1),
       localAddr := localAddr'\<rparr>);
     let s2 = s1\<lparr>conn := w\<rparr>;
     s3 \<leftarrow> (if in_loop_thread w then conn_op H (connectionEstablished bare) s2
            else Some (s2\<lparr>conn := queueInLoop ConnectionEstablished w\<rparr>));
     Some (s3, csockfd s3)
   }"

(* src/matelib/TcpClient.cc:81-86 TcpClient::connect *)
definition connect_failed :: "cli_hooks \<Rightarrow> client \<Rightarrow> (client \<times> int) option" where
  "connect_failed H s = do {
     s1 \<leftarrow> call_hook (connectionCallback H)
       (setClientState CConnectError (s\<lparr>closed_fds := closed_fds s @ [csockfd s]\<rparr>));
     Some (s1, -1)
   }"

(* src/matelib/TcpClient.cc:60-65 TcpClient::connect *)
definition retry_later :: "client \<Rightarrow> client" where
  "retry_later s =
     (let s1 = s\<lparr>retry_timers := retry_timers s @ [of_int (retryDelayMs s) / 1000]\<rparr>
      in if retryDelayMs s1 > 0 \<and> retryDelayMs s1 < maxRetryDelayMs
         then s1\<lparr>retryDelayMs := retryDelayMs s1 * 2\<rparr> else s1)"

(* src/matelib/TcpClient.cc:39-87 TcpClient::connect *)
definition client_connect :: "cli_hooks \<Rightarrow> connect_errno \<Rightarrow> sockaddr_in \<Rightarrow> client \<Rightarrow> (client \<times> int) option" where
  "client_connect H e local s = do {
     assertInLoopThread (conn s);
     let times = connectTimes s;
     let s1 = s\<lparr>connectTimes := times + 1\<rparr>;
     if times < maxRetryTimes then
       (case connect_switch e of
          CSuccess \<Rightarrow> initConnection H local s1
        | CRetry \<Rightarrow> Some (retry_later s1, 0)
        | CFatal \<Rightarrow> connect_failed H s1)
     else connect_failed H s1
   }"

section \<open>Sending, shutdown, events and the end\<close>

(* src/matelib/TcpClient.h:46-46 TcpClient::send(const void* data, size_t) *)
definition client_send :: "cli_hooks \<Rightarrow> string \<Rightarrow> client \<Rightarrow> client option" where
  "client_send H m s = conn_op H (send_data m) s"

(* src/matelib/TcpClient.h:47-47 TcpClient::send(const StringPiece&) *)
definition client_send_piece :: "cli_hooks \<Rightarrow> string_piece \<Rightarrow> client \<Rightarrow> client option" where
  "client_send_piece H m s = conn_op H (send_piece m) s"

(* src/matelib/TcpClient.h:48-48 TcpClient::send(Buffer* buffer) *)
definition client_send_buffer :: "buffer \<Rightarrow> client \<Rightarrow> (client \<times> buffer) option" where
  "client_send_buffer b s = do { (w, b1) \<leftarrow> send_buffer b (conn s); Some (s\<lparr>conn := w\<rparr>, b1) }"

(* src/matelib/TcpClient.h:49-49 TcpClient::shutdown *)
definition client_shutdown :: "cli_hooks \<Rightarrow> client \<Rightarrow> client option" where
  "client_shutdown H s = conn_op H conn_shutdown (setClientState CDisconnected s)"

text \<open>What the loop runs for the connection: a channel callback, or the next pending functor.\<close>

definition client_event :: "cli_hooks \<Rightarrow> conn_cb \<Rightarrow> client \<Rightarrow> client option" where
  "client_event H k s = conn_op H (run_cb bare k) s"

definition client_functor :: "cli_hooks \<Rightarrow> client \<Rightarrow> client option" where
  "client_functor H s =
     (case pendingFunctors (conn s) of
        [] \<Rightarrow> Some s
      | f # fs \<Rightarrow> conn_op H (run_fun bare f) (s\<lparr>conn := (conn s)\<lparr>pendingFunctors := fs\<rparr>\<rparr>))"

text \<open>The last reference to the connection goes with the client: its destructor closes the socket.\<close>

definition client_delete :: "client \<Rightarrow> client option" where
  "client_delete s = do {
     w \<leftarrow> tcp_delete (conn s);
     Some (s\<lparr>conn := w, closed_fds := closed_fds s @ [sockfd w]\<rparr>)
   }"

section \<open>The connection's operations\<close>

lemma conn_inv_queue [simp]:
  "conn_inv (w\<lparr>pendingFunctors := p\<rparr>) = conn_inv w" "conn_inv (w\<lparr>eventfd_count := n\<rparr>) = conn_inv w"
  "conn_inv (w\<lparr>conn_name := nm\<rparr>) = conn_inv w" "conn_inv (w\<lparr>localAddr := la\<rparr>) = conn_inv w"
proof -
  have c: "conn_inv v = conn_inv w" if "poller_inv v = poller_inv w" "\<And>ch. chan_ok v ch = chan_ok w ch"
    "in_loop_thread v = in_loop_thread w" "inputBuffer v = inputBuffer w" "outputBuffer v = outputBuffer w"
    "chans v = chans w" "chan v = chan w" "sock v = sock w" "state v = state w" for v
    by (simp add: conn_inv_def that)
  show "conn_inv (w\<lparr>pendingFunctors := p\<rparr>) = conn_inv w" "conn_inv (w\<lparr>eventfd_count := n\<rparr>) = conn_inv w"
    "conn_inv (w\<lparr>conn_name := nm\<rparr>) = conn_inv w" "conn_inv (w\<lparr>localAddr := la\<rparr>) = conn_inv w"
    by (rule c; (rule poller_inv_cong)?; (rule chan_ok_cong)?; simp)+
qed

lemma conn_inv_queueInLoop [simp]: "conn_inv (queueInLoop f w) = conn_inv w"
  by (simp add: queueInLoop_def queue_push_def queue_wake_def wakeup_def)

lemma queueInLoop_tcp [simp]:
  fixes w :: tcp
  shows "pendingFunctors (queueInLoop f w) = pendingFunctors w @ [f]" "state (queueInLoop f w) = state w"
    "chan (queueInLoop f w) = chan w" "user_calls (queueInLoop f w) = user_calls w"
    "ch_registered c (queueInLoop f w) = ch_registered c w"
  by (simp_all add: queueInLoop_def queue_push_def queue_wake_def wakeup_def ch_registered_def)

lemma bare_ok: "hooks_ok bare"
  by (simp add: hooks_ok_def bare_def well_behaved_def)

lemma established_bare:
  assumes "conn_inv w" "state w = Connecting"
  shows "\<exists>w'. connectionEstablished bare w = Some w' \<and> conn_inv w' \<and> state w' = Connected \<and> chan w' = chan w
    \<and> user_calls w' = user_calls w @ [ConnectionCallback True] \<and> pendingFunctors w' = pendingFunctors w"
proof -
  from established_ok [OF assms bare_ok] obtain w' where w': "connectionEstablished bare w = Some w'" "conn_inv w'"
    "state w' = Connected" "chan w' = chan w" "user_calls w' = user_calls w @ [ConnectionCallback True]" by blast
  from w'(1) have "pendingFunctors w' = pendingFunctors w"
    by (auto simp: connectionEstablished_def assertInLoopThread_def abort_simps bind_Some_iff call_user_def
      bare_def enableReading_def set_state_def split: if_splits dest!: set_events_more more_tcp(1))
  with w' show ?thesis by blast
qed

lemma close_bare:
  assumes "conn_inv w" "open_state w"
  shows "\<exists>w'. handleClose bare w = Some w' \<and> conn_inv w' \<and> state w' = Disconnected \<and> chan w' = chan w
    \<and> user_calls w' = user_calls w @ [ConnectionCallback False, CleanupCallback] \<and> ch_registered (chan w) w'
    \<and> pendingFunctors w' = pendingFunctors w"
proof -
  from handleClose_ok [OF assms bare_ok] obtain w' where w': "handleClose bare w = Some w'" "conn_inv w'"
    "state w' = Disconnected" "chan w' = chan w" "ch_registered (chan w) w'"
    "user_calls w' = user_calls w @ [ConnectionCallback False, CleanupCallback]" by blast
  from w'(1) have "pendingFunctors w' = pendingFunctors w"
    by (auto simp: handleClose_def assertInLoopThread_def abort_simps bind_Some_iff call_user_def
      bare_def disableAll_def set_state_def split: if_splits dest!: set_events_more more_tcp(1))
  with w' show ?thesis by blast
qed

section \<open>The user's callbacks\<close>

text \<open>
  A well-behaved callback returns and leaves the connection intact and in the same state, as
  one that sends does, and queues nothing by itself.
\<close>

definition cli_well :: "(client \<Rightarrow> client option) \<Rightarrow> bool" where
  "cli_well f \<longleftrightarrow> (\<forall>s. conn_inv (conn s) \<longrightarrow> (\<exists>s'. f s = Some s' \<and> conn_inv (conn s')
     \<and> state (conn s') = state (conn s) \<and> user_calls (conn s') = user_calls (conn s) \<and> chan (conn s') = chan (conn s)
     \<and> ch_registered (chan (conn s)) (conn s') = ch_registered (chan (conn s)) (conn s)
     \<and> pendingFunctors (conn s') = pendingFunctors (conn s) \<and> cstate s' = cstate s \<and> csockfd s' = csockfd s
     \<and> connectTimes s' = connectTimes s \<and> retry_timers s' = retry_timers s \<and> closed_fds s' = closed_fds s))"

definition cli_hooks_ok :: "cli_hooks \<Rightarrow> bool" where
  "cli_hooks_ok H \<longleftrightarrow> (\<forall>f. Some f \<in> {connectionCallback H, messageCallback H, cleanupCallback H} \<longrightarrow> cli_well f)"

lemma call_hook_ok:
  assumes "g = None \<or> (\<exists>f. g = Some f \<and> cli_well f)" "conn_inv (conn s)"
  shows "\<exists>s'. call_hook g s = Some s' \<and> conn_inv (conn s')
     \<and> state (conn s') = state (conn s) \<and> user_calls (conn s') = user_calls (conn s) \<and> chan (conn s') = chan (conn s)
     \<and> ch_registered (chan (conn s)) (conn s') = ch_registered (chan (conn s)) (conn s)
     \<and> pendingFunctors (conn s') = pendingFunctors (conn s) \<and> cstate s' = cstate s \<and> csockfd s' = csockfd s
     \<and> connectTimes s' = connectTimes s \<and> retry_timers s' = retry_timers s \<and> closed_fds s' = closed_fds s"
  using assms by (cases g) (simp_all add: call_hook_def cli_well_def)

lemma hook_cases:
  assumes "cli_hooks_ok H"
  shows "connectionCallback H = None \<or> (\<exists>f. connectionCallback H = Some f \<and> cli_well f)"
    and "cleanupCallback H = None \<or> (\<exists>f. cleanupCallback H = Some f \<and> cli_well f)"
  using assms unfolding cli_hooks_ok_def by (metis insertCI option.exhaust)+

section \<open>Retries\<close>

definition next_delay :: "int \<Rightarrow> int" where
  "next_delay d = (if 0 < d \<and> d < maxRetryDelayMs then d * 2 else d)"

definition backoff :: "int \<Rightarrow> nat \<Rightarrow> int" where
  "backoff d k = (next_delay ^^ k) d"

text \<open>The retry timers call \<open>connect\<close> again until it succeeds or fails for good.\<close>

fun client_attempts :: "cli_hooks \<Rightarrow> sockaddr_in \<Rightarrow> connect_errno list \<Rightarrow> client \<Rightarrow> (client \<times> int) option" where
  "client_attempts H local [] s = Some (s, 0)"
| "client_attempts H local (e # es) s = do {
     (s1, r) \<leftarrow> client_connect H e local s;
     if r = 0 then client_attempts H local es s1 else Some (s1, r)
   }"

lemma retry_later_eq:
  "retry_later s = s\<lparr>retry_timers := retry_timers s @ [of_int (retryDelayMs s) / 1000],
     retryDelayMs := next_delay (retryDelayMs s)\<rparr>"
  by (simp add: retry_later_def next_delay_def Let_def mult.commute)

lemma attempts_retry:
  assumes "in_loop_thread (conn s)" "\<forall>e\<in>set es. connect_switch e = CRetry" "connectTimes s + int (length es) \<le> 10"
  shows "client_attempts H local (es @ fs) s = client_attempts H local fs (s\<lparr>connectTimes := connectTimes s + int (length es),
     retryDelayMs := backoff (retryDelayMs s) (length es),
     retry_timers := retry_timers s @ map (\<lambda>k. of_int (backoff (retryDelayMs s) k) / 1000) [0..<length es]\<rparr>)"
  using assms
proof (induction es arbitrary: s)
  case Nil
  then show ?case by (simp add: backoff_def)
next
  case (Cons e es)
  let ?s = "retry_later (s\<lparr>connectTimes := connectTimes s + 1\<rparr>)"
  have c: "client_connect H e local s = Some (?s, 0)"
    using Cons.prems by (simp add: client_connect_def assertInLoopThread_def abort_simps maxRetryTimes_def Let_def)
  have b: "backoff (next_delay d) k = backoff d (Suc k)" for d k by (simp add: backoff_def funpow_swap1)
  have u: "map (\<lambda>k. (of_int (backoff (retryDelayMs s) k) / 1000 :: rat)) [0..<Suc (length es)]
    = of_int (retryDelayMs s) / 1000 # map (\<lambda>k. of_int (backoff (retryDelayMs s) (Suc k)) / 1000) [0..<length es]"
    by (simp add: map_upt_Suc del: upt_Suc) (simp add: backoff_def)
  have "client_attempts H local (es @ fs) ?s = client_attempts H local fs (?s\<lparr>connectTimes := connectTimes ?s + int (length es),
     retryDelayMs := backoff (retryDelayMs ?s) (length es),
     retry_timers := retry_timers ?s @ map (\<lambda>k. of_int (backoff (retryDelayMs ?s) k) / 1000) [0..<length es]\<rparr>)"
    by (rule Cons.IH) (use Cons.prems in \<open>simp_all add: retry_later_eq\<close>)
  then show ?case using c u by (simp add: retry_later_eq b add.assoc del: upt_Suc)
qed

lemma backoff_bound: "0 < d \<Longrightarrow> d < 2 * maxRetryDelayMs \<Longrightarrow> 0 < backoff d k \<and> backoff d k < 2 * maxRetryDelayMs"
  by (induction k) (auto simp: backoff_def next_delay_def)

lemma connect_failed_ok:
  assumes "cli_hooks_ok H" "conn_inv (conn s)"
  shows "\<exists>s'. connect_failed H s = Some (s', -1) \<and> cstate s' = CConnectError
    \<and> closed_fds s' = closed_fds s @ [csockfd s] \<and> retry_timers s' = retry_timers s"
proof -
  let ?s = "setClientState CConnectError (s\<lparr>closed_fds := closed_fds s @ [csockfd s]\<rparr>)"
  have "conn_inv (conn ?s)" using assms(2) by (simp add: setClientState_def)
  from call_hook_ok [OF hook_cases(1) [OF assms(1)] this] show ?thesis
    by (auto simp: connect_failed_def setClientState_def)
qed

section \<open>Connection, close and destruction through the client\<close>

lemma connect_ok:
  assumes "conn_inv (conn s)" "state (conn s) = Connecting" "pendingFunctors (conn s) = []" "cli_hooks_ok H"
    "connectTimes s < 10" "connect_switch e = CSuccess"
  shows "\<exists>s1. client_connect H e local s = Some (s1, csockfd s) \<and> cstate s1 = CConnected
    \<and> state (conn s1) = Connected \<and> connectTimes s1 = 0 \<and> conn_inv (conn s1) \<and> pendingFunctors (conn s1) = []
    \<and> closed_fds s1 = closed_fds s"
proof -
  define w where "w = setNoDelay ((conn s)\<lparr>conn_name := cli_conn_name (inet_of_sockaddr local) (csockfd s) (serverAddr s),
    localAddr := inet_of_sockaddr local\<rparr>)"
  define s2 where "s2 = s\<lparr>connectTimes := 0, conn := w\<rparr>"
  have il: "in_loop_thread (conn s)" using assms(1) by (simp add: conn_inv_def)
  have w: "conn_inv w" "state w = Connecting" "in_loop_thread w" "pendingFunctors w = []"
    using assms(1-3) il by (simp_all add: w_def setNoDelay_def conn_inv_sock)
  have run: "client_connect H e local s = (conn_op H (connectionEstablished bare) s2 \<bind> (\<lambda>s3. Some (s3, csockfd s3)))"
    using il assms(5,6) w(3) by (simp add: client_connect_def initConnection_def assertInLoopThread_def abort_simps
      maxRetryTimes_def Let_def s2_def w_def)
  from established_bare [OF w(1,2)] obtain w' where w': "connectionEstablished bare w = Some w'" "conn_inv w'"
    "state w' = Connected" "user_calls w' = user_calls w @ [ConnectionCallback True]" "pendingFunctors w' = []"
    using w(4) by auto
  let ?s3 = "setClientState CConnected (s2\<lparr>conn := w'\<rparr>)"
  have "conn_inv (conn ?s3)" using w'(2) by (simp add: setClientState_def)
  from call_hook_ok [OF hook_cases(1) [OF assms(4)] this] obtain s1 where
    s1: "call_hook (connectionCallback H) ?s3 = Some s1" "conn_inv (conn s1)" "state (conn s1) = Connected"
    "cstate s1 = CConnected" "csockfd s1 = csockfd s" "connectTimes s1 = 0" "pendingFunctors (conn s1) = []"
    "closed_fds s1 = closed_fds s"
    using w' by (auto simp: setClientState_def s2_def)
  have "conn_op H (connectionEstablished bare) s2 = Some s1"
    using w'(1,4) s1(1) by (simp add: conn_op_def s2_def onConnection_def)
  with run s1 show ?thesis by simp
qed

lemma close_event_ok:
  assumes "conn_inv (conn s)" "open_state (conn s)" "pendingFunctors (conn s) = []" "cli_hooks_ok H"
  shows "\<exists>s'. client_event H OnClose s = Some s' \<and> cstate s' = CDisconnected \<and> state (conn s') = Disconnected
    \<and> conn_inv (conn s') \<and> pendingFunctors (conn s') = [ConnectionDestroyed]
    \<and> ch_registered (chan (conn s')) (conn s') \<and> closed_fds s' = closed_fds s"
proof -
  from close_bare [OF assms(1,2)] obtain w where w: "handleClose bare (conn s) = Some w" "conn_inv w"
    "state w = Disconnected" "user_calls w = user_calls (conn s) @ [ConnectionCallback False, CleanupCallback]"
    "ch_registered (chan w) w" "pendingFunctors w = []" using assms(3) by auto
  let ?s1 = "setClientState CDisconnected (s\<lparr>conn := w\<rparr>)"
  have "conn_inv (conn ?s1)" using w(2) by (simp add: setClientState_def)
  from call_hook_ok [OF hook_cases(1) [OF assms(4)] this] obtain s2 where
    s2: "call_hook (connectionCallback H) ?s1 = Some s2" "conn_inv (conn s2)" "state (conn s2) = Disconnected"
    "cstate s2 = CDisconnected" "pendingFunctors (conn s2) = []" "ch_registered (chan (conn s2)) (conn s2)"
    "closed_fds s2 = closed_fds s" using w by (auto simp: setClientState_def)
  from call_hook_ok [OF hook_cases(2) [OF assms(4)] s2(2)] obtain s3 where
    s3: "call_hook (cleanupCallback H) s2 = Some s3" "conn_inv (conn s3)" "state (conn s3) = Disconnected"
    "cstate s3 = CDisconnected" "pendingFunctors (conn s3) = []" "ch_registered (chan (conn s3)) (conn s3)"
    "closed_fds s3 = closed_fds s" using s2 by auto
  have "client_event H OnClose s = Some (s3\<lparr>conn := queueInLoop ConnectionDestroyed (conn s3)\<rparr>)"
    using w(1,4) s2(1) s3(1) by (simp add: client_event_def conn_op_def onConnection_def onCleanup_def)
  with s3 show ?thesis by simp
qed

lemma destroy_functor_ok:
  assumes "conn_inv (conn s)" "state (conn s) = Disconnected" "ch_registered (chan (conn s)) (conn s)"
    "pendingFunctors (conn s) = [ConnectionDestroyed]"
  shows "\<exists>s'. client_functor H s = Some s' \<and> \<not> ch_registered (chan (conn s)) (conn s') \<and> closed_fds s' = closed_fds s"
proof -
  let ?w = "(conn s)\<lparr>pendingFunctors := []\<rparr>"
  have "conn_inv ?w" "state ?w = Disconnected" "ch_registered (chan ?w) ?w"
    using assms by (simp_all add: ch_registered_def)
  from destroyed_ok [OF this, of bare] obtain w' where "connectionDestroyed bare ?w = Some w'"
    "user_calls w' = user_calls (conn s)" "\<not> ch_registered (chan (conn s)) w'" by auto
  then show ?thesis using assms(4) by (simp add: client_functor_def conn_op_def)
qed

section \<open>Properties\<close>


text \<open>The default delays, in milliseconds: the last ones exceed the documented 30 seconds.\<close>

lemma default_delays:
  "map (backoff 500) [0..<10] = [500, 1000, 2000, 4000, 8000, 16000, 32000, 32000, 32000, 32000]"
  by (simp add: backoff_def next_delay_def maxRetryDelayMs_def upt_rec eval_nat_numeral)


text \<open>
  A client whose \<open>connect\<close> has failed closes its descriptor number a second time when it is deleted:
  \<open>connect\<close> closes \<open>sockfd_\<close>, which the connection's destructor closes again.
\<close>

lemma failed_client_closes_twice:
  assumes "in_loop_thread (conn s)" "connectionCallback H = None" "connect_switch e = CFatal"
    "chans (conn s) (chan (conn s)) = Some ch" "\<not> eventHandling ch" "sockfd (conn s) = csockfd s"
  shows "\<exists>s1 s2. client_connect H e local s = Some (s1, -1) \<and> client_delete s1 = Some s2
    \<and> closed_fds s2 = closed_fds s @ [csockfd s, csockfd s]"
  using assms
  by (simp add: client_connect_def connect_failed_def call_hook_def setClientState_def assertInLoopThread_def
    abort_simps Let_def client_delete_def tcp_delete_def channel_delete_def)

text \<open>
  A handshake that takes longer than the retry delay is given up: the second \<open>connect\<close> on the
  pending socket reports \<open>EALREADY\<close>, which counts as a fatal error.
\<close>

lemma slow_handshake_fails:
  assumes "conn_inv (conn s)" "cli_hooks_ok H" "connectTimes s = 0"
  shows "\<exists>s'. client_attempts H local [CE_INPROGRESS, CE_ALREADY] s = Some (s', -1) \<and> cstate s' = CConnectError"
proof -
  have il: "in_loop_thread (conn s)" using assms(1) by (simp add: conn_inv_def)
  let ?s1 = "retry_later (s\<lparr>connectTimes := 1\<rparr>)\<lparr>connectTimes := 2\<rparr>"
  have "conn_inv (conn ?s1)" using assms(1) by (simp add: retry_later_eq)
  from connect_failed_ok [OF assms(2) this] obtain s' where "connect_failed H ?s1 = Some (s', -1)"
    "cstate s' = CConnectError" by blast
  then show ?thesis
    using il assms(3) by (simp add: client_connect_def assertInLoopThread_def abort_simps maxRetryTimes_def Let_def
      retry_later_eq)
qed

definition sample_client :: client where
  "sample_client = \<lparr>cstate = CDisconnected, connectTimes = 0, csockfd = 5, serverAddr = inet_any 80, retryDelayMs = 500,
     conn = sample_tcp Connecting, retry_timers = [], closed_fds = []\<rparr>"

definition no_callbacks :: cli_hooks where
  "no_callbacks = \<lparr>connectionCallback = None, messageCallback = None, cleanupCallback = None\<rparr>"

lemma no_callbacks_ok: "cli_hooks_ok no_callbacks"
  by (simp add: cli_hooks_ok_def no_callbacks_def)



end
