(* ===== verification/ThreadContexts.thy ===== *)
theory ThreadContexts
  imports TcpServer Sync
begin

text \<open>
  What the HTTP and the RPC server share: an object per thread, made by the thread initialisation
  function that \<open>TcpServer::start\<close> hands to the pool. A thread is named by its loop's number. Then the
  arrival of a message on a connection, for sessions of several messages.
\<close>

text \<open>\<open>value()\<close> is a reference into the thread's slot.\<close>

definition tl_store :: "nat \<Rightarrow> 'a \<Rightarrow> 'a thread_local \<Rightarrow> 'a thread_local" where
  "tl_store t x v = v\<lparr>slots := (slots v)(t := Some x)\<rparr>"

text \<open>
  \<open>start\<close> with \<open>ThreadLocal::initValue\<close> as the initialisation function: it runs once for each loop
  the pool's \<open>start\<close> initialises, in its thread; those are the new entries of the pool's list of calls.
\<close>

definition start_contexts ::
  "'a \<Rightarrow> nat \<Rightarrow> nat list \<Rightarrow> bool \<Rightarrow> 'k server \<Rightarrow> 'a thread_local \<Rightarrow> ('k server \<times> 'a thread_local) option" where
  "start_contexts obj cur new_loops listen_ok s v = do {
     s1 \<leftarrow> server_start cur True new_loops listen_ok s;
     let called = drop (length (lp_init_calls (ioThreadPool s))) (lp_init_calls (ioThreadPool s1));
     Some (s1, fold (\<lambda>t. tl_initValue t obj) called v)
   }"

lemma tl_value_store [simp]: "tl_value t (tl_store t c v) = Some c"
  by (simp add: tl_value_def tl_store_def)

lemma tl_store_store [simp]: "tl_store t c (tl_store t c' v) = tl_store t c v"
  by (simp add: tl_store_def)

lemma fold_initValue: "tl_value t (fold (\<lambda>t. tl_initValue t c) ts v) = (if t \<in> set ts then Some c else tl_value t v)"
  by (induction ts arbitrary: v) (auto simp: tl_value_def tl_initValue_def)

text \<open>After \<open>start\<close> every loop the server deals connections to has its object.\<close>

lemma start_contexts_ready:
  assumes "server_new base idle lsock True addr n = Some s0" "start_contexts obj base ls True s0 v = Some (s, v')"
    "deal k (ioThreadPool s) = Some (p, dealt)" "t \<in> set dealt"
  shows "tl_value t v' = Some obj"
proof -
  from assms(1) have f: "ioThreadPool s0 = loop_pool_new base n" "\<not> srv_started s0" "baseLoop s0 = base"
    by (auto simp: server_new_def abort_simps open_fd_def split: if_splits)
  from assms(2) obtain q where q: "loop_pool_start True True ls (loop_pool_new base n) = Some q"
    and s: "ioThreadPool s = q" "v' = fold (\<lambda>t. tl_initValue t obj) (lp_init_calls q) v"
    unfolding start_contexts_def server_start_def
    by (auto simp: f abort_simps bind_Some_iff) (simp add: loop_pool_new_def)
  from q have lp: "lp_threadNum q = n" "loops q = ls" "baseloop q = base" "lp_init_calls q = (if n = 0 then [base] else ls)" "length ls = n"
    by (auto simp: loop_pool_start_def loop_pool_new_def bind_Some_iff Let_def split: if_splits)
  from deal_loops [OF assms(3,4)] have "t \<in> set (lp_init_calls q)" by (auto simp: s(1) lp split: if_splits)
  then show ?thesis by (simp add: s(2) fold_initValue)
qed

text \<open>A message arrives, whole, in the input buffer of a connection.\<close>

definition deliver :: "string \<Rightarrow> tcp \<Rightarrow> tcp option" where
  "deliver msg w = do { (b, n, e) \<leftarrow> readFd (inputBuffer w) (ReadBytes msg); Some (w\<lparr>inputBuffer := b\<rparr>) }"

lemma deliver_ok:
  assumes "conn_inv w" "length msg \<le> extrabuf_size"
  shows "\<exists>w1. deliver msg w = Some w1 \<and> conn_inv w1 \<and> state w1 = state w \<and> content (inputBuffer w1) = content (inputBuffer w) @ msg
    \<and> stream w1 = stream w \<and> (\<forall>r. epipe r w1 = epipe r w) \<and> sock w1 = sock w"
proof -
  have "buffer_inv (inputBuffer w)" using assms(1) by (simp add: conn_inv_def)
  from readFd_ok [OF this, of msg] assms(2) obtain b where b: "readFd (inputBuffer w) (ReadBytes msg) = Some (b, int (length msg), None)"
    "buffer_inv b" "content b = content (inputBuffer w) @ msg" by auto
  with conn_inv_input [OF assms(1) b(2)] show ?thesis
    by (simp add: deliver_def stream_def epipe_def)
qed

text \<open>A connected connection with a text in its input buffer.\<close>

lemma sample_input:
  "\<exists>w. conn_inv w \<and> state w = Connected \<and> content (inputBuffer w) = s \<and> stream w = [] \<and> (\<forall>r. \<not> epipe r w)"
proof -
  from append_ok [OF buffer_new_inv, of s] obtain b where b: "buffer_inv b" "content b = s" by auto
  from conn_inv_input [OF sample_tcp_inv b(1), of Connected] b(2) show ?thesis
    by (intro exI [of _ "(sample_tcp Connected)\<lparr>inputBuffer := b\<rparr>"])
      (simp add: sample_tcp_def stream_def epipe_def kwrite_def)
qed

end
