(* ===== verification/HttpContext.thy ===== *)
theory HttpContext
  imports Buffer
begin

text \<open>
  \<open>http/HttpRequest.h\<close>, \<open>http/HttpContext.h\<close> and \<open>http/HttpContext.cc\<close>: a request and the state
  machine that parses one from a connection's input buffer, as far as the buffer goes.

  \<open>std::map\<close> of headers is a map: nothing depends on its order. The parsing loop is a partial function:
  \<open>None\<close> is a failed assertion of the buffer or a loop that does not end. The refinement lemma shows
  that neither happens unless the loop is entered in the state \<open>kGotAll\<close>.
\<close>

section \<open>HttpRequest\<close>

(* src/http/HttpRequest.h:21-23 HttpRequest::Method *)
datatype http_method = kInvalid | kGet | kPost | kHead | kPut | kDelete

(* src/http/HttpRequest.h:24-28 HttpRequest::Version *)
datatype http_version = kUnknown | kHttp10 | kHttp11

(* src/http/HttpRequest.h:141-145 HttpRequest *)
record http_request =
  req_method :: http_method
  req_path :: string
  req_version :: http_version
  req_headers :: "string \<Rightarrow> string option"
  req_body :: string

(* src/http/HttpRequest.h:30-33 HttpRequest::HttpRequest *)
definition request_new :: http_request where
  "request_new = \<lparr>req_method = kInvalid, req_path = [], req_version = kUnknown, req_headers = (\<lambda>_. None),
     req_body = []\<rparr>"

(* src/http/HttpRequest.h:35-35 HttpRequest::setVersion *)
definition setVersion :: "http_version \<Rightarrow> http_request \<Rightarrow> http_request" where
  "setVersion v r = r\<lparr>req_version := v\<rparr>"

(* src/http/HttpRequest.h:37-44 HttpRequest::versionToString *)
definition versionToString :: "http_request \<Rightarrow> string" where
  "versionToString r =
     (if req_version r = kHttp10 then ''HTTP/1.0''
      else if req_version r = kHttp11 then ''HTTP/1.1'' else ''UNKNOWN'')"

(* src/http/HttpRequest.h:46-70 HttpRequest::setMethod *)
definition setMethod :: "string \<Rightarrow> http_request \<Rightarrow> http_request \<times> bool" where
  "setMethod m r =
     (let k = (if m = ''GET'' then kGet else if m = ''POST'' then kPost else if m = ''HEAD'' then kHead
               else if m = ''PUT'' then kPut else if m = ''DELETE'' then kDelete else kInvalid)
      in (r\<lparr>req_method := k\<rparr>, k \<noteq> kInvalid))"

(* src/http/HttpRequest.h:73-97 HttpRequest::methodToString *)
fun methodToString :: "http_method \<Rightarrow> string" where
  "methodToString kGet = ''GET''"
| "methodToString kPost = ''POST''"
| "methodToString kHead = ''HEAD''"
| "methodToString kPut = ''PUT''"
| "methodToString kDelete = ''DELETE''"
| "methodToString kInvalid = ''UNKNOWN''"

(* src/http/HttpRequest.h:99-101 HttpRequest::setPath *)
definition setPath :: "string \<Rightarrow> http_request \<Rightarrow> http_request" where
  "setPath p r = r\<lparr>req_path := p\<rparr>"

text \<open>\<open>isspace\<close> in the C locale: the space, and the characters 9 to 13.\<close>

definition isspace :: "char \<Rightarrow> bool" where
  "isspace c \<longleftrightarrow> c = CHR '' '' \<or> (9 \<le> (of_char c :: nat) \<and> (of_char c :: nat) \<le> 13)"

definition trim_right :: "string \<Rightarrow> string" where
  "trim_right s = rev (dropWhile isspace (rev s))"

text \<open>The line is cut at the offset of its colon.\<close>

(* src/http/HttpRequest.h:104-119 HttpRequest::addHeader *)
definition addHeader :: "string \<Rightarrow> nat \<Rightarrow> http_request \<Rightarrow> http_request" where
  "addHeader line colon r =
     (let field = take colon line;
          value = trim_right (dropWhile isspace (drop (colon + 1) line))
      in r\<lparr>req_headers := (req_headers r)(field \<mapsto> value)\<rparr>)"

(* src/http/HttpRequest.h:120-127 HttpRequest::header *)
definition header :: "string \<Rightarrow> http_request \<Rightarrow> string" where
  "header field r = (case req_headers r field of Some v \<Rightarrow> v | None \<Rightarrow> [])"

(* src/http/HttpRequest.h:132-138 HttpRequest::reset *)
definition request_reset :: "http_request \<Rightarrow> http_request" where
  "request_reset r = r\<lparr>req_method := kInvalid, req_path := [], req_version := kUnknown,
     req_headers := (\<lambda>_. None), req_body := []\<rparr>"

section \<open>HttpContext\<close>

(* src/http/HttpContext.h:20-25 HttpContext::HttpRequestParseState *)
datatype parse_state = kExpectRequestLine | kExpectHeaders | kExpectBody | kGotAll

(* src/http/HttpContext.h:72-73 HttpContext *)
record http_context =
  pstate :: parse_state
  request :: http_request

(* src/http/HttpContext.h:27-29 HttpContext::HttpContext *)
definition context_new :: http_context where
  "context_new = \<lparr>pstate = kExpectRequestLine, request = request_new\<rparr>"

(* src/http/HttpContext.h:31-33 HttpContext::expectRequestLine *)
definition expectRequestLine :: "http_context \<Rightarrow> bool" where
  "expectRequestLine c = (pstate c = kExpectRequestLine)"

(* src/http/HttpContext.h:34-36 HttpContext::expectHeaders *)
definition expectHeaders :: "http_context \<Rightarrow> bool" where
  "expectHeaders c = (pstate c = kExpectHeaders)"

(* src/http/HttpContext.h:37-39 HttpContext::expectBody *)
definition expectBody :: "http_context \<Rightarrow> bool" where
  "expectBody c = (pstate c = kExpectBody)"

(* src/http/HttpContext.h:40-42 HttpContext::gotAll *)
definition gotAll :: "http_context \<Rightarrow> bool" where
  "gotAll c = (pstate c = kGotAll)"

(* src/http/HttpContext.h:44-46 HttpContext::receiveRequestLine *)
definition receiveRequestLine :: "http_context \<Rightarrow> http_context" where
  "receiveRequestLine c = c\<lparr>pstate := kExpectHeaders\<rparr>"

(* src/http/HttpContext.h:48-50 HttpContext::receiveHeaders *)
definition receiveHeaders :: "http_context \<Rightarrow> http_context" where
  "receiveHeaders c = c\<lparr>pstate := kExpectBody\<rparr>"

(* src/http/HttpContext.h:52-54 HttpContext::receiveBody *)
definition receiveBody :: "http_context \<Rightarrow> http_context" where
  "receiveBody c = c\<lparr>pstate := kGotAll\<rparr>"

(* src/http/HttpContext.h:56-59 HttpContext::reset *)
definition context_reset :: "http_context \<Rightarrow> http_context" where
  "context_reset c = c\<lparr>pstate := kExpectRequestLine, request := request_reset (request c)\<rparr>"

(* src/http/HttpContext.cc:70-105 HttpContext::processRequestLine *)
definition processRequestLine :: "string \<Rightarrow> http_context \<Rightarrow> http_context \<times> bool" where
  "processRequestLine line c =
     (let space = find_char (CHR '' '') line
      in if space \<noteq> length line then
           (let (r, valid) = setMethod (take space line) (request c); c1 = c\<lparr>request := r\<rparr>
            in if valid then
                 (let start = drop (space + 1) line; space2 = find_char (CHR '' '') start
                  in if space2 \<noteq> length start then
                       (let c2 = c1\<lparr>request := setPath (take space2 start) (request c1)\<rparr>;
                            ver = drop (space2 + 1) start
                        in if length ver = 8 \<and> take 7 ver = ''HTTP/1.'' then
                             if last ver = CHR ''1'' then (c2\<lparr>request := setVersion kHttp11 (request c2)\<rparr>, True)
                             else if last ver = CHR ''0'' then (c2\<lparr>request := setVersion kHttp10 (request c2)\<rparr>, True)
                             else (c2, False)
                           else (c2, False))
                     else (c1, False))
               else (c1, False))
         else (c, False))"

text \<open>The loop, with its variable \<open>ok\<close>; the result is the context, the buffer and \<open>ok\<close>.\<close>

(* src/http/HttpContext.cc:16-66 HttpContext::parseRequest *)
partial_function (option) parse_loop :: "bool \<Rightarrow> http_context \<Rightarrow> buffer \<Rightarrow> (http_context \<times> buffer \<times> bool) option" where
  "parse_loop ok c b =
     (if expectRequestLine c then
        (case findCRLF b of
           Some crlf \<Rightarrow>
             (case processRequestLine (slice (peek b) crlf (bufvec b)) c of (c1, ok1) \<Rightarrow>
                if ok1 then Option.bind (retrieveUntil b (crlf + 2)) (\<lambda>b1. parse_loop ok1 (receiveRequestLine c1) b1)
                else Some (c1, b, ok1))
         | None \<Rightarrow> Some (c, b, ok))
      else if expectHeaders c then
        (case findCRLF b of
           Some crlf \<Rightarrow>
             (let line = slice (peek b) crlf (bufvec b); colon = find_char (CHR '':'') line;
                  c1 = (if colon \<noteq> length line then c\<lparr>request := addHeader line colon (request c)\<rparr>
                        else receiveHeaders c)
              in Option.bind (retrieveUntil b (crlf + 2)) (\<lambda>b1. parse_loop ok c1 b1))
         | None \<Rightarrow> Some (c, b, ok))
      else if expectBody c then Some (receiveBody c, b, ok)
      else parse_loop ok c b)"

(* src/http/HttpContext.cc:12-67 HttpContext::parseRequest *)
definition parseRequest :: "http_context \<Rightarrow> buffer \<Rightarrow> (http_context \<times> buffer \<times> bool) option" where
  "parseRequest c b = parse_loop True c b"

section \<open>The parser over plain text\<close>

text \<open>The same machine as a total function of the readable text, with the text that is left.\<close>

lemma search_append: "search p s < length s \<Longrightarrow> p \<noteq> [] \<Longrightarrow> search p (s @ t) = search p s"
proof (induction s)
  case (Cons x xs)
  show ?case
  proof (cases "is_prefix p (x # xs)")
    case True
    then have "length p \<le> length (x # xs)"
      by (metis is_prefix_def length_take min.absorb_iff2 min.commute)
    then have "take (length p) ((x # xs) @ t) = take (length p) (x # xs)" by (subst take_append) simp
    with True have "is_prefix p ((x # xs) @ t)" by (simp add: is_prefix_def)
    with True show ?thesis by simp
  next
    case False
    with Cons.prems have l: "search p xs < length xs" by simp
    with search_found_length [of p xs] Cons.prems(2) have "length p \<le> length (x # xs)" by simp
    then have "take (length p) ((x # xs) @ t) = take (length p) (x # xs)" by (subst take_append) simp
    with False have "\<not> is_prefix p ((x # xs) @ t)" by (simp add: is_prefix_def)
    with False Cons.IH [OF l Cons.prems(2)] show ?thesis by simp
  qed
qed simp

lemma search_rest: "search p s \<noteq> length s \<Longrightarrow> length s - Suc (Suc (search p s)) < length s"
  using search_le [of p s] by linarith

function parse_text :: "http_context \<Rightarrow> string \<Rightarrow> http_context \<times> string \<times> bool" where
  "parse_text c s =
     (let n = search kCRLF s; line = take n s; rest = drop (n + 2) s in
      case pstate c of
        kExpectRequestLine \<Rightarrow>
          if n = length s then (c, s, True)
          else (case processRequestLine line c of (c1, ok) \<Rightarrow>
            if ok then parse_text (receiveRequestLine c1) rest else (c1, s, False))
      | kExpectHeaders \<Rightarrow>
          if n = length s then (c, s, True)
          else if CHR '':'' \<in> set line
          then parse_text (c\<lparr>request := addHeader line (find_char (CHR '':'') line) (request c)\<rparr>) rest
          else parse_text (receiveHeaders c) rest
      | kExpectBody \<Rightarrow> (receiveBody c, s, True)
      | kGotAll \<Rightarrow> (c, s, True))"
  by pat_completeness auto
termination
  by (relation "measure (\<lambda>(c, s). length s)") (use search_rest in auto)

declare parse_text.simps [simp del]

lemma parse_text_line:
  assumes "search kCRLF s \<noteq> length s"
  shows "pstate c = kExpectRequestLine \<Longrightarrow> processRequestLine (take (search kCRLF s) s) c = (c1, ok) \<Longrightarrow>
      parse_text c s = (if ok then parse_text (receiveRequestLine c1) (drop (search kCRLF s + 2) s) else (c1, s, False))"
    and "pstate c = kExpectHeaders \<Longrightarrow> CHR '':'' \<in> set (take (search kCRLF s) s) \<Longrightarrow>
      parse_text c s = parse_text (c\<lparr>request := addHeader (take (search kCRLF s) s)
        (find_char (CHR '':'') (take (search kCRLF s) s)) (request c)\<rparr>) (drop (search kCRLF s + 2) s)"
    and "pstate c = kExpectHeaders \<Longrightarrow> CHR '':'' \<notin> set (take (search kCRLF s) s) \<Longrightarrow>
      parse_text c s = parse_text (receiveHeaders c) (drop (search kCRLF s + 2) s)"
  using assms by (simp_all add: parse_text.simps [of c s] Let_def)

lemma parse_text_no_line:
  "search kCRLF s = length s \<Longrightarrow> pstate c = kExpectRequestLine \<or> pstate c = kExpectHeaders \<Longrightarrow> parse_text c s = (c, s, True)"
  by (subst parse_text.simps) (auto split: parse_state.splits)

lemma parse_text_body: "pstate c = kExpectBody \<Longrightarrow> parse_text c s = (receiveBody c, s, True)"
  by (subst parse_text.simps) simp

lemmas context_defs = expectRequestLine_def expectHeaders_def expectBody_def receiveRequestLine_def
  receiveHeaders_def receiveBody_def gotAll_def

lemma slice_line:
  assumes "n \<le> length (content b)"
  shows "slice (peek b) (peek b + n) (bufvec b) = take n (content b)"
proof -
  have "n \<le> writeIndex b - readIndex b" using assms by (simp add: content_def slice_def)
  then show ?thesis by (simp add: content_def slice_def peek_def min_def)
qed

text \<open>The loop over the buffer is the machine over its text: it ends, and no assertion fails.\<close>

lemma parse_loop_text:
  assumes "buffer_inv b" "pstate c \<noteq> kGotAll"
  shows "\<exists>b'. parse_loop True c b = Some (fst (parse_text c (content b)), b', snd (snd (parse_text c (content b))))
    \<and> buffer_inv b' \<and> content b' = fst (snd (parse_text c (content b)))"
  using assms
proof (induction "length (content b)" arbitrary: b c rule: less_induct)
  case less
  let ?s = "content b" and ?n = "search kCRLF (content b)"
  show ?case
  proof (cases "pstate c = kExpectBody")
    case True
    with less.prems show ?thesis
      by (subst parse_loop.simps) (simp add: context_defs parse_text_body)
  next
    case nb: False
    show ?thesis
    proof (cases "?n = length ?s")
      case True
      with findCRLF_None [OF less.prems(1)] have "findCRLF b = None" by simp
      with nb less.prems True parse_text_no_line [OF True, of c] show ?thesis
        by (subst parse_loop.simps) (cases "pstate c"; simp add: context_defs)
    next
      case False
      then obtain i where i: "findCRLF b = Some i" using findCRLF_None [OF less.prems(1)] by fastforce
      note f = findCRLF_Some [OF less.prems(1) i]
      have line: "slice (peek b) i (bufvec b) = take ?n ?s" using f(1,2) by (simp add: slice_line)
      from retrieveUntil_ok [OF less.prems(1) f(2)] f(1) obtain b1 where
        b1: "retrieveUntil b (i + 2) = Some b1" "buffer_inv b1" "content b1 = drop (?n + 2) ?s"
        by (auto simp: add.assoc)
      have shorter: "length (content b1) < length ?s" using b1(3) f(2) by simp
      show ?thesis
      proof (cases "pstate c = kExpectRequestLine")
        case True
        obtain c1 ok where pr: "processRequestLine (take ?n ?s) c = (c1, ok)" by fastforce
        note pt = parse_text_line(1) [OF False True pr]
        show ?thesis
        proof (cases ok)
          case ok: True
          have "parse_loop True c b = parse_loop True (receiveRequestLine c1) b1"
            using True i line pr b1(1) ok by (subst parse_loop.simps) (simp add: context_defs)
          with less.hyps [OF shorter b1(2), of "receiveRequestLine c1"] pt ok b1(3) show ?thesis
            by (simp add: context_defs)
        next
          case False
          then show ?thesis
            using True i line pr pt less.prems by (subst parse_loop.simps) (simp add: context_defs)
        qed
      next
        case rl: False
        with nb less.prems(2) have h: "pstate c = kExpectHeaders" by (cases "pstate c") auto
        let ?c1 = "if CHR '':'' \<in> set (take ?n ?s) then c\<lparr>request := addHeader (take ?n ?s)
          (find_char (CHR '':'') (take ?n ?s)) (request c)\<rparr> else receiveHeaders c"
        have "parse_loop True c b = parse_loop True ?c1 b1"
          using h i line b1(1) f(2) by (subst parse_loop.simps) (simp add: context_defs find_char_eq_length Let_def)
        moreover have "parse_text c ?s = parse_text ?c1 (content b1)"
          using parse_text_line(2,3) [OF False h] b1(3) by simp
        ultimately show ?thesis using less.hyps [OF shorter b1(2), of ?c1] h by (simp add: context_defs)
      qed
    qed
  qed
qed

lemma parseRequest_text:
  assumes "buffer_inv b" "pstate c \<noteq> kGotAll" "parse_text c (content b) = (c', rest, ok)"
  shows "\<exists>b'. parseRequest c b = Some (c', b', ok) \<and> buffer_inv b' \<and> content b' = rest"
  using parse_loop_text [OF assms(1,2)] assms(3) by (simp add: parseRequest_def)

section \<open>Resuming\<close>

lemma parse_text_resume:
  "parse_text c s = (c1, r, True) \<Longrightarrow> pstate c1 \<noteq> kGotAll \<Longrightarrow> parse_text c (s @ t) = parse_text c1 (r @ t)"
proof (induction "length s" arbitrary: c s rule: less_induct)
  case less
  let ?n = "search kCRLF s"
  show ?case
  proof (cases "pstate c \<in> {kExpectRequestLine, kExpectHeaders} \<and> ?n \<noteq> length s")
    case False
    then have "c1 = c \<and> r = s"
      using less.prems parse_text_no_line [of s c]
      by (cases "pstate c") (auto simp: parse_text_body parse_text.simps [of c s] context_defs Let_def)
    then show ?thesis by simp
  next
    case True
    then have n: "?n \<noteq> length s" and st: "pstate c = kExpectRequestLine \<or> pstate c = kExpectHeaders" by auto
    have lt: "?n < length s" using n search_le [of kCRLF s] by linarith
    have a: "search kCRLF (s @ t) = ?n" by (rule search_append [OF lt]) (simp add: kCRLF_def)
    have n': "search kCRLF (s @ t) \<noteq> length (s @ t)" using a lt by simp
    have l2: "?n + 2 \<le> length s" using search_found_length [OF _ lt] by (simp add: kCRLF_def)
    have ln: "take ?n (s @ t) = take ?n s" "drop (?n + 2) (s @ t) = drop (?n + 2) s @ t" using lt l2 by simp_all
    have IH: "parse_text c' (drop (?n + 2) s @ t) = parse_text c1 (r @ t)"
      if "parse_text c' (drop (?n + 2) s) = (c1, r, True)" for c'
      using less.hyps [of "drop (?n + 2) s" c'] that less.prems(2) lt by simp
    from st show ?thesis
    proof
      assume st: "pstate c = kExpectRequestLine"
      obtain c2 ok where pr: "processRequestLine (take ?n s) c = (c2, ok)" by fastforce
      have pr': "processRequestLine (take (search kCRLF (s @ t)) (s @ t)) c = (c2, ok)" using pr by (simp only: a ln)
      note p1 = parse_text_line(1) [OF n st pr] and p2 = parse_text_line(1) [OF n' st pr', unfolded a ln]
      from p1 less.prems(1) have ok and q: "parse_text (receiveRequestLine c2) (drop (?n + 2) s) = (c1, r, True)"
        by (auto split: if_splits)
      with IH [OF q] p2 show ?thesis by (simp only: if_True)
    next
      assume st: "pstate c = kExpectHeaders"
      let ?c2 = "c\<lparr>request := addHeader (take ?n s) (find_char (CHR '':'') (take ?n s)) (request c)\<rparr>"
      note p1 = parse_text_line(2,3) [OF n st] and p2 = parse_text_line(2,3) [OF n' st, unfolded a ln]
      show ?thesis
      proof (cases "CHR '':'' \<in> set (take ?n s)")
        case True
        with p1(1) less.prems(1) have "parse_text ?c2 (drop (?n + 2) s) = (c1, r, True)" by simp
        from IH [OF this] p2(1) [OF True] show ?thesis by (simp only:)
      next
        case False
        with p1(2) less.prems(1) have "parse_text (receiveHeaders c) (drop (?n + 2) s) = (c1, r, True)" by simp
        from IH [OF this] p2(2) [OF False] show ?thesis by (simp only:)
      qed
    qed
  qed
qed

section \<open>Printing a request\<close>

fun headers_text :: "(string \<times> string) list \<Rightarrow> string" where
  "headers_text [] = kCRLF"
| "headers_text ((f, v) # hs) = f @ '': '' @ v @ kCRLF @ headers_text hs"

fun header_map :: "(string \<Rightarrow> string option) \<Rightarrow> (string \<times> string) list \<Rightarrow> (string \<Rightarrow> string option)" where
  "header_map m [] = m"
| "header_map m ((f, v) # hs) = header_map (m(f \<mapsto> v)) hs"

fun version_text :: "http_version \<Rightarrow> string" where
  "version_text kHttp10 = ''HTTP/1.0''"
| "version_text kHttp11 = ''HTTP/1.1''"
| "version_text kUnknown = []"

definition request_text :: "http_method \<Rightarrow> string \<Rightarrow> http_version \<Rightarrow> (string \<times> string) list \<Rightarrow> string" where
  "request_text m p v hs = methodToString m @ '' '' @ p @ '' '' @ version_text v @ kCRLF @ headers_text hs"

definition header_ok :: "string \<times> string \<Rightarrow> bool" where
  "header_ok h \<longleftrightarrow> CHR '':'' \<notin> set (fst h) \<and> CHR 0x0D \<notin> set (fst h) \<and> CHR 0x0D \<notin> set (snd h)
     \<and> (snd h \<noteq> [] \<longrightarrow> \<not> isspace (hd (snd h)) \<and> \<not> isspace (last (snd h)))"

lemma search_line: "CHR 0x0D \<notin> set l \<Longrightarrow> search kCRLF (l @ kCRLF @ r) = length l"
  by (induction l) (auto simp: kCRLF_def is_prefix_def)

lemma line_cut:
  assumes "CHR 0x0D \<notin> set l"
  shows "search kCRLF (l @ kCRLF @ r) \<noteq> length (l @ kCRLF @ r)" "take (search kCRLF (l @ kCRLF @ r)) (l @ kCRLF @ r) = l"
    "drop (search kCRLF (l @ kCRLF @ r) + 2) (l @ kCRLF @ r) = r"
  using search_line [OF assms, of r] by (simp_all add: kCRLF_def)

lemma trim_value:
  assumes "v \<noteq> [] \<longrightarrow> \<not> isspace (hd v) \<and> \<not> isspace (last v)"
  shows "trim_right (dropWhile isspace (CHR '' '' # v)) = v"
proof (cases "v = []")
  case False
  with assms have "dropWhile isspace v = v" "dropWhile isspace (rev v) = rev v"
    by (simp_all add: dropWhile_eq_self_iff hd_rev)
  then show ?thesis by (simp add: trim_right_def isspace_def)
qed (simp add: trim_right_def isspace_def)

lemma parse_headers:
  assumes "\<forall>h\<in>set hs. header_ok h" "pstate c = kExpectHeaders"
  shows "parse_text c (headers_text hs @ rest) =
    (c\<lparr>pstate := kGotAll, request := (request c)\<lparr>req_headers := header_map (req_headers (request c)) hs\<rparr>\<rparr>, rest, True)"
  using assms
proof (induction hs arbitrary: c)
  case Nil
  have e: "CHR 0x0D \<notin> set []" by simp
  note l = line_cut [OF e, of rest, unfolded append_Nil]
  have "parse_text c (kCRLF @ rest) = parse_text (receiveHeaders c) rest"
    using parse_text_line(3) [OF l(1) Nil(2)] unfolding l(2,3) by simp
  also have "\<dots> = (receiveBody (receiveHeaders c), rest, True)" by (rule parse_text_body) (simp add: context_defs)
  finally show ?case by (simp add: context_defs)
next
  case (Cons h hs)
  obtain f v where h: "h = (f, v)" by force
  let ?l = "f @ '': '' @ v" and ?r = "headers_text hs @ rest"
  have ok: "CHR '':'' \<notin> set f" "CHR 0x0D \<notin> set ?l" "v \<noteq> [] \<longrightarrow> \<not> isspace (hd v) \<and> \<not> isspace (last v)"
    using Cons.prems(1) h by (auto simp: header_ok_def)
  note l = line_cut [OF ok(2), of ?r]
  have fc: "find_char (CHR '':'') ?l = length f" using find_char_append [OF ok(1)] by simp
  have ah: "addHeader ?l (length f) (request c) = (request c)\<lparr>req_headers := (req_headers (request c))(f \<mapsto> v)\<rparr>"
    using trim_value [OF ok(3)] by (simp add: addHeader_def)
  let ?c = "c\<lparr>request := (request c)\<lparr>req_headers := (req_headers (request c))(f \<mapsto> v)\<rparr>\<rparr>"
  have "parse_text c (?l @ kCRLF @ ?r) = parse_text ?c ?r"
    using parse_text_line(2) [OF l(1) Cons.prems(2)] unfolding l(2,3) fc ah by simp
  also have "\<dots> = (?c\<lparr>pstate := kGotAll, request := (request ?c)\<lparr>req_headers := header_map (req_headers (request ?c)) hs\<rparr>\<rparr>, rest, True)"
    by (rule Cons.IH) (use Cons.prems in auto)
  finally show ?case by (simp add: h)
qed

lemma request_line:
  assumes "m \<noteq> kInvalid" "v \<noteq> kUnknown" "CHR '' '' \<notin> set p"
  shows "processRequestLine (methodToString m @ '' '' @ p @ '' '' @ version_text v) c =
    (c\<lparr>request := (request c)\<lparr>req_method := m, req_path := p, req_version := v\<rparr>\<rparr>, True)"
proof -
  have sp: "CHR '' '' \<notin> set (methodToString m)" by (cases m) auto
  have f1: "find_char (CHR '' '') (methodToString m @ '' '' @ p @ '' '' @ version_text v) = length (methodToString m)"
    using find_char_append [OF sp] by simp
  have f2: "find_char (CHR '' '') (p @ '' '' @ version_text v) = length p"
    using find_char_append [OF assms(3)] by simp
  have sm: "setMethod (methodToString m) (request c) = ((request c)\<lparr>req_method := m\<rparr>, True)"
    using assms(1) by (cases m) (simp_all add: setMethod_def)
  show ?thesis
    unfolding processRequestLine_def Let_def f1 using f2 sm assms(2)
    by (cases v) (simp_all add: setPath_def setVersion_def)
qed

lemma parse_request_text:
  assumes "m \<noteq> kInvalid" "v \<noteq> kUnknown" "CHR '' '' \<notin> set p" "CHR 0x0D \<notin> set p" "\<forall>h\<in>set hs. header_ok h"
    "pstate c = kExpectRequestLine"
  shows "parse_text c (request_text m p v hs @ rest) =
    (c\<lparr>pstate := kGotAll, request := (request c)\<lparr>req_method := m, req_path := p, req_version := v,
        req_headers := header_map (req_headers (request c)) hs\<rparr>\<rparr>, rest, True)"
proof -
  let ?l = "methodToString m @ '' '' @ p @ '' '' @ version_text v" and ?r = "headers_text hs @ rest"
  have "CHR 0x0D \<notin> set (methodToString m)" "CHR 0x0D \<notin> set (version_text v)" by (cases m; simp) (cases v; simp)
  with assms(4) have cr: "CHR 0x0D \<notin> set ?l" by simp
  note l = line_cut [OF cr, of ?r]
  let ?c = "c\<lparr>pstate := kExpectHeaders, request := (request c)\<lparr>req_method := m, req_path := p, req_version := v\<rparr>\<rparr>"
  note pt = parse_text_line(1) [OF l(1) assms(6), unfolded l(2,3), OF request_line [OF assms(1-3)], unfolded if_True]
  have "parse_text c (?l @ kCRLF @ ?r) = parse_text ?c ?r"
    unfolding pt by (cases c) (simp add: receiveRequestLine_def)
  also have "\<dots> = (?c\<lparr>pstate := kGotAll, request := (request ?c)\<lparr>req_headers := header_map (req_headers (request ?c)) hs\<rparr>\<rparr>, rest, True)"
    by (rule parse_headers) (use assms(5) in simp_all)
  finally show ?thesis by (simp add: request_text_def)
qed

section \<open>Properties\<close>

text \<open>
  C25. Round trip: a request printed as HTTP prescribes (method, path without spaces, version, headers whose
  names have no colon and whose values are trimmed, empty line) parses back to exactly its parts, and
  the text after it stays in the buffer. A repeated header keeps its last value.
\<close>
theorem request_roundtrip:
  assumes "buffer_inv b" "content b = request_text m p v hs @ rest" "m \<noteq> kInvalid" "v \<noteq> kUnknown"
    "CHR '' '' \<notin> set p" "CHR 0x0D \<notin> set p" "\<forall>h\<in>set hs. header_ok h"
  shows "\<exists>b'. parseRequest context_new b = Some (\<lparr>pstate = kGotAll, request = \<lparr>req_method = m, req_path = p,
      req_version = v, req_headers = header_map (\<lambda>_. None) hs, req_body = []\<rparr>\<rparr>, b', True)
    \<and> buffer_inv b' \<and> content b' = rest"
proof -
  let ?c = "\<lparr>pstate = kGotAll, request = \<lparr>req_method = m, req_path = p, req_version = v,
    req_headers = header_map (\<lambda>_. None) hs, req_body = []\<rparr>\<rparr>"
  have "parse_text context_new (content b) = (?c, rest, True)"
    using parse_request_text [OF assms(3-7), of context_new rest] assms(2)
    by (simp add: context_new_def request_new_def)
  from parseRequest_text [OF assms(1) _ this] show ?thesis by (simp add: context_new_def)
qed

text \<open>
  C32. However TCP cuts a request into pieces, the parser does not care: as long as it has not got
  everything, parsing what has arrived and going on when more has been appended gives the same
  context, the same rest and the same verdict as parsing all of it at once. It always returns.
\<close>
theorem parse_resumes:
  assumes "buffer_inv b" "pstate c \<noteq> kGotAll"
  shows "\<exists>c1 b1 ok. parseRequest c b = Some (c1, b1, ok) \<and> buffer_inv b1
    \<and> (ok \<and> \<not> gotAll c1 \<longrightarrow>
        (\<exists>b2 b' b3 b4 c' ok'. append b1 t = Some b2 \<and> parseRequest c1 b2 = Some (c', b3, ok')
          \<and> append b t = Some b' \<and> parseRequest c b' = Some (c', b4, ok') \<and> content b3 = content b4))"
proof -
  obtain c1 r ok where p: "parse_text c (content b) = (c1, r, ok)" by (metis prod_cases3)
  from parseRequest_text [OF assms p] obtain b1 where b1: "parseRequest c b = Some (c1, b1, ok)" "buffer_inv b1"
    "content b1 = r" by blast
  have "\<exists>b2 b' b3 b4 c' ok'. append b1 t = Some b2 \<and> parseRequest c1 b2 = Some (c', b3, ok')
      \<and> append b t = Some b' \<and> parseRequest c b' = Some (c', b4, ok') \<and> content b3 = content b4"
    if ok: "ok" "\<not> gotAll c1"
  proof -
    from append_ok [OF assms(1), of t] obtain b' where b': "append b t = Some b'" "buffer_inv b'"
      "content b' = content b @ t" by blast
    from append_ok [OF b1(2), of t] obtain b2 where b2: "append b1 t = Some b2" "buffer_inv b2"
      "content b2 = r @ t" using b1(3) by auto
    obtain c' r' ok' where q: "parse_text c1 (r @ t) = (c', r', ok')" by (metis prod_cases3)
    have s1: "pstate c1 \<noteq> kGotAll" using ok(2) by (simp add: gotAll_def)
    have "parse_text c (content b @ t) = (c', r', ok')"
      using parse_text_resume [of c "content b" c1 r t] p ok(1) s1 q by simp
    with parseRequest_text [OF b'(2) assms(2)] b'(3) parseRequest_text [OF b2(2) s1] q b2(3) b'(1) b2(1)
    show ?thesis by metis
  qed
  with b1 show ?thesis by blast
qed

lemma find_char_split:
  assumes "find_char c xs \<noteq> length xs"
  shows "xs = take (find_char c xs) xs @ [c] @ drop (find_char c xs + 1) xs"
proof -
  have "find_char c xs < length xs" using assms find_char_le [of c xs] by linarith
  with id_take_nth_drop [OF this] find_char_nth [OF this] show ?thesis by simp
qed

lemma setMethod_valid: "snd (setMethod w r) \<Longrightarrow> \<exists>m. m \<noteq> kInvalid \<and> w = methodToString m"
  using exI [of _ kGet] exI [of _ kPost] exI [of _ kHead] exI [of _ kPut] exI [of _ kDelete]
  by (auto simp: setMethod_def Let_def split: if_splits)

lemma version_tail:
  assumes "length ver = 8" "take 7 ver = ''HTTP/1.''"
  shows "ver = ''HTTP/1.'' @ [last ver]"
proof -
  have "ver \<noteq> []" using assms(1) by auto
  then have "last ver = ver ! 7" using assms(1) by (simp add: last_conv_nth)
  moreover have "ver = take 7 ver @ [ver ! 7]" using assms(1) take_Suc_conv_app_nth [of 7 ver] by simp
  ultimately show ?thesis using assms(2) by simp
qed

text \<open>
  C36. The request lines accepted are exactly those of the grammar: a known method, a space, a path without
  spaces, a space, and HTTP/1.0 or HTTP/1.1.
\<close>
theorem request_line_grammar:
  "snd (processRequestLine line c) \<longleftrightarrow> (\<exists>m p v. m \<noteq> kInvalid \<and> v \<noteq> kUnknown \<and> CHR '' '' \<notin> set p
     \<and> line = methodToString m @ '' '' @ p @ '' '' @ version_text v)"
proof
  assume ok: "snd (processRequestLine line c)"
  let ?n = "find_char (CHR '' '') line"
  let ?start = "drop (?n + 1) line"
  let ?k = "find_char (CHR '' '') ?start"
  let ?ver = "drop (?k + 1) ?start"
  from ok have n: "?n \<noteq> length line" and m: "snd (setMethod (take ?n line) (request c))" and k: "?k \<noteq> length ?start"
    and v: "length ?ver = 8" "take 7 ?ver = ''HTTP/1.''" "last ?ver = CHR ''1'' \<or> last ?ver = CHR ''0''"
    unfolding processRequestLine_def Let_def by (auto split: if_splits prod.splits)
  from setMethod_valid [OF m] obtain m where "m \<noteq> kInvalid" "take ?n line = methodToString m" by blast
  moreover from v(3) version_tail [OF v(1,2)] obtain ver where "ver \<noteq> kUnknown" "?ver = version_text ver"
    by (metis append_Cons append_Nil http_version.distinct version_text.simps)
  moreover note find_char_split [OF n] find_char_split [OF k] find_char_notin [of "CHR '' ''" ?start]
  ultimately show "\<exists>m p v. m \<noteq> kInvalid \<and> v \<noteq> kUnknown \<and> CHR '' '' \<notin> set p
     \<and> line = methodToString m @ '' '' @ p @ '' '' @ version_text v"
    by (intro exI [of _ m] exI [of _ "take ?k ?start"] exI [of _ ver]) (metis append.assoc)
next
  assume "\<exists>m p v. m \<noteq> kInvalid \<and> v \<noteq> kUnknown \<and> CHR '' '' \<notin> set p
     \<and> line = methodToString m @ '' '' @ p @ '' '' @ version_text v"
  then show "snd (processRequestLine line c)" using request_line by auto
qed

lemma processRequestLine_state: "pstate (fst (processRequestLine line c)) = pstate c"
  by (simp add: processRequestLine_def Let_def setMethod_def split: prod.splits)

lemma bad_line_refused:
  assumes "buffer_inv b" "pstate c = kExpectRequestLine" "content b = line @ kCRLF @ rest" "CHR 0x0D \<notin> set line"
    "\<not> snd (processRequestLine line c)"
  shows "\<exists>c' b'. parseRequest c b = Some (c', b', False) \<and> buffer_inv b' \<and> content b' = content b
    \<and> pstate c' = kExpectRequestLine"
proof -
  obtain c1 where pr: "processRequestLine line c = (c1, False)" using assms(5) by (cases "processRequestLine line c") auto
  note l = line_cut [OF assms(4), of rest]
  have "parse_text c (content b) = (c1, content b, False)"
    using parse_text_line(1) [OF l(1) assms(2), unfolded l(2), OF pr] assms(3) by simp
  from parseRequest_text [OF assms(1) _ this] processRequestLine_state [of line c] assms(2) pr show ?thesis by auto
qed

definition sample_request :: string where
  "sample_request = request_text kGet ''/index.html'' kHttp11 [(''Host'', ''a b''), (''Connection'', ''close'')]"

lemma sample_request_ok: "\<forall>h\<in>set [(''Host'', ''a b''), (''Connection'', ''close'')]. header_ok h"
  by (simp add: header_ok_def isspace_def)

theorem request_roundtrip_witness:
  "\<exists>b c b'. append buffer_new (sample_request @ ''GET'') = Some b \<and> parseRequest context_new b = Some (c, b', True)
    \<and> gotAll c \<and> req_path (request c) = ''/index.html'' \<and> content b' = ''GET''"
proof -
  from append_ok [OF buffer_new_inv, of "sample_request @ ''GET''"] obtain b where
    b: "append buffer_new (sample_request @ ''GET'') = Some b" "buffer_inv b" "content b = sample_request @ ''GET''" by auto
  from request_roundtrip [OF b(2) b(3) [unfolded sample_request_def] _ _ _ _ sample_request_ok]
  show ?thesis using b(1) by (auto simp: gotAll_def)
qed

theorem parse_resumes_witness:
  "\<exists>c1 b1 ok. parseRequest context_new buffer_new = Some (c1, b1, ok) \<and> buffer_inv b1"
  using parse_resumes [OF buffer_new_inv, of context_new "[]"] by (auto simp: context_new_def)

end
