(* ===== verification/HttpServer.thy ===== *)
theory HttpServer
  imports HttpContext ThreadContexts
begin

text \<open>
  \<open>http/HttpResponse.h\<close>, \<open>http/HttpServer.h\<close> and \<open>http/HttpServer.cc\<close>: a response and its printed
  form, and the server's callback that parses, answers and closes.

  The user's callback is a parameter from request and prepared response to the response. The contexts
  are values of \<open>ThreadLocal\<close>, one per thread; a thread is named by its loop's number.
\<close>

section \<open>HttpResponse\<close>

(* src/http/HttpResponse.h:22-28 HttpResponse::HttpStatusCode *)
datatype status_code = kInvalidStatus | k200Ok | k301MovedPermanently | k400BadRequest | k404NotFound

fun code_of :: "status_code \<Rightarrow> int" where
  "code_of kInvalidStatus = 0"
| "code_of k200Ok = 200"
| "code_of k301MovedPermanently = 301"
| "code_of k400BadRequest = 400"
| "code_of k404NotFound = 404"

(* src/http/HttpResponse.h:29-33 HttpResponse::Version *)
fun version_num :: "http_version \<Rightarrow> int" where
  "version_num kUnknown = -1"
| "version_num kHttp10 = 0"
| "version_num kHttp11 = 1"

(* src/http/HttpResponse.h:98-103 HttpResponse *)
record http_response =
  closeConnection :: bool
  res_version :: http_version
  statusCode :: status_code
  statusMessage :: string
  res_headers :: "(string \<times> string) list"
  res_body :: string

(* src/http/HttpResponse.h:35-39 HttpResponse::HttpResponse *)
definition response_new :: "bool \<Rightarrow> http_version \<Rightarrow> http_response" where
  "response_new close v = \<lparr>closeConnection = close, res_version = v, statusCode = kInvalidStatus, statusMessage = [],
     res_headers = [], res_body = []\<rparr>"

(* src/http/HttpResponse.h:41-41 HttpResponse::setCloseConnection *)
definition setCloseConnection :: "bool \<Rightarrow> http_response \<Rightarrow> http_response" where
  "setCloseConnection on r = r\<lparr>closeConnection := on\<rparr>"

(* src/http/HttpResponse.h:44-44 HttpResponse::setVeresion *)
definition setVeresion :: "http_version \<Rightarrow> http_response \<Rightarrow> http_response" where
  "setVeresion v r = r\<lparr>res_version := v\<rparr>"

(* src/http/HttpResponse.h:46-46 HttpResponse::setStatusCode *)
definition setStatusCode :: "status_code \<Rightarrow> http_response \<Rightarrow> http_response" where
  "setStatusCode s r = r\<lparr>statusCode := s\<rparr>"

(* src/http/HttpResponse.h:48-50 HttpResponse::setStatusMessage *)
definition setStatusMessage :: "string \<Rightarrow> http_response \<Rightarrow> http_response" where
  "setStatusMessage m r = r\<lparr>statusMessage := m\<rparr>"

(* src/http/HttpResponse.h:57-59 HttpResponse::addHeader *)
definition addResHeader :: "string \<Rightarrow> string \<Rightarrow> http_response \<Rightarrow> http_response" where
  "addResHeader fld value r = r\<lparr>res_headers := map_insert fld value (res_headers r)\<rparr>"

(* src/http/HttpResponse.h:53-55 HttpResponse::setContentType *)
definition setContentType :: "string \<Rightarrow> http_response \<Rightarrow> http_response" where
  "setContentType type r = addResHeader ''Content-Type'' type r"

(* src/http/HttpResponse.h:61-63 HttpResponse::setBody *)
definition setBody :: "string \<Rightarrow> http_response \<Rightarrow> http_response" where
  "setBody b r = r\<lparr>res_body := b\<rparr>"

text \<open>The two uses of \<open>snprintf\<close> into \<open>buf\<close> of 32 bytes.\<close>

definition status_buf :: "http_response \<Rightarrow> string" where
  "status_buf r = take 31 (''HTTP/1.'' @ show_int (version_num (res_version r)) @ '' '' @ show_int (code_of (statusCode r)))
     @ [CHR 0x00]"

definition length_buf :: "http_response \<Rightarrow> string" where
  "length_buf r = take 31 (''Content-Length: '' @ show_nat (length (res_body r)) @ kCRLF) @ [CHR 0x00]"

(* src/http/HttpResponse.h:86-91 HttpResponse::appendToBuffer *)
fun append_headers :: "(string \<times> string) list \<Rightarrow> buffer \<Rightarrow> buffer option" where
  "append_headers [] b = Some b"
| "append_headers ((f, v) # hs) b = do {
     b1 \<leftarrow> append_piece b (sp_of_string f);
     b2 \<leftarrow> append_piece b1 (sp_of_cstr ('': '' @ [CHR 0x00]));
     b3 \<leftarrow> append_piece b2 (sp_of_string v);
     b4 \<leftarrow> append_piece b3 (sp_of_cstr (kCRLF @ [CHR 0x00]));
     append_headers hs b4
   }"

(* src/http/HttpResponse.h:66-95 HttpResponse::appendToBuffer *)
definition appendToBuffer :: "http_response \<Rightarrow> buffer \<Rightarrow> buffer option" where
  "appendToBuffer r b = do {
     b1 \<leftarrow> append_piece b (sp_of_cstr (status_buf r));
     b2 \<leftarrow> append_piece b1 (sp_of_string (statusMessage r));
     b3 \<leftarrow> append_piece b2 (sp_of_cstr (kCRLF @ [CHR 0x00]));
     b4 \<leftarrow> (if closeConnection r
            then append_piece b3 (sp_of_cstr (''Connection: close'' @ kCRLF @ [CHR 0x00]))
            else do {
              b' \<leftarrow> append_piece b3 (sp_of_cstr (length_buf r));
              append_piece b' (sp_of_cstr (''Connection: Keep-Alive'' @ kCRLF @ [CHR 0x00]))
            });
     b5 \<leftarrow> append_headers (res_headers r) b4;
     b6 \<leftarrow> append_piece b5 (sp_of_cstr (kCRLF @ [CHR 0x00]));
     append_piece b6 (sp_of_string (res_body r))
   }"

section \<open>HttpServer\<close>

(* src/http/HttpServer.cc:15-20 detail::defaultHttpCallback *)
definition defaultHttpCallback :: "http_request \<Rightarrow> http_response \<Rightarrow> http_response" where
  "defaultHttpCallback req r = setCloseConnection True (setStatusMessage ''Not Found'' (setStatusCode k404NotFound r))"

(* src/http/HttpServer.h:43-45 HttpServer *)
record http_server =
  tcp_server :: "tcp server"
  threadLocalContext :: "http_context thread_local"
  httpCallback :: "http_request \<Rightarrow> http_response \<Rightarrow> http_response"

(* src/http/HttpServer.cc:28-42 HttpServer::HttpServer *)
definition http_server_new :: "nat \<Rightarrow> int \<Rightarrow> int \<Rightarrow> bool \<Rightarrow> sockaddr_in \<Rightarrow> nat \<Rightarrow> http_server option" where
  "http_server_new base idle lsock bind_ok addr threadNum = do {
     s \<leftarrow> server_new base idle lsock bind_ok addr threadNum;
     Some \<lparr>tcp_server = s, threadLocalContext = tl_new, httpCallback = defaultHttpCallback\<rparr>
   }"

(* src/http/HttpServer.h:32-34 HttpServer::setHttpCallback *)
definition setHttpCallback :: "(http_request \<Rightarrow> http_response \<Rightarrow> http_response) \<Rightarrow> http_server \<Rightarrow> http_server" where
  "setHttpCallback f hs = hs\<lparr>httpCallback := f\<rparr>"

(* src/http/HttpServer.cc:48-55 HttpServer::start *)
definition http_start :: "nat \<Rightarrow> nat list \<Rightarrow> bool \<Rightarrow> http_server \<Rightarrow> http_server option" where
  "http_start cur new_loops listen_ok hs = do {
     (s, v) \<leftarrow> start_contexts context_new cur new_loops listen_ok (tcp_server hs) (threadLocalContext hs);
     Some (hs\<lparr>tcp_server := s, threadLocalContext := v\<rparr>)
   }"

definition store_context :: "nat \<Rightarrow> http_context \<Rightarrow> http_server \<Rightarrow> http_server" where
  "store_context t c hs = hs\<lparr>threadLocalContext := tl_store t c (threadLocalContext hs)\<rparr>"

definition bad_request :: string where
  "bad_request = ''HTTP/1.1 400 Bad Request'' @ kCRLF @ kCRLF"

(* src/http/HttpServer.cc:78-84 HttpServer::onMessage *)
definition http_answer :: "(http_request \<Rightarrow> http_response \<Rightarrow> http_response) \<Rightarrow> http_request \<Rightarrow> http_response" where
  "http_answer f req =
     (let connection = header ''Connection'' req;
          close = (connection = ''close'' \<or> req_version req = kHttp10)
      in f req (response_new close (req_version req)))"

text \<open>\<open>t\<close> is the thread that runs the callback; the buffer is the connection's input buffer.\<close>

(* src/http/HttpServer.cc:66-97 HttpServer::onMessage *)
definition http_onMessage :: "nat \<Rightarrow> http_server \<Rightarrow> tcp \<Rightarrow> (http_server \<times> tcp) option" where
  "http_onMessage t hs w = do {
     c \<leftarrow> tl_value t (threadLocalContext hs);
     (c1, b, ok) \<leftarrow> parseRequest c (inputBuffer w);
     let hs1 = store_context t c1 hs;
     let w1 = w\<lparr>inputBuffer := b\<rparr>;
     if \<not> ok then do {
       w2 \<leftarrow> send_piece (sp_of_cstr (bad_request @ [CHR 0x00])) w1;
       w3 \<leftarrow> conn_shutdown w2;
       Some (hs1, w3)
     } else do {
       let response = http_answer (httpCallback hs1) (request c1);
       buf \<leftarrow> appendToBuffer response buffer_new;
       (w2, buf2) \<leftarrow> send_buffer buf w1;
       w3 \<leftarrow> (if closeConnection response then conn_shutdown w2 else Some w2);
       Some (store_context t (context_reset c1) hs1, w3)
     }
   }"

section \<open>The printed response\<close>

fun res_headers_text :: "(string \<times> string) list \<Rightarrow> string" where
  "res_headers_text [] = []"
| "res_headers_text ((f, v) # hs) = f @ '': '' @ v @ kCRLF @ res_headers_text hs"

definition response_text :: "http_response \<Rightarrow> string" where
  "response_text r =
     ''HTTP/1.'' @ show_int (version_num (res_version r)) @ '' '' @ show_int (code_of (statusCode r))
     @ statusMessage r @ kCRLF
     @ (if closeConnection r then ''Connection: close'' @ kCRLF
        else take 31 (''Content-Length: '' @ show_nat (length (res_body r)) @ kCRLF) @ ''Connection: Keep-Alive'' @ kCRLF)
     @ res_headers_text (res_headers r) @ kCRLF @ res_body r"

definition appends :: "(buffer \<Rightarrow> buffer option) \<Rightarrow> string \<Rightarrow> bool" where
  "appends f s \<longleftrightarrow> (\<forall>b. buffer_inv b \<longrightarrow> (\<exists>b'. f b = Some b' \<and> buffer_inv b' \<and> content b' = content b @ s))"

lemma appends_string: "appends (\<lambda>b. append_piece b (sp_of_string s)) s"
  using append_ok by (simp add: appends_def append_piece_def sp_of_string_def sp_asString_def)

lemma c_string_nul: "CHR 0x00 \<notin> set s \<Longrightarrow> c_string (s @ CHR 0x00 # r) = s"
  by (induction s) (auto simp: c_string_def)

lemma appends_cstr: "CHR 0x00 \<notin> set s \<Longrightarrow> appends (\<lambda>b. append_piece b (sp_of_cstr (s @ [CHR 0x00]))) s"
  using append_ok by (simp add: appends_def append_piece_def sp_of_cstr_def sp_asString_def c_string_nul)

lemma appends_bind: "appends f s \<Longrightarrow> appends g t \<Longrightarrow> appends (\<lambda>b. f b \<bind> g) (s @ t)"
  unfolding appends_def by (metis (no_types, opaque_lifting) append.assoc bind.bind_lunit)

lemma appends_if: "appends f s \<Longrightarrow> appends g t \<Longrightarrow> appends (\<lambda>b. if c then f b else g b) (if c then s else t)"
  by (simp add: appends_def)

lemma no_nul: "CHR 0x00 \<notin> set (show_nat n)" "CHR 0x00 \<notin> set (show_int i)" "CHR 0x00 \<notin> set kCRLF"
  using show_nat_digits [of "CHR 0x00"] by (auto simp: show_int_def is_digit_def kCRLF_def)

lemma append_headers_text: "appends (append_headers hs) (res_headers_text hs)"
proof (induction hs)
  case Nil
  then show ?case by (simp add: appends_def)
next
  case (Cons h hs)
  obtain f v where h: "h = (f, v)" by force
  have "appends (\<lambda>b. append_piece b (sp_of_string f) \<bind> (\<lambda>b1. append_piece b1 (sp_of_cstr ('': '' @ [CHR 0x00]))
      \<bind> (\<lambda>b2. append_piece b2 (sp_of_string v) \<bind> (\<lambda>b3. append_piece b3 (sp_of_cstr (kCRLF @ [CHR 0x00]))
      \<bind> append_headers hs)))) (f @ '': '' @ v @ kCRLF @ res_headers_text hs)"
    by (intro appends_bind appends_string appends_cstr Cons.IH) (simp_all add: no_nul)
  then show ?case by (simp add: h)
qed

definition status_text :: "http_response \<Rightarrow> string" where
  "status_text r = ''HTTP/1.'' @ show_int (version_num (res_version r)) @ '' '' @ show_int (code_of (statusCode r))"

lemma length_status: "length (status_text r) \<le> 31"
proof -
  have "length (show_int (version_num v)) \<le> 2" for v
    using length_show_nat [of 1 1] length_show_nat [of 0 1] by (cases v) (simp_all add: show_int_def)
  moreover have "length (show_int (code_of c)) \<le> 3" for c
  proof -
    have "nat (code_of c) < 10 ^ 3" "0 \<le> code_of c" by (cases c; simp)+
    with length_show_nat [of "nat (code_of c)" 3] show ?thesis by (simp add: show_int_def)
  qed
  ultimately show ?thesis
    using add_mono [of "length (show_int (version_num (res_version r)))" 2 "length (show_int (code_of (statusCode r)))" 3]
    by (simp add: status_text_def)
qed

lemma status_buf_eq: "status_buf r = status_text r @ [CHR 0x00]"
  using length_status [of r] by (simp add: status_buf_def status_text_def)

lemma appendToBuffer_text: "appends (appendToBuffer r) (response_text r)"
proof -
  let ?len = "take 31 (''Content-Length: '' @ show_nat (length (res_body r)) @ kCRLF)"
  have nul: "CHR 0x00 \<notin> set (status_text r)" "CHR 0x00 \<notin> set ?len" "CHR 0x00 \<notin> set (''Connection: close'' @ kCRLF)"
    "CHR 0x00 \<notin> set (''Connection: Keep-Alive'' @ kCRLF)"
    using no_nul by (auto simp: status_text_def dest!: in_set_takeD)
  note cstr = appends_cstr [OF nul(1)] appends_cstr [OF nul(2)] appends_cstr [OF nul(3), unfolded append_assoc]
    appends_cstr [OF nul(4), unfolded append_assoc] appends_cstr [OF no_nul(3)]
  have t: "response_text r = status_text r @ (statusMessage r @ (kCRLF @
      ((if closeConnection r then ''Connection: close'' @ kCRLF else ?len @ (''Connection: Keep-Alive'' @ kCRLF))
      @ (res_headers_text (res_headers r) @ (kCRLF @ res_body r)))))"
    by (simp add: response_text_def status_text_def)
  show ?thesis
    unfolding t appendToBuffer_def status_buf_eq length_buf_def
    by (intro appends_bind appends_if appends_string append_headers_text cstr)
qed

section \<open>Answering\<close>

lemma context_reset_new: "context_reset c = context_new"
  by (cases c) (simp add: context_reset_def request_reset_def context_new_def request_new_def)

lemma shutdown_ok:
  assumes "conn_inv w" "state w = Connected"
  shows "\<exists>w'. conn_shutdown w = Some w' \<and> conn_inv w' \<and> state w' = Disconnecting \<and> stream w' = stream w
    \<and> inputBuffer w' = inputBuffer w"
proof -
  let ?w = "set_state Disconnecting w"
  have "state ?w = Disconnecting" by (simp add: set_state_def)
  from shutdownInLoop_ok [OF conn_inv_shutting [OF assms] this] obtain w' where w': "shutdownInLoop ?w = Some w'"
    "conn_inv w'" "state w' = Disconnecting" "stream w' = stream w" by (auto simp: set_state_def stream_def)
  have "inputBuffer v' = inputBuffer v" if "shutdownInLoop v = Some v'" for v v'
  proof -
    from that obtain ch :: "conn_cb channel" where "Some (if \<not> isWriting ch then v\<lparr>sock := (sock v)\<lparr>wr_shut := True\<rparr>\<rparr> else v) = Some v'"
      unfolding shutdownInLoop_def bind_Some_iff by blast
    then have "v' = (if \<not> isWriting ch then v\<lparr>sock := (sock v)\<lparr>wr_shut := True\<rparr>\<rparr> else v)" by (rule option.inject [THEN iffD1, THEN sym])
    then show ?thesis by (cases "isWriting ch") (simp_all only: if_True if_False not_True_eq_False not_False_eq_True, simp)
  qed
  from this [OF w'(1)] have "inputBuffer w' = inputBuffer w" by (simp add: set_state_def)
  moreover have "in_loop_thread w" using assms(1) by (simp add: conn_inv_def)
  ultimately show ?thesis using w' assms(2) by (simp add: conn_shutdown_def set_state_def)
qed

lemma tl_store_value [simp]: "tl_value t (threadLocalContext (store_context t c hs)) = Some c"
  by (simp add: store_context_def)

lemma store_context_simps [simp]:
  "httpCallback (store_context t c hs) = httpCallback hs"
  "store_context t c (store_context t c' hs) = store_context t c hs"
  by (simp_all add: store_context_def)

lemma onMessage_answers:
  assumes "conn_inv w" "state w = Connected" "tl_value t (threadLocalContext hs) = Some c"
    "parseRequest c (inputBuffer w) = Some (c1, b, True)" "buffer_inv b"
    "r = http_answer (httpCallback hs) (request c1)"
  shows "\<exists>w'. http_onMessage t hs w = Some (store_context t context_new hs, w') \<and> conn_inv w' \<and> inputBuffer w' = b
    \<and> stream w' = stream w @ (if epipe (response_text r) w then [] else response_text r)
    \<and> state w' = (if closeConnection r then Disconnecting else Connected)
    \<and> (\<not> closeConnection r \<longrightarrow> set (wscript (sock w')) \<subseteq> set (wscript (sock w)))"
proof -
  have il: "in_loop_thread w" using assms(1) by (simp add: conn_inv_def)
  from appendToBuffer_text [of r, unfolded appends_def, rule_format, OF buffer_new_inv] obtain buf where
    buf: "appendToBuffer r buffer_new = Some buf" "buffer_inv buf" "content buf = response_text r" by auto
  from send_reply [OF assms(1,2,5), of "response_text r"] obtain w2 where w2:
    "sendInThread (response_text r) (w\<lparr>inputBuffer := b\<rparr>) = Some w2" "conn_inv w2" "state w2 = Connected"
    "inputBuffer w2 = b" "stream w2 = stream w @ (if epipe (response_text r) w then [] else response_text r)" by blast
  have sb: "send_buffer buf (w\<lparr>inputBuffer := b\<rparr>) = Some (w2, buf)"
    using w2(1) il assms(2) buf(2,3) by (simp add: send_buffer_def readable_slice)
  note d = http_onMessage_def assms(3,4) assms(6) [symmetric] buf(1) sb context_reset_new
  show ?thesis
  proof (cases "closeConnection r")
    case True
    from shutdown_ok [OF w2(2,3)] obtain w3 where "conn_shutdown w2 = Some w3" "conn_inv w3" "state w3 = Disconnecting"
      "stream w3 = stream w2" "inputBuffer w3 = inputBuffer w2" by blast
    with True w2 show ?thesis by (simp add: d)
  next
    case False
    with w2 sendInThread_frame(2) [OF w2(1)] show ?thesis by (simp add: d)
  qed
qed

lemma onMessage_refuses:
  assumes "conn_inv w" "state w = Connected" "tl_value t (threadLocalContext hs) = Some c"
    "parseRequest c (inputBuffer w) = Some (c1, b, False)" "buffer_inv b"
  shows "\<exists>w'. http_onMessage t hs w = Some (store_context t c1 hs, w') \<and> conn_inv w' \<and> inputBuffer w' = b
    \<and> stream w' = stream w @ (if epipe bad_request w then [] else bad_request) \<and> state w' = Disconnecting"
proof -
  have il: "in_loop_thread w" using assms(1) by (simp add: conn_inv_def)
  from send_reply [OF assms(1,2,5), of bad_request] obtain w2 where w2: "sendInThread bad_request (w\<lparr>inputBuffer := b\<rparr>) = Some w2"
    "conn_inv w2" "state w2 = Connected" "inputBuffer w2 = b" "stream w2 = stream w @ (if epipe bad_request w then [] else bad_request)"
    by blast
  from shutdown_ok [OF w2(2,3)] obtain w3 where w3: "conn_shutdown w2 = Some w3" "conn_inv w3" "state w3 = Disconnecting"
    "stream w3 = stream w2" "inputBuffer w3 = inputBuffer w2" by blast
  have "CHR 0x00 \<notin> set bad_request" by (simp add: bad_request_def kCRLF_def)
  then have "sp_asString (sp_of_cstr (bad_request @ [CHR 0x00])) = Some bad_request"
    by (simp add: sp_asString_def sp_of_cstr_def c_string_nul)
  then have "send_piece (sp_of_cstr (bad_request @ [CHR 0x00])) (w\<lparr>inputBuffer := b\<rparr>) = Some w2"
    using w2(1) il assms(2) by (simp add: send_piece_def)
  with assms(4) w2 w3 show ?thesis by (simp add: http_onMessage_def assms(3))
qed

lemma request_parsed:
  assumes "conn_inv w" "content (inputBuffer w) = request_text m p v hds @ rest" "m \<noteq> kInvalid" "v \<noteq> kUnknown"
    "CHR '' '' \<notin> set p" "CHR 0x0D \<notin> set p" "\<forall>h\<in>set hds. header_ok h"
  shows "\<exists>c b. parseRequest context_new (inputBuffer w) = Some (c, b, True) \<and> buffer_inv b \<and> content b = rest
    \<and> request c = \<lparr>req_method = m, req_path = p, req_version = v, req_headers = header_map (\<lambda>_. None) hds, req_body = []\<rparr>"
proof -
  have bi: "buffer_inv (inputBuffer w)" using assms(1) by (simp add: conn_inv_def)
  let ?c = "\<lparr>pstate = kGotAll, request = \<lparr>req_method = m, req_path = p, req_version = v,
      req_headers = header_map (\<lambda>_. None) hds, req_body = []\<rparr>\<rparr>"
  have pt: "parse_text context_new (content (inputBuffer w)) = (?c, rest, True)"
    using parse_request_text [OF assms(3-7), of context_new rest] assms(2)
    by (simp add: context_new_def request_new_def)
  from parseRequest_text [OF bi _ pt] show ?thesis by (auto simp: context_new_def)
qed

section \<open>Properties\<close>

text \<open>
  A complete request is answered once: the callback's response, printed, is all that goes to the
  connection's stream; the rest of the input stays in the buffer; the thread's context is fresh for the
  next request; the connection is shut down exactly when the response says so.
\<close>
theorem http_serves_request:
  assumes "conn_inv w" "state w = Connected" "tl_value t (threadLocalContext hs) = Some context_new"
    "content (inputBuffer w) = request_text m p v hds @ rest" "m \<noteq> kInvalid" "v \<noteq> kUnknown"
    "CHR '' '' \<notin> set p" "CHR 0x0D \<notin> set p" "\<forall>h\<in>set hds. header_ok h"
    "r = http_answer (httpCallback hs) \<lparr>req_method = m, req_path = p, req_version = v,
      req_headers = header_map (\<lambda>_. None) hds, req_body = []\<rparr>" "\<not> epipe (response_text r) w"
  shows "\<exists>hs' w'. http_onMessage t hs w = Some (hs', w') \<and> stream w' = stream w @ response_text r
    \<and> content (inputBuffer w') = rest \<and> tl_value t (threadLocalContext hs') = Some context_new
    \<and> state w' = (if closeConnection r then Disconnecting else Connected) \<and> conn_inv w'"
proof -
  from request_parsed [OF assms(1,4-9)] obtain c b where b: "parseRequest context_new (inputBuffer w) = Some (c, b, True)"
    "buffer_inv b" "content b = rest" "request c = \<lparr>req_method = m, req_path = p, req_version = v,
      req_headers = header_map (\<lambda>_. None) hds, req_body = []\<rparr>" by blast
  from onMessage_answers [OF assms(1-3) b(1,2), of r] assms(10,11) b(3,4) show ?thesis by fastforce
qed

text \<open>
  A malformed request line is answered with 400 and the connection shut down; nothing is taken from
  the input and the user's callback is not called.
\<close>
theorem http_rejects_bad_request:
  assumes "conn_inv w" "state w = Connected" "tl_value t (threadLocalContext hs) = Some c" "pstate c = kExpectRequestLine"
    "content (inputBuffer w) = line @ kCRLF @ rest" "CHR 0x0D \<notin> set line" "\<not> snd (processRequestLine line c)"
    "\<not> epipe bad_request w"
  shows "\<exists>hs' w'. http_onMessage t hs w = Some (hs', w') \<and> stream w' = stream w @ bad_request \<and> state w' = Disconnecting
    \<and> content (inputBuffer w') = content (inputBuffer w) \<and> conn_inv w'"
proof -
  have bi: "buffer_inv (inputBuffer w)" using assms(1) by (simp add: conn_inv_def)
  from bad_line_refused [OF bi assms(4-7)] obtain c1 b where b: "parseRequest c (inputBuffer w) = Some (c1, b, False)"
    "buffer_inv b" "content b = content (inputBuffer w)" by blast
  from onMessage_refuses [OF assms(1-3) b(1,2)] assms(8) b(3) show ?thesis by fastforce
qed

text \<open>
  A request that has not arrived completely is answered all the same: with no line end in the input
  yet, \<open>parseRequest\<close> returns true, and \<open>onMessage\<close>, which does not ask \<open>gotAll\<close>, calls the user's
  callback with the empty request and sends its response. The bytes stay in the buffer, so that the
  request gets a second answer when the rest arrives.
\<close>
theorem http_answers_incomplete_request:
  assumes "conn_inv w" "state w = Connected" "tl_value t (threadLocalContext hs) = Some context_new"
    "search kCRLF (content (inputBuffer w)) = length (content (inputBuffer w))"
    "r = http_answer (httpCallback hs) request_new" "\<not> epipe (response_text r) w"
  shows "\<exists>hs' w'. http_onMessage t hs w = Some (hs', w') \<and> stream w' = stream w @ response_text r
    \<and> content (inputBuffer w') = content (inputBuffer w)"
proof -
  have bi: "buffer_inv (inputBuffer w)" using assms(1) by (simp add: conn_inv_def)
  have pt: "parse_text context_new (content (inputBuffer w)) = (context_new, content (inputBuffer w), True)"
    by (rule parse_text_no_line [OF assms(4)]) (simp add: context_new_def)
  from parseRequest_text [OF bi _ pt] obtain b where b: "parseRequest context_new (inputBuffer w) = Some (context_new, b, True)"
    "buffer_inv b" "content b = content (inputBuffer w)" by (auto simp: context_new_def)
  from onMessage_answers [OF assms(1-3) b(1,2), of r] assms(5,6) b(3) show ?thesis
    by (fastforce simp: context_new_def)
qed

text \<open>The status line has no space between the code and its text.\<close>

lemma status_line_without_space:
  "take 14 (response_text (setStatusMessage ''OK'' (setStatusCode k200Ok (response_new True kHttp11)))) = ''HTTP/1.1 200OK''"
  by code_simp

text \<open>
  No callback finds a null context: after \<open>start\<close>, every loop the server deals connections to
  (any number of them) has a fresh context of its own.
\<close>
theorem http_contexts_ready:
  assumes "http_server_new base idle lsock True addr n = Some hs0" "http_start base ls True hs0 = Some hs"
    "deal k (ioThreadPool (tcp_server hs)) = Some (p, dealt)" "t \<in> set dealt"
  shows "tl_value t (threadLocalContext hs) = Some context_new"
proof -
  from assms(1) obtain s0 where n: "server_new base idle lsock True addr n = Some s0"
    and s0: "hs0 = \<lparr>tcp_server = s0, threadLocalContext = tl_new, httpCallback = defaultHttpCallback\<rparr>"
    by (auto simp: http_server_new_def bind_Some_iff)
  from assms(2) obtain s v where s: "start_contexts context_new base ls True s0 tl_new = Some (s, v)"
    "tcp_server hs = s" "threadLocalContext hs = v"
    by (auto simp: http_start_def s0 bind_Some_iff)
  with start_contexts_ready [OF n s(1) _ assms(4)] assms(3) show ?thesis by simp
qed

definition sample_http :: http_server where
  "sample_http = \<lparr>tcp_server = sample_server, threadLocalContext = tl_initValue 7 context_new tl_new,
     httpCallback = defaultHttpCallback\<rparr>"

lemma sample_http_context: "tl_value 7 (threadLocalContext sample_http) = Some context_new"
  by (simp add: sample_http_def tl_value_def tl_initValue_def)

theorem http_serves_request_witness:
  "\<exists>w hs' w'. content (inputBuffer w) = sample_request @ ''GET'' \<and> http_onMessage 7 sample_http w = Some (hs', w')
    \<and> content (inputBuffer w') = ''GET'' \<and> state w' = Disconnecting"
proof -
  from sample_input [of "sample_request @ ''GET''"] obtain w where w: "conn_inv w" "state w = Connected"
    "content (inputBuffer w) = sample_request @ ''GET''" "\<And>r. \<not> epipe r w" by blast
  have f: "closeConnection (http_answer (httpCallback sample_http) q)" for q
    by (simp add: http_answer_def sample_http_def defaultHttpCallback_def setCloseConnection_def)
  from http_serves_request [OF w(1,2) sample_http_context w(3) [unfolded sample_request_def] _ _ _ _ sample_request_ok refl w(4)]
  show ?thesis using w(3) f by auto
qed

theorem http_rejects_bad_request_witness:
  "\<exists>w hs' w'. content (inputBuffer w) = ''GET/ HTTP/1.1'' @ kCRLF \<and> http_onMessage 7 sample_http w = Some (hs', w')
    \<and> stream w' = bad_request \<and> state w' = Disconnecting"
proof -
  from sample_input [of "''GET/ HTTP/1.1'' @ kCRLF"] obtain w where w: "conn_inv w" "state w = Connected"
    "content (inputBuffer w) = ''GET/ HTTP/1.1'' @ kCRLF @ []" "stream w = []" "\<And>r. \<not> epipe r w" by auto
  have c: "pstate context_new = kExpectRequestLine" by (simp add: context_new_def)
  have b: "\<not> snd (processRequestLine ''GET/ HTTP/1.1'' context_new)"
    by (simp add: processRequestLine_def setMethod_def)
  from http_rejects_bad_request [OF w(1,2) sample_http_context c w(3) _ b w(5)] w(3,4) show ?thesis by auto
qed

theorem http_answers_incomplete_request_witness:
  "\<exists>w hs' w'. content (inputBuffer w) = ''GET / HT'' \<and> http_onMessage 7 sample_http w = Some (hs', w')
    \<and> stream w' = response_text (http_answer defaultHttpCallback request_new)"
proof -
  from sample_input [of "''GET / HT''"] obtain w where w: "conn_inv w" "state w = Connected"
    "content (inputBuffer w) = ''GET / HT''" "stream w = []" "\<And>r. \<not> epipe r w" by auto
  have "search kCRLF (content (inputBuffer w)) = length (content (inputBuffer w))"
    by (simp add: w(3) kCRLF_def is_prefix_def)
  from http_answers_incomplete_request [OF w(1,2) sample_http_context this refl w(5)] w(3,4) show ?thesis
    by (auto simp: sample_http_def)
qed

theorem http_contexts_ready_witness:
  "tl_value 7 (fold (\<lambda>t. tl_initValue t context_new) [7, 8] tl_new) = Some context_new"
proof -
  let ?hs0 = "\<lparr>tcp_server = open_fd 3 (open_fd 4 \<lparr>srv_started = False, baseLoop = 0, idleFd = 3, listenSock = 4,
     accept_reading = False, hostIpPort = toIpPort (inet_any 80), ioThreadPool = loop_pool_new 0 2, nextConnId = 0,
     connectionMap = [], srv_deleted = False, open_fds = {}, conns = (\<lambda>_. None), nconns = 0, queues = (\<lambda>_. []),
     finished = []\<rparr>), threadLocalContext = tl_new, httpCallback = defaultHttpCallback\<rparr>"
  let ?p = "(loop_pool_new 0 2)\<lparr>loops := [7, 8], lp_init_calls := [7, 8], lp_started := True\<rparr>"
  have n: "http_server_new 0 3 4 True (inet_any 80) 2 = Some ?hs0"
    by (simp add: http_server_new_def server_new_def abort_simps)
  obtain hs where hs: "http_start 0 [7, 8] True ?hs0 = Some hs" "ioThreadPool (tcp_server hs) = ?p"
    "threadLocalContext hs = fold (\<lambda>t. tl_initValue t context_new) [7, 8] tl_new"
    by (simp add: http_start_def start_contexts_def server_start_def open_fd_def abort_simps loop_pool_start_def loop_pool_new_def Let_def)
  have "\<exists>p. deal 1 ?p = Some (p, [7])" by (simp add: getNextLoop_def loop_pool_new_def abort_simps)
  then obtain p where "deal 1 (ioThreadPool (tcp_server hs)) = Some (p, [7])" using hs(2) by auto
  from http_contexts_ready [OF n hs(1) this, of 7] hs(3) show ?thesis by simp
qed

end
