(* ===== verification/HttpSession.thy ===== *)
theory HttpSession
  imports HttpServer
begin

text \<open>
  An HTTP connection over several requests, each delivered whole: the order of the answers and the end
  of the conversation.
\<close>

record http_req =
  hq_method :: http_method
  hq_path :: string
  hq_version :: http_version
  hq_headers :: "(string \<times> string) list"

definition hq_text :: "http_req \<Rightarrow> string" where
  "hq_text q = request_text (hq_method q) (hq_path q) (hq_version q) (hq_headers q)"

text \<open>The request object the user's callback gets.\<close>

definition hq_request :: "http_req \<Rightarrow> http_request" where
  "hq_request q = \<lparr>req_method = hq_method q, req_path = hq_path q, req_version = hq_version q,
     req_headers = header_map (\<lambda>_. None) (hq_headers q), req_body = []\<rparr>"

definition hq_ok :: "http_req \<Rightarrow> bool" where
  "hq_ok q \<longleftrightarrow> hq_method q \<noteq> kInvalid \<and> hq_version q \<noteq> kUnknown \<and> CHR '' '' \<notin> set (hq_path q) \<and> CHR 0x0D \<notin> set (hq_path q)
     \<and> (\<forall>h\<in>set (hq_headers q). header_ok h) \<and> length (hq_text q) \<le> extrabuf_size"

text \<open>The messages that arrive, one after the other, in thread \<open>t\<close>.\<close>

fun http_session :: "nat \<Rightarrow> string list \<Rightarrow> http_server \<Rightarrow> tcp \<Rightarrow> (http_server \<times> tcp) option" where
  "http_session t [] hs w = Some (hs, w)"
| "http_session t (m # ms) hs w = do {
     w1 \<leftarrow> deliver m w;
     (hs1, w2) \<leftarrow> http_onMessage t hs w1;
     http_session t ms hs1 w2
   }"

text \<open>What is answered: up to the first response that closes the connection.\<close>

fun until_close :: "http_response list \<Rightarrow> http_response list" where
  "until_close [] = []"
| "until_close (r # rs) = r # (if closeConnection r then [] else until_close rs)"

definition answers :: "(http_request \<Rightarrow> http_response \<Rightarrow> http_response) \<Rightarrow> http_req list \<Rightarrow> http_response list" where
  "answers f qs = map (\<lambda>q. http_answer f (hq_request q)) qs"

lemma answers_Cons: "answers f (q # qs) = http_answer f (hq_request q) # answers f qs"
  by (simp add: answers_def)

text \<open>Between requests: nothing unread, a fresh context, and while connected the peer is there.\<close>

definition between :: "nat \<Rightarrow> http_server \<Rightarrow> tcp \<Rightarrow> bool" where
  "between t hs w \<longleftrightarrow> conn_inv w \<and> (state w = Connected \<and> peer_stays w \<or> state w = Disconnecting)
     \<and> content (inputBuffer w) = [] \<and> tl_value t (threadLocalContext hs) = Some context_new"

text \<open>While the connection is being shut down a request is read and answered to nobody.\<close>

lemma onMessage_closing:
  assumes "state w = Disconnecting" "tl_value t (threadLocalContext hs) = Some c"
    "parseRequest c (inputBuffer w) = Some (c1, b, True)"
  shows "http_onMessage t hs w = Some (store_context t context_new hs, w\<lparr>inputBuffer := b\<rparr>)"
proof -
  obtain buf where "appendToBuffer (http_answer (httpCallback hs) (request c1)) buffer_new = Some buf"
    using appendToBuffer_text [unfolded appends_def, rule_format, OF buffer_new_inv] by blast
  with assms show ?thesis
    by (simp add: http_onMessage_def send_buffer_def conn_shutdown_def context_reset_new Let_def)
qed

lemma session_step:
  assumes b: "between t hs w" and q: "hq_ok q"
  shows "\<exists>hs' w1 w'. deliver (hq_text q) w = Some w1 \<and> http_onMessage t hs w1 = Some (hs', w') \<and> between t hs' w'
    \<and> httpCallback hs' = httpCallback hs
    \<and> (if state w = Connected
       then stream w' = stream w @ response_text (http_answer (httpCallback hs) (hq_request q))
         \<and> state w' = (if closeConnection (http_answer (httpCallback hs) (hq_request q)) then Disconnecting else Connected)
       else stream w' = stream w \<and> state w' = Disconnecting)"
proof -
  let ?r = "http_answer (httpCallback hs) (hq_request q)"
  note bt = b [unfolded between_def]
  have w: "conn_inv w" "content (inputBuffer w) = []" and c: "tl_value t (threadLocalContext hs) = Some context_new"
    using bt by blast+
  have len: "length (hq_text q) \<le> extrabuf_size" using q by (simp add: hq_ok_def)
  from deliver_ok [OF w(1) len] w(2) obtain w1 where w1: "deliver (hq_text q) w = Some w1" "conn_inv w1" "state w1 = state w"
    "content (inputBuffer w1) = hq_text q @ []" "stream w1 = stream w" "sock w1 = sock w" by auto
  from request_parsed [OF w1(2) w1(4) [unfolded hq_text_def]] q obtain c1 bf where p:
    "parseRequest context_new (inputBuffer w1) = Some (c1, bf, True)" "buffer_inv bf" "content bf = []" "request c1 = hq_request q"
    unfolding hq_ok_def hq_request_def by blast
  show ?thesis
  proof (cases "state w = Connected")
    case True
    then have conn: "state w1 = Connected" "peer_stays w1" using bt w1(3,6) by (auto simp: peer_stays_def)
    then have "\<not> wr_shut (sock w1)" using w1(2) by (auto simp: conn_inv_def)
    then have "\<not> epipe (response_text ?r) w1" by (rule peer_stays_epipe [OF conn(2)])
    with onMessage_answers [OF w1(2) conn(1) c p(1,2) refl] p(4) obtain w' where
      w': "http_onMessage t hs w1 = Some (store_context t context_new hs, w')" "conn_inv w'" "inputBuffer w' = bf"
      "stream w' = stream w1 @ response_text ?r" "state w' = (if closeConnection ?r then Disconnecting else Connected)"
      "\<not> closeConnection ?r \<longrightarrow> set (wscript (sock w')) \<subseteq> set (wscript (sock w1))" by auto
    have "between t (store_context t context_new hs) w'"
      using w' p(3) conn(2) by (auto simp: between_def peer_stays_def)
    with w1 w' True show ?thesis by auto
  next
    case False
    then have cl: "state w1 = Disconnecting" using bt w1(3) by auto
    from onMessage_closing [OF cl c p(1)] have
      "http_onMessage t hs w1 = Some (store_context t context_new hs, w1\<lparr>inputBuffer := bf\<rparr>)" .
    moreover have "between t (store_context t context_new hs) (w1\<lparr>inputBuffer := bf\<rparr>)"
      using cl p(3) conn_inv_input [OF w1(2) p(2)] by (simp add: between_def)
    ultimately show ?thesis using w1 cl False by (auto simp: stream_def)
  qed
qed

lemma session_run:
  assumes "between t hs w" "\<forall>q\<in>set qs. hq_ok q"
  shows "\<exists>hs' w'. http_session t (map hq_text qs) hs w = Some (hs', w') \<and> between t hs' w' \<and> httpCallback hs' = httpCallback hs
      \<and> stream w' = stream w @ (if state w = Connected then concat (map response_text (until_close (answers (httpCallback hs) qs))) else [])
      \<and> (state w' = Connected \<longleftrightarrow> state w = Connected \<and> (\<forall>r\<in>set (answers (httpCallback hs) qs). \<not> closeConnection r))"
  using assms
proof (induction qs arbitrary: hs w)
  case (Cons q qs)
  let ?r = "http_answer (httpCallback hs) (hq_request q)"
  from session_step [OF Cons.prems(1)] Cons.prems(2) obtain hs1 w1 w2 where s: "deliver (hq_text q) w = Some w1"
    "http_onMessage t hs w1 = Some (hs1, w2)" "between t hs1 w2" "httpCallback hs1 = httpCallback hs"
    "if state w = Connected then stream w2 = stream w @ response_text ?r
       \<and> state w2 = (if closeConnection ?r then Disconnecting else Connected)
     else stream w2 = stream w \<and> state w2 = Disconnecting" by (auto simp del: if_split) (metis)
  from Cons.IH [OF s(3)] Cons.prems(2) obtain hs' w' where ih: "http_session t (map hq_text qs) hs1 w2 = Some (hs', w')" "between t hs' w'" "httpCallback hs' = httpCallback hs"
    "stream w' = stream w2 @ (if state w2 = Connected then concat (map response_text (until_close (answers (httpCallback hs) qs))) else [])"
    "state w' = Connected \<longleftrightarrow> state w2 = Connected \<and> (\<forall>r\<in>set (answers (httpCallback hs) qs). \<not> closeConnection r)"
    unfolding s(4) by auto
  show ?case using s ih by (cases "state w = Connected"; cases "closeConnection ?r") (simp_all add: answers_Cons)
qed (simp add: answers_def)



end
