(* ===== verification/HttpTraffic.thy ===== *)
theory HttpTraffic
  imports HttpSession
begin

text \<open>
  The connections of one thread share one parser. Any bytes, in any pieces and in any interleaving of
  the connections, are answered without stopping the server; but what one connection leaves in the
  parser can reach another.
\<close>

text \<open>Messages with the number of the connection they arrive on.\<close>

fun http_traffic :: "nat \<Rightarrow> (nat \<times> string) list \<Rightarrow> http_server \<Rightarrow> (nat \<Rightarrow> tcp) \<Rightarrow> (http_server \<times> (nat \<Rightarrow> tcp)) option" where
  "http_traffic t [] hs ws = Some (hs, ws)"
| "http_traffic t ((i, m) # ms) hs ws = do {
     w1 \<leftarrow> deliver m (ws i);
     (hs1, w2) \<leftarrow> http_onMessage t hs w1;
     http_traffic t ms hs1 (ws(i := w2))
   }"

definition conn_alive :: "tcp \<Rightarrow> bool" where
  "conn_alive w \<longleftrightarrow> conn_inv w \<and> (state w = Connected \<or> state w = Disconnecting)"

definition parser_idle :: "nat \<Rightarrow> http_server \<Rightarrow> bool" where
  "parser_idle t hs \<longleftrightarrow> (\<exists>c. tl_value t (threadLocalContext hs) = Some c \<and> pstate c = kExpectRequestLine)"

section \<open>One message\<close>

lemma parse_text_refused: "parse_text c s = (c', r, False) \<Longrightarrow> pstate c' = kExpectRequestLine"
proof (induction c s rule: parse_text.induct)
  case (1 c s)
  note step = parse_text.simps [of c s]
  show ?case
  proof (cases "pstate c")
    case kExpectRequestLine
    obtain c1 ok where p: "processRequestLine (take (search kCRLF s) s) c = (c1, ok)" by fastforce
    with processRequestLine_state [of "take (search kCRLF s) s" c] kExpectRequestLine
    have "pstate c1 = kExpectRequestLine" by simp
    then show ?thesis
      using 1(1) [OF refl refl refl kExpectRequestLine] 1(4) p kExpectRequestLine
      by (cases ok) (simp_all add: step Let_def split: if_splits)
  next
    case kExpectHeaders
    then show ?thesis
      using 1(2,3) [OF refl refl refl kExpectHeaders] 1(4) by (simp add: step Let_def split: if_splits)
  qed (use 1(4) in \<open>simp_all add: step Let_def\<close>)
qed

lemma onMessage_total:
  assumes w: "conn_alive w" and c: "parser_idle t hs"
  shows "\<exists>hs' w'. http_onMessage t hs w = Some (hs', w') \<and> conn_alive w' \<and> parser_idle t hs' \<and> (\<exists>r. stream w' = stream w @ r)"
proof -
  have inv: "conn_inv w" "buffer_inv (inputBuffer w)" using w by (simp_all add: conn_alive_def conn_inv_def)
  obtain c where c: "tl_value t (threadLocalContext hs) = Some c" "pstate c = kExpectRequestLine"
    using c by (auto simp: parser_idle_def)
  obtain c1 rest ok where pt: "parse_text c (content (inputBuffer w)) = (c1, rest, ok)" by (metis prod_cases3)
  have "pstate c \<noteq> kGotAll" using c(2) by simp
  from parseRequest_text [OF inv(2) this pt] obtain b where b: "parseRequest c (inputBuffer w) = Some (c1, b, ok)" "buffer_inv b"
    by blast
  have idle: "parser_idle t (store_context t context_new hs)" "\<not> ok \<Longrightarrow> parser_idle t (store_context t c1 hs)"
    using parse_text_refused [of c "content (inputBuffer w)" c1 rest] pt by (simp_all add: parser_idle_def context_new_def)
  show ?thesis
  proof (cases "state w = Connected")
    case True
    show ?thesis
    proof (cases ok)
      case ok: True
      then have "parseRequest c (inputBuffer w) = Some (c1, b, True)" using b(1) by simp
      from onMessage_answers [OF inv(1) True c(1) this b(2) refl] idle(1) show ?thesis
        by (auto simp: conn_alive_def split: if_splits)
    next
      case False
      from onMessage_refuses [OF inv(1) True c(1) _ b(2)] b(1) False idle(2) show ?thesis
        by (auto simp: conn_alive_def)
    qed
  next
    case False
    then have cl: "state w = Disconnecting" using w by (simp add: conn_alive_def)
    have al: "conn_alive (w\<lparr>inputBuffer := b\<rparr>)" "stream (w\<lparr>inputBuffer := b\<rparr>) = stream w @ []"
      using conn_inv_input [OF inv(1) b(2)] cl by (simp_all add: conn_alive_def stream_def)
    show ?thesis
    proof (cases ok)
      case True
      then have "parseRequest c (inputBuffer w) = Some (c1, b, True)" using b(1) by simp
      from onMessage_closing [OF cl c(1) this] al idle(1) show ?thesis by blast
    next
      case False
      then have "http_onMessage t hs w = Some (store_context t c1 hs, w\<lparr>inputBuffer := b\<rparr>)"
        using b(1) c(1) cl by (simp add: http_onMessage_def send_piece_def conn_shutdown_def)
      with al idle(2) False show ?thesis by blast
    qed
  qed
qed

section \<open>Any input\<close>

text \<open>
  C14. No input stops the HTTP server: whatever arrives on the connections of a thread, in whatever pieces
  and order, every message is handled to its end; the connections stay intact, what had been sent on
  them stays sent, and connections on which nothing arrives are not touched.
\<close>
theorem http_any_input:
  assumes "\<forall>i. conn_alive (ws i)" "parser_idle t hs" "\<forall>(i, m) \<in> set ms. length m \<le> extrabuf_size"
  shows "\<exists>hs' ws'. http_traffic t ms hs ws = Some (hs', ws') \<and> parser_idle t hs'
    \<and> (\<forall>i. conn_alive (ws' i) \<and> (\<exists>r. stream (ws' i) = stream (ws i) @ r) \<and> (i \<notin> fst ` set ms \<longrightarrow> ws' i = ws i))"
  using assms
proof (induction ms arbitrary: hs ws)
  case (Cons im ms)
  obtain i m where im: "im = (i, m)" by force
  have w: "conn_alive (ws i)" "length m \<le> extrabuf_size" using Cons.prems(1,3) im by auto
  then obtain w1 where w1: "deliver m (ws i) = Some w1" "conn_alive w1" "stream w1 = stream (ws i)"
    using deliver_ok [of "ws i" m] by (auto simp: conn_alive_def)
  from onMessage_total [OF w1(2) Cons.prems(2)] obtain hs1 w2 r where w2: "http_onMessage t hs w1 = Some (hs1, w2)" "conn_alive w2"
    "parser_idle t hs1" "stream w2 = stream w1 @ r" by blast
  have "\<forall>j. conn_alive ((ws(i := w2)) j)" "\<forall>(i, m) \<in> set ms. length m \<le> extrabuf_size" using Cons.prems(1,3) w2(2) by simp_all
  from Cons.IH [OF this(1) w2(3) this(2)] obtain hs' ws' where ih: "http_traffic t ms hs1 (ws(i := w2)) = Some (hs', ws')"
    "parser_idle t hs'" and ws': "\<forall>j. conn_alive (ws' j) \<and> (\<exists>r. stream (ws' j) = stream ((ws(i := w2)) j) @ r)
      \<and> (j \<notin> fst ` set ms \<longrightarrow> ws' j = (ws(i := w2)) j)" by blast
  have "conn_alive (ws' j) \<and> (\<exists>r. stream (ws' j) = stream (ws j) @ r) \<and> (j \<notin> fst ` set (im # ms) \<longrightarrow> ws' j = ws j)" for j
    using ws' [rule_format, of j] w1(3) w2(4) by (cases "j = i") (auto simp: im)
  with ih w1(1) w2(1) show ?case by (auto simp: im)
qed simp

section \<open>A leak\<close>

text \<open>
  The parser is not reset after a request it refuses. A connection of the same thread that has sent
  one byte is then answered for the method and the path of the refused request.
\<close>
theorem http_refused_request_leaks:
  assumes "conn_inv (ws a)" "state (ws a) = Connected" "content (inputBuffer (ws a)) = []"
    "conn_inv (ws b)" "state (ws b) = Connected" "content (inputBuffer (ws b)) = []" "a \<noteq> b"
    "tl_value t (threadLocalContext hs) = Some context_new" "CHR '' '' \<notin> set p" "CHR 0x0D \<notin> set p" "length p < 1000"
    "r = http_answer (httpCallback hs) \<lparr>req_method = kGet, req_path = p, req_version = kUnknown, req_headers = (\<lambda>_. None), req_body = []\<rparr>"
    "\<not> epipe (response_text r) (ws b)"
  shows "\<exists>hs' ws'. http_traffic t [(a, ''GET '' @ p @ '' HTTP/2.0'' @ kCRLF), (b, ''x'')] hs ws = Some (hs', ws')
    \<and> stream (ws' b) = stream (ws b) @ response_text r"
proof -
  let ?line = "''GET '' @ p @ '' HTTP/2.0''" and ?req = "\<lparr>req_method = kGet, req_path = p, req_version = kUnknown, req_headers = (\<lambda>_. None), req_body = []\<rparr>"
  let ?c = "\<lparr>pstate = kExpectRequestLine, request = ?req\<rparr>"
  have cr: "CHR 0x0D \<notin> set ?line" using assms(10) by simp
  have n: "search kCRLF (?line @ kCRLF) = length ?line" using search_line [OF cr, of "[]"] by simp
  have ne: "search kCRLF (?line @ kCRLF) \<noteq> length (?line @ kCRLF)" unfolding n by (simp add: kCRLF_def)
  have pr: "processRequestLine ?line context_new = (?c, False)"
    using assms(9) by (simp add: processRequestLine_def context_new_def request_new_def setMethod_def setPath_def find_char_append Let_def)
  have pt: "parse_text context_new (?line @ kCRLF) = (?c, ?line @ kCRLF, False)"
    using parse_text_line(1) [OF ne, of context_new ?c False] pr n by (simp add: context_new_def)
  obtain w1 where w1: "deliver (?line @ kCRLF) (ws a) = Some w1" "conn_inv w1" "state w1 = Connected"
    "content (inputBuffer w1) = ?line @ kCRLF"
    using deliver_ok [OF assms(1), of "?line @ kCRLF"] assms(2,3,11) by (auto simp: extrabuf_size_def kCRLF_def)
  have bi: "buffer_inv (inputBuffer w1)" using w1(2) by (simp add: conn_inv_def)
  obtain b1 where b1: "parseRequest context_new (inputBuffer w1) = Some (?c, b1, False)" "buffer_inv b1"
    using parseRequest_text [OF bi, of context_new ?c "?line @ kCRLF" False] pt w1(4) by (auto simp: context_new_def)
  from onMessage_refuses [OF w1(2,3) assms(8) b1] obtain w2 where
    w2: "http_onMessage t hs w1 = Some (store_context t ?c hs, w2)" by blast
  obtain v1 where v1: "deliver ''x'' (ws b) = Some v1" "conn_inv v1" "state v1 = Connected" "content (inputBuffer v1) = ''x''"
    "stream v1 = stream (ws b)" "\<And>r. epipe r v1 = epipe r (ws b)"
    using deliver_ok [OF assms(4), of "''x''"] assms(5,6) by (auto simp: extrabuf_size_def)
  have bv: "buffer_inv (inputBuffer v1)" using v1(2) by (simp add: conn_inv_def)
  have "parse_text ?c ''x'' = (?c, ''x'', True)"
    by (rule parse_text_no_line) (simp_all add: kCRLF_def is_prefix_def)
  then obtain b2 where b2: "parseRequest ?c (inputBuffer v1) = Some (?c, b2, True)" "buffer_inv b2"
    using parseRequest_text [OF bv, of ?c ?c "''x''" True] v1(4) by auto
  from onMessage_answers [OF v1(2,3) _ b2, of t "store_context t ?c hs" r] assms(12,13) v1(5,6) obtain hs' v2 where
    v2: "http_onMessage t (store_context t ?c hs) v1 = Some (hs', v2)" "stream v2 = stream (ws b) @ response_text r" by auto
  show ?thesis using w1(1) w2 v1(1) v2 assms(7) by simp
qed

section \<open>Examples\<close>

lemma sample_alive: "conn_alive (sample_tcp Connected)" "parser_idle 7 sample_http"
  using sample_tcp_inv [of Connected] sample_http_context
  by (simp_all add: conn_alive_def sample_tcp_def parser_idle_def context_new_def)

theorem http_any_input_witness:
  "\<exists>hs' ws'. http_traffic 7 [(1, ''GE''), (2, kCRLF), (1, ''T / HTTP/1.1''), (1, kCRLF)] sample_http (\<lambda>i. sample_tcp Connected)
    = Some (hs', ws') \<and> conn_alive (ws' 1)"
  using http_any_input [of "\<lambda>i. sample_tcp Connected" 7 sample_http "[(1, ''GE''), (2, kCRLF), (1, ''T / HTTP/1.1''), (1, kCRLF)]"]
    sample_alive by (auto simp: extrabuf_size_def kCRLF_def)

theorem http_refused_request_leaks_witness:
  "\<exists>hs' ws'. http_traffic 7 [(1, ''GET '' @ ''/secret'' @ '' HTTP/2.0'' @ kCRLF), (2, ''x'')]
      (setHttpCallback (\<lambda>q r. setBody (req_path q) r) sample_http) (\<lambda>i. sample_tcp Connected) = Some (hs', ws')
    \<and> stream (ws' 2) = response_text (setBody ''/secret'' (response_new False kUnknown))"
proof -
  let ?w = "sample_tcp Connected"
  have w: "conn_inv ?w" "state ?w = Connected" "content (inputBuffer ?w) = []" "stream ?w = []" "\<not> epipe r ?w" for r
    using sample_tcp_inv [of Connected] by (simp_all add: sample_tcp_def stream_def epipe_def kwrite_def)
  have c: "tl_value 7 (threadLocalContext (setHttpCallback (\<lambda>q r. setBody (req_path q) r) sample_http)) = Some context_new"
    using sample_http_context by (simp add: setHttpCallback_def)
  have "CHR '' '' \<notin> set ''/secret''" "CHR 0x0D \<notin> set ''/secret''" "length ''/secret'' < 1000" by simp_all
  from http_refused_request_leaks [of "\<lambda>i. ?w" 1 2, OF w(1,2,3,1,2,3) _ c this refl w(5)] w(4) show ?thesis
    by (auto simp: http_answer_def setHttpCallback_def header_def)
qed

end
