(* ===== verification/TimeServer.thy ===== *)
theory TimeServer
  imports HttpSession Timestamp
begin

text \<open>
  The HTTP server of \<open>http/HttpServer_test.cc\<close>: the callback \<open>onRequest\<close>, and the bytes its clients get.
\<close>

section \<open>The callback\<close>

text \<open>
  What the callback gets from outside: the time, the memory of its array \<open>buf\<close> before it is written, and
  the results of \<open>open\<close> and of the calls of \<open>read\<close> on the file.
\<close>

record page_env =
  pe_localtime :: "int \<Rightarrow> tm"
  pe_now :: timestamp
  pe_buf :: string
  pe_fd :: int
  pe_chunks :: "string list"

text \<open>
  \<open>fileContent += buf\<close> takes \<open>buf\<close> for a C string: it appends what the array holds up to its first NUL,
  whether \<open>read\<close> has put it there or not, and reads beyond the array when it holds none.
\<close>

(* src/http/HttpServer_test.cc:61-63 onRequest *)
fun read_page :: "string \<Rightarrow> string list \<Rightarrow> string \<Rightarrow> string option" where
  "read_page buf [] fileContent = Some fileContent"
| "read_page buf (chunk # cs) fileContent =
     (if chunk = [] then Some fileContent
      else let buf1 = overwrite 0 chunk buf
        in if CHR 0x00 \<in> set buf1 then read_page buf1 cs (fileContent @ c_string buf1) else None)"

(* src/http/HttpServer_test.cc:85-156 favicon *)
definition favicon :: string where
  "favicon = map (char_of :: nat \<Rightarrow> char) [
    137, 80, 78, 71, 13, 10, 26, 10, 0, 0, 0, 13, 73, 72, 68, 82, 0, 0, 0, 16,
    0, 0, 0, 16, 8, 6, 0, 0, 0, 31, 243, 255, 97, 0, 0, 0, 25, 116, 69, 88,
    116, 83, 111, 102, 116, 119, 97, 114, 101, 0, 65, 100, 111, 98, 101, 32, 73, 109, 97, 103,
    101, 82, 101, 97, 100, 121, 113, 201, 101, 60, 0, 0, 1, 205, 73, 68, 65, 84, 120, 218,
    148, 147, 57, 72, 3, 65, 20, 134, 255, 93, 98, 167, 4, 82, 196, 109, 34, 30, 160, 70,
    36, 8, 22, 22, 118, 10, 54, 186, 74, 154, 128, 8, 65, 180, 113, 133, 88, 137, 71, 176,
    73, 169, 81, 36, 205, 166, 8, 164, 72, 99, 145, 66, 11, 175, 86, 193, 70, 180, 21, 207,
    34, 88, 152, 11, 84, 72, 138, 100, 147, 141, 251, 70, 103, 201, 26, 20, 125, 240, 102, 118,
    102, 223, 124, 239, 231, 103, 70, 168, 213, 106, 72, 36, 18, 42, 0, 5, 191, 71, 212, 239,
    247, 47, 54, 236, 18, 32, 30, 143, 215, 170, 213, 234, 175, 73, 53, 70, 170, 84, 95, 159,
    34, 65, 42, 149, 10, 131, 229, 114, 57, 100, 179, 89, 150, 153, 76, 6, 233, 116, 154, 37,
    133, 44, 203, 84, 167, 196, 98, 49, 181, 94, 0, 3, 104, 154, 198, 22, 130, 32, 88, 82,
    20, 69, 54, 83, 148, 203, 101, 120, 189, 94, 170, 85, 84, 35, 76, 192, 224, 226, 193, 143,
    0, 158, 188, 9, 65, 124, 62, 31, 131, 68, 34, 17, 213, 84, 64, 63, 56, 128, 119, 229,
    51, 7, 184, 92, 46, 72, 146, 4, 135, 195, 129, 64, 32, 64, 103, 152, 233, 54, 26, 166,
    103, 21, 4, 227, 215, 200, 189, 21, 225, 105, 183, 67, 171, 234, 120, 47, 106, 88, 146, 187,
    24, 32, 159, 207, 51, 195, 184, 233, 78, 167, 211, 108, 74, 0, 105, 54, 124, 142, 225, 254,
    86, 132, 231, 60, 159, 114, 43, 58, 66, 123, 55, 102, 119, 174, 142, 14, 243, 189, 82, 169,
    100, 2, 66, 175, 133, 50, 102, 70, 186, 12, 217, 159, 29, 154, 108, 34, 230, 199, 58, 44,
    128, 239, 193, 21, 144, 7, 147, 162, 40, 160, 83, 106, 177, 184, 223, 41, 53, 67, 14, 63,
    88, 252, 152, 218, 121, 106, 80, 64, 0, 135, 174, 27, 23, 66, 180, 58, 63, 190, 121, 199,
    10, 38, 182, 238, 217, 154, 96, 20, 147, 219, 143, 13, 10, 46, 233, 35, 149, 41, 88, 0,
    39, 235, 110, 86, 112, 188, 214, 203, 214, 71, 171, 61, 108, 125, 184, 210, 221, 160, 96, 131,
    186, 239, 95, 164, 234, 204, 2, 78, 174, 94, 112, 26, 236, 179, 64, 57, 172, 254, 242, 145,
    137, 103, 145, 133, 33, 168, 135, 183, 88, 126, 126, 133, 187, 205, 78, 78, 98, 116, 64, 250,
    147, 137, 236, 30, 236, 134, 2, 72, 38, 147, 208, 117, 29, 127, 9, 50, 149, 191, 31, 219,
    215, 99, 138, 26, 247, 92, 193, 255, 34, 74, 195, 135, 0, 3, 0, 75, 187, 248, 214, 42,
    118, 152, 73, 0, 0, 0, 0, 73, 69, 78, 68, 174, 66, 96, 130]"

definition server_name :: string where
  "server_name = ''lfp'' @ [CHR 0x27] @ ''s HttpServer''"

(* src/http/HttpServer_test.cc:18-73 onRequest *)
definition onRequest :: "page_env \<Rightarrow> http_request \<Rightarrow> http_response \<Rightarrow> http_response option" where
  "onRequest e req response =
     (if req_path req = ''/'' then
        let r = setStatusCode k200Ok response;
            r = setStatusMessage ''OK'' r;
            r = setContentType ''text/html'' r;
            r = addResHeader ''Server'' server_name r;
            now = toFormattedString (pe_localtime e) (pe_now e) True
        in Some (setBody (''<html><head><title>This is a time server</title></head>'' @
             ''<body><h1>Hello</h1>Now is '' @ now @ ''</body></html>'') r)
      else if req_path req = ''/image'' then
        let r = setStatusCode k200Ok response;
            r = setStatusMessage ''OK'' r;
            r = setContentType ''image/png'' r;
            r = addResHeader ''Server'' server_name r
        in Some (setBody favicon r)
      else if req_path req = ''/html'' then do {
        let r = setStatusCode k200Ok response;
        let r = setStatusMessage ''OK'' r;
        let r = setContentType ''text/html'' r;
        let r = addResHeader ''Server'' server_name r;
        fileContent \<leftarrow> (if pe_fd e > 0 then read_page (pe_buf e) (pe_chunks e) [] else Some []);
        Some (setBody fileContent r)
      } else
        Some (setCloseConnection True (setStatusMessage ''Not Found'' (setStatusCode k404NotFound response))))"

text \<open>The callback of the server; where it reads beyond its array there is no answer to speak of.\<close>

definition time_server :: "page_env \<Rightarrow> http_request \<Rightarrow> http_response \<Rightarrow> http_response" where
  "time_server e q r = (case onRequest e q r of Some r' \<Rightarrow> r' | None \<Rightarrow> r)"

section \<open>The page read from a file\<close>

text \<open>
  A file of more bytes than the array has makes the callback read beyond it, unless the file has a NUL
  byte; and a shorter one is served whole only if the byte of the array after it happens to be NUL.
\<close>

lemma page_overread:
  assumes "length chunk = length buf" "chunk \<noteq> []" "CHR 0x00 \<notin> set chunk"
  shows "read_page buf (chunk # cs) acc = None"
  using assms by (simp add: overwrite_def)

lemma page_short:
  assumes "chunk \<noteq> []" "CHR 0x00 \<notin> set chunk" "length chunk < length buf" "CHR 0x00 \<in> set (drop (length chunk) buf)"
  shows "read_page buf [chunk] [] = Some (chunk @ c_string (drop (length chunk) buf))"
proof -
  have "c_string (chunk @ drop (length chunk) buf) = chunk @ c_string (drop (length chunk) buf)"
    unfolding c_string_def by (rule takeWhile_append2) (use assms(2) in auto)
  with assms show ?thesis by (simp add: overwrite_def Let_def)
qed

text \<open>
  C33. The page \<open>/html\<close> is the file exactly if the byte of the array after the file's last is NUL: what the
  array held before goes to the client otherwise.
\<close>
theorem html_page_leaks_stack:
  assumes "0 < length chunk" "CHR 0x00 \<notin> set chunk" "length chunk < length (pe_buf e)"
    "CHR 0x00 \<in> set (drop (length chunk) (pe_buf e))" "pe_fd e > 0" "pe_chunks e = [chunk]" "req_path q = ''/html''"
  shows "\<exists>r'. onRequest e q r = Some r' \<and> res_body r' = chunk @ c_string (drop (length chunk) (pe_buf e))
    \<and> (res_body r' = chunk \<longleftrightarrow> pe_buf e ! length chunk = CHR 0x00)"
proof -
  have "c_string (drop (length chunk) (pe_buf e)) = [] \<longleftrightarrow> pe_buf e ! length chunk = CHR 0x00"
    using assms(3) by (simp add: c_string_def takeWhile_eq_Nil_iff hd_drop_conv_nth)
  with page_short [OF _ assms(2-4)] assms(1,5-7) show ?thesis by (simp add: onRequest_def Let_def setBody_def)
qed

section \<open>The bytes on the wire\<close>

text \<open>What the server has at a path, with its type; \<open>None\<close> where it answers 404 or has no answer.\<close>

definition clock_page :: "page_env \<Rightarrow> string" where
  "clock_page e = ''<html><head><title>This is a time server</title></head>'' @ ''<body><h1>Hello</h1>Now is '' @
     toFormattedString (pe_localtime e) (pe_now e) True @ ''</body></html>''"

definition html_file :: "page_env \<Rightarrow> string option" where
  "html_file e = (if pe_fd e > 0 then read_page (pe_buf e) (pe_chunks e) [] else Some [])"

definition resource :: "page_env \<Rightarrow> string \<Rightarrow> (string \<times> string) option" where
  "resource e p =
     (if p = ''/'' then Some (''text/html'', clock_page e)
      else if p = ''/image'' then Some (''image/png'', favicon)
      else if p = ''/html'' then map_option (Pair ''text/html'') (html_file e)
      else None)"

definition ok_wire :: "string \<times> string \<Rightarrow> string" where
  "ok_wire tb = ''HTTP/1.1 200OK'' @ kCRLF @ ''Content-Length: '' @ show_nat (length (snd tb)) @ kCRLF
     @ ''Connection: Keep-Alive'' @ kCRLF @ ''Content-Type: '' @ fst tb @ kCRLF @ ''Server: '' @ server_name @ kCRLF
     @ kCRLF @ snd tb"

definition not_found_wire :: string where
  "not_found_wire = ''HTTP/1.1 404Not Found'' @ kCRLF @ ''Connection: close'' @ kCRLF @ kCRLF"

lemma show_int_small [simp]: "show_int 1 = ''1''" "show_int 200 = ''200''" "show_int 404 = ''404''"
  by code_simp+

lemma whole_length_line:
  assumes "n < 10 ^ 13"
  shows "take 15 (show_nat n) = show_nat n" "take (15 - length (show_nat n)) kCRLF = kCRLF"
  using length_show_nat [OF assms] by (simp_all add: kCRLF_def)

lemma two_headers: "map_insert ''Server'' s (map_insert ''Content-Type'' t []) = [(''Content-Type'', t), (''Server'', s)]"
  by simp

lemma resource_answer:
  assumes "resource e (req_path q) = Some (ty, b)"
  shows "onRequest e q r = Some (setBody b (addResHeader ''Server'' server_name (setContentType ty
      (setStatusMessage ''OK'' (setStatusCode k200Ok r)))))"
  using assms by (auto simp: resource_def onRequest_def clock_page_def html_file_def Let_def split: if_splits)

lemma ok_response:
  assumes "resource e (req_path q) = Some (ty, b)" "req_version q = kHttp11" "header ''Connection'' q \<noteq> ''close''" "length b < 10 ^ 13"
  shows "response_text (http_answer (time_server e) q) = ok_wire (ty, b)" "\<not> closeConnection (http_answer (time_server e) q)"
  using assms(2-4)
  by (simp_all add: http_answer_def time_server_def resource_answer [OF assms(1)] response_text_def ok_wire_def response_new_def
      setBody_def addResHeader_def setContentType_def setStatusMessage_def setStatusCode_def whole_length_line [simplified] two_headers del: map_insert.simps)

lemma not_found_response:
  assumes "req_path q \<notin> {''/'', ''/image'', ''/html''}" "req_version q = kHttp11"
  shows "response_text (http_answer (time_server e) q) = not_found_wire" "closeConnection (http_answer (time_server e) q)"
  using assms by (simp_all add: http_answer_def time_server_def onRequest_def response_text_def not_found_wire_def response_new_def
      setCloseConnection_def setStatusMessage_def setStatusCode_def)

lemma until_close_kept: "\<forall>r\<in>set rs. \<not> closeConnection r \<Longrightarrow> until_close (rs @ [r']) = rs @ [r']"
  by (induction rs) auto

text \<open>A request the server answers from its resources, keeping the connection.\<close>

definition hits :: "page_env \<Rightarrow> http_req \<Rightarrow> bool" where
  "hits e q \<longleftrightarrow> hq_version q = kHttp11 \<and> header ''Connection'' (hq_request q) \<noteq> ''close''
     \<and> (\<exists>tb. resource e (hq_path q) = Some tb \<and> length (snd tb) < 10 ^ 13)"

lemma hits_response:
  assumes "hits e q"
  shows "response_text (http_answer (time_server e) (hq_request q)) = ok_wire (the (resource e (hq_path q)))
    \<and> \<not> closeConnection (http_answer (time_server e) (hq_request q))"
proof -
  from assms obtain ty b where h: "hq_version q = kHttp11" "header ''Connection'' (hq_request q) \<noteq> ''close''"
    "resource e (hq_path q) = Some (ty, b)" "length b < 10 ^ 13" by (auto simp: hits_def)
  then have "resource e (req_path (hq_request q)) = Some (ty, b)" "req_version (hq_request q) = kHttp11"
    by (simp_all add: hq_request_def)
  from ok_response [OF this h(2,4)] h(3) show ?thesis by simp
qed


section \<open>Instances\<close>

definition sample_env :: page_env where
  "sample_env = \<lparr>pe_localtime = (\<lambda>_. \<lparr>tm_year = 70, tm_mon = 0, tm_mday = 1, tm_hour = 0, tm_min = 0, tm_sec = 0\<rparr>), pe_now = 0, pe_buf = ''abcdef'' @ replicate 1018 (CHR 0x00), pe_fd = 5,
     pe_chunks = [''page'']\<rparr>"

theorem html_page_leaks_stack_witness:
  "\<exists>r. onRequest sample_env (request_new\<lparr>req_path := ''/html''\<rparr>) (response_new False kHttp11) = Some r \<and> res_body r = ''pageef''"
  using html_page_leaks_stack [of "''page''" sample_env "request_new\<lparr>req_path := ''/html''\<rparr>" "response_new False kHttp11"]
  by (auto simp: sample_env_def c_string_def)


end
