(* ===== verification/Serializer.thy ===== *)
theory Serializer
  imports Buffer
begin

text \<open>
  \<open>rpc/Serializer.h\<close>: the wire format of the RPC messages, on top of a \<open>Buffer\<close>.

  The templates are modelled over a universe of values: a scalar of \<open>n\<close> bytes is its object
  representation, a \<open>std::string\<close> its characters. The host is little-endian. Reading a scalar leaves
  the destination as it was when too few bytes are left; reading a string has no such test, and
  \<open>Buffer::retrieve\<close> stops the process (\<open>None\<close>). What is read past the written bytes before that is
  never used.
\<close>

section \<open>Values\<close>

datatype ty = TScalar nat | TString

datatype val = VScalar string | VString string

primrec has_type :: "val \<Rightarrow> ty \<Rightarrow> bool" where
  "has_type (VScalar bs) t = (t = TScalar (length bs))"
| "has_type (VString s) t = (t = TString)"

text \<open>The value-initialised object of a type.\<close>

primrec default_val :: "ty \<Rightarrow> val" where
  "default_val (TScalar n) = VScalar (replicate n (CHR 0x00))"
| "default_val TString = VString []"

text \<open>Unsigned integers in memory.\<close>

fun le_bytes :: "nat \<Rightarrow> nat \<Rightarrow> string" where
  "le_bytes 0 n = []"
| "le_bytes (Suc k) n = char_of (n mod 256) # le_bytes k (n div 256)"

fun le_val :: "string \<Rightarrow> nat" where
  "le_val [] = 0"
| "le_val (c # cs) = of_char c + 256 * le_val cs"

section \<open>Serializer\<close>

(* src/rpc/Serializer.h:29-32 Serializer::ByteOrder *)
datatype byte_order = BigEndian | LittleEndian

(* src/rpc/Serializer.h:134-135 Serializer *)
record serializer =
  byteOrder :: byte_order
  streamBuffer :: buffer

(* src/rpc/Serializer.h:34-37 Serializer::Serializer() *)
definition serializer_new :: serializer where
  "serializer_new = \<lparr>byteOrder = LittleEndian, streamBuffer = buffer_new\<rparr>"

(* src/rpc/Serializer.h:39-42 Serializer::Serializer(const StreamBuffer&, ByteOrder) *)
definition serializer_of_buffer :: "buffer \<Rightarrow> byte_order \<Rightarrow> serializer option" where
  "serializer_of_buffer buf bo = map_option (\<lambda>b. \<lparr>byteOrder = bo, streamBuffer = b\<rparr>) (buffer_copy buf)"

text \<open>The moved-from buffer is the second component.\<close>

(* src/rpc/Serializer.h:44-47 Serializer::Serializer(StreamBuffer&&, ByteOrder) *)
definition serializer_of_moved :: "buffer \<Rightarrow> byte_order \<Rightarrow> serializer \<times> buffer" where
  "serializer_of_moved buf bo = (let (b, rest) = buffer_move buf in (\<lparr>byteOrder = bo, streamBuffer = b\<rparr>, rest))"

(* src/rpc/Serializer.h:49-51 Serializer::reset *)
definition ser_reset :: "serializer \<Rightarrow> serializer" where
  "ser_reset s = s\<lparr>streamBuffer := retrieveAll (streamBuffer s)\<rparr>"

(* src/rpc/Serializer.h:52-54 Serializer::readableBytes *)
definition ser_readableBytes :: "serializer \<Rightarrow> nat" where
  "ser_readableBytes s = readableBytes (streamBuffer s)"

(* src/rpc/Serializer.h:55-57 Serializer::retrieve *)
definition ser_retrieve :: "nat \<Rightarrow> serializer \<Rightarrow> serializer option" where
  "ser_retrieve n s = do { b \<leftarrow> retrieve (streamBuffer s) n; Some (s\<lparr>streamBuffer := b\<rparr>) }"

(* src/rpc/Serializer.h:58-62 Serializer::reverse2LittleEndian *)
definition reverse2LittleEndian :: "byte_order \<Rightarrow> string \<Rightarrow> string" where
  "reverse2LittleEndian bo bs = (if bo = BigEndian then rev bs else bs)"

definition ser_append :: "string \<Rightarrow> serializer \<Rightarrow> serializer option" where
  "ser_append bs s = do { b \<leftarrow> append (streamBuffer s) bs; Some (s\<lparr>streamBuffer := b\<rparr>) }"

(* src/rpc/Serializer.h:63-66 Serializer::writeAndRetrieve *)
definition writeAndRetrieve :: "string \<Rightarrow> serializer \<Rightarrow> serializer option" where
  "writeAndRetrieve bs s = do { s1 \<leftarrow> ser_append bs s; ser_retrieve (length bs) s1 }"

(* src/rpc/Serializer.h:67-69 Serializer::data *)
definition ser_data :: "serializer \<Rightarrow> nat" where
  "ser_data s = data_ptr (streamBuffer s)"

(* src/rpc/Serializer.h:70-72 Serializer::current *)
definition ser_current :: "serializer \<Rightarrow> nat" where
  "ser_current s = peek (streamBuffer s)"

(* src/rpc/Serializer.h:73-76 Serializer::clear *)
definition ser_clear :: "serializer \<Rightarrow> serializer" where
  "ser_clear s = ser_reset (s\<lparr>streamBuffer := clear (streamBuffer s)\<rparr>)"

text \<open>The memory from \<open>current()\<close> on.\<close>

definition ser_bytes :: "nat \<Rightarrow> serializer \<Rightarrow> string" where
  "ser_bytes n s = slice (ser_current s) (ser_current s + n) (bufvec (streamBuffer s))"

(* src/rpc/Serializer.h:82-85 Serializer::getLenBytes *)
definition getLenBytes :: "nat \<Rightarrow> serializer \<Rightarrow> (serializer \<times> string) option" where
  "getLenBytes len s = (let buf = ser_bytes len s in map_option (\<lambda>s1. (s1, buf)) (ser_retrieve len s))"

section \<open>Reading\<close>

(* src/rpc/Serializer.h:139-151 Serializer::outputObj *)
definition output_scalar :: "nat \<Rightarrow> string \<Rightarrow> serializer \<Rightarrow> (serializer \<times> string) option" where
  "output_scalar len obj s =
     (if ser_readableBytes s \<ge> len then do {
        let buf = ser_bytes len s;
        s1 \<leftarrow> ser_retrieve len s;
        Some (s1, reverse2LittleEndian (byteOrder s1) buf)
      } else Some (s, obj))"

(* src/rpc/Serializer.h:153-168 Serializer::outputObj(std::string&) *)
definition output_string :: "string \<Rightarrow> serializer \<Rightarrow> (serializer \<times> string) option" where
  "output_string str s = do {
     let buf = ser_bytes 2 s;
     s1 \<leftarrow> ser_retrieve 2 s;
     let len = le_val (reverse2LittleEndian (byteOrder s1) buf);
     if len = 0 then Some (s1, str)
     else do {
       let str1 = ser_bytes len s1 @ str;
       s2 \<leftarrow> ser_retrieve len s1;
       Some (s2, str1)
     }
   }"

(* src/rpc/Serializer.h:115-119 Serializer::operator>> *)
fun output_val :: "val \<Rightarrow> serializer \<Rightarrow> (serializer \<times> val) option" where
  "output_val (VScalar obj) s = map_option (\<lambda>(s1, bs). (s1, VScalar bs)) (output_scalar (length obj) obj s)"
| "output_val (VString str) s = map_option (\<lambda>(s1, cs). (s1, VString cs)) (output_string str s)"

(* src/rpc/Serializer.h:87-100 Serializer::getTuple *)
fun getTuple :: "ty list \<Rightarrow> serializer \<Rightarrow> (serializer \<times> val list) option" where
  "getTuple [] s = Some (s, [])"
| "getTuple (t # ts) s = do {
     (s1, v) \<leftarrow> output_val (default_val t) s;
     (s2, vs) \<leftarrow> getTuple ts s1;
     Some (s2, v # vs)
   }"

section \<open>Writing\<close>

(* src/rpc/Serializer.h:171-181 Serializer::inputObj *)
definition input_scalar :: "string \<Rightarrow> serializer \<Rightarrow> serializer option" where
  "input_scalar obj s = ser_append (reverse2LittleEndian (byteOrder s) obj) s"

text \<open>
  \<open>mem\<close> is the memory from the pointer on, up to the end of its object. The length goes to a
  \<open>uint16_t\<close>, whose bytes are reversed in place before it is used as a length: reading past the object
  is \<open>None\<close>.
\<close>

(* src/rpc/Serializer.h:183-197 Serializer::inputObj<const char> *)
definition input_cstr :: "string \<Rightarrow> serializer \<Rightarrow> serializer option" where
  "input_cstr mem s = do {
     let p = reverse2LittleEndian (byteOrder s) (le_bytes 2 (to_uint16 (length (c_string mem))));
     let len = le_val p;
     s1 \<leftarrow> ser_append p s;
     if len = 0 then Some s1
     else if len \<le> length mem then ser_append (take len mem) s1 else None
   }"

(* src/rpc/Serializer.h:198-202 Serializer::inputObj(std::string) *)
definition input_string :: "string \<Rightarrow> serializer \<Rightarrow> serializer option" where
  "input_string str s = input_cstr (str @ [CHR 0x00]) s"

(* src/rpc/Serializer.h:121-125 Serializer::operator<< *)
fun input_val :: "val \<Rightarrow> serializer \<Rightarrow> serializer option" where
  "input_val (VScalar obj) s = input_scalar obj s"
| "input_val (VString str) s = input_string str s"

(* src/rpc/Serializer.h:102-113 Serializer::packageArgs *)
fun packageArgs :: "val list \<Rightarrow> serializer \<Rightarrow> serializer option" where
  "packageArgs [] s = Some s"
| "packageArgs (v # vs) s = do { s1 \<leftarrow> input_val v s; packageArgs vs s1 }"

section \<open>Return values\<close>

(* src/rpc/Serializer.h:208-212 type_xx *)
definition type_xx :: "ty option \<Rightarrow> ty" where
  "type_xx t = (case t of Some u \<Rightarrow> u | None \<Rightarrow> TScalar 1)"

(* src/rpc/Serializer.h:214-218 RpcStateCode *)
datatype rpc_state = RPC_SUCCESS | RPC_FUNCTION_NOTBIND | RPC_RECV_TIMEOUT

primrec state_num :: "rpc_state \<Rightarrow> nat" where
  "state_num RPC_SUCCESS = 0"
| "state_num RPC_FUNCTION_NOTBIND = 1"
| "state_num RPC_RECV_TIMEOUT = 2"

text \<open>The state code is the number in the enumeration's four bytes: what arrives may be no enumerator.\<close>

(* src/rpc/Serializer.h:253-255 value_t *)
record value_t =
  stateCode :: nat
  vmsg :: string
  vvalue :: val

text \<open>\<open>value_\<close> is not initialised: its first value is a parameter.\<close>

(* src/rpc/Serializer.h:226-228 value_t::value_t *)
definition value_new :: "val \<Rightarrow> value_t" where
  "value_new junk = \<lparr>stateCode = state_num RPC_SUCCESS, vmsg = [], vvalue = junk\<rparr>"

(* src/rpc/Serializer.h:230-230 value_t::successful *)
definition successful :: "value_t \<Rightarrow> bool" where
  "successful v = (stateCode v = state_num RPC_SUCCESS)"

(* src/rpc/Serializer.h:236-236 value_t::setStateCode *)
definition setStateCode :: "rpc_state \<Rightarrow> value_t \<Rightarrow> value_t" where
  "setStateCode c v = v\<lparr>stateCode := state_num c\<rparr>"

(* src/rpc/Serializer.h:237-237 value_t::setMessage *)
definition setMessage :: "string \<Rightarrow> value_t \<Rightarrow> value_t" where
  "setMessage m v = v\<lparr>vmsg := m\<rparr>"

(* src/rpc/Serializer.h:238-238 value_t::setValue *)
definition setValue :: "val \<Rightarrow> value_t \<Rightarrow> value_t" where
  "setValue x v = v\<lparr>vvalue := x\<rparr>"

(* src/rpc/Serializer.h:240-246 operator>>(Serializer&, value_t&) *)
definition get_value :: "value_t \<Rightarrow> serializer \<Rightarrow> (serializer \<times> value_t) option" where
  "get_value v s = do {
     (s1, st) \<leftarrow> output_scalar 4 (le_bytes 4 (stateCode v)) s;
     (s2, m) \<leftarrow> output_string (vmsg v) s1;
     let v1 = v\<lparr>stateCode := le_val st, vmsg := m\<rparr>;
     if stateCode v1 = state_num RPC_SUCCESS then do {
       (s3, x) \<leftarrow> output_val (vvalue v1) s2;
       Some (s3, v1\<lparr>vvalue := x\<rparr>)
     } else Some (s2, v1)
   }"

(* src/rpc/Serializer.h:247-250 operator<<(Serializer&, const value_t&) *)
definition put_value :: "value_t \<Rightarrow> serializer \<Rightarrow> serializer option" where
  "put_value v s = do {
     s1 \<leftarrow> input_scalar (le_bytes 4 (stateCode v)) s;
     s2 \<leftarrow> input_string (vmsg v) s1;
     input_val (vvalue v) s2
   }"

section \<open>The wire format\<close>

text \<open>What is left of a string: up to its first NUL, and of that the length modulo \<open>2\<^sup>1\<^sup>6\<close>.\<close>

definition clip_string :: "string \<Rightarrow> string" where
  "clip_string s = take (to_uint16 (length (c_string s))) (c_string s)"

primrec clip :: "val \<Rightarrow> val" where
  "clip (VScalar bs) = VScalar bs"
| "clip (VString s) = VString (clip_string s)"

text \<open>The bytes of a value in a little-endian serializer.\<close>

primrec encode :: "val \<Rightarrow> string" where
  "encode (VScalar bs) = bs"
| "encode (VString s) = le_bytes 2 (length (clip_string s)) @ clip_string s"

text \<open>A little-endian serializer over a well-formed buffer whose readable bytes are \<open>xs\<close>.\<close>

definition holds :: "serializer \<Rightarrow> string \<Rightarrow> bool" where
  "holds s xs \<longleftrightarrow> buffer_inv (streamBuffer s) \<and> content (streamBuffer s) = xs \<and> byteOrder s = LittleEndian"

lemma length_le_bytes [simp]: "length (le_bytes k n) = k"
  by (induction k arbitrary: n) auto

lemma le_val_bytes: "le_val (le_bytes k n) = n mod 256 ^ k"
proof (induction k arbitrary: n)
  case (Suc k)
  have "n mod (256 * 256 ^ k) = n mod 256 + 256 * (n div 256 mod 256 ^ k)"
    by (simp add: mod_mult2_eq)
  with Suc show ?case by simp
qed simp

lemma le_val_two: "n < 65536 \<Longrightarrow> le_val (le_bytes 2 n) = n"
  using le_val_bytes [of 2 n] by simp

lemma reverse_twice [simp]: "reverse2LittleEndian bo (reverse2LittleEndian bo bs) = bs"
  by (simp add: reverse2LittleEndian_def)

lemma length_reverse [simp]: "length (reverse2LittleEndian bo bs) = length bs"
  by (simp add: reverse2LittleEndian_def)

lemma reverse_little [simp]: "reverse2LittleEndian LittleEndian bs = bs"
  by (simp add: reverse2LittleEndian_def)

lemma clip_string_nul: "c_string (s @ [CHR 0x00]) = c_string s"
  by (induction s) (auto simp: c_string_def)

lemma take_c_string: "n \<le> length (c_string s) \<Longrightarrow> take n (s @ ys) = take n (c_string s)"
proof (induction s arbitrary: n)
  case (Cons c s)
  then show ?case by (cases n) (auto simp: c_string_def)
qed (simp add: c_string_def)

lemma length_c_string: "length (c_string s) \<le> length s"
  unfolding c_string_def by (rule length_takeWhile_le)

lemma length_clip: "length (clip_string s) = to_uint16 (length (c_string s))"
  unfolding clip_string_def by (simp add: to_uint16_def)

lemma length_clip_less: "length (clip_string s) < 65536"
  unfolding length_clip by (simp add: to_uint16_def)

lemma clip_short: "CHR 0x00 \<notin> set s \<Longrightarrow> length s < 65536 \<Longrightarrow> clip_string s = s"
proof -
  assume "CHR 0x00 \<notin> set s" "length s < 65536"
  moreover from this have "c_string s = s" unfolding c_string_def by (auto simp: takeWhile_eq_all_conv)
  ultimately show ?thesis by (simp add: clip_string_def)
qed

lemma holds_append: "holds s xs \<Longrightarrow> \<exists>s'. ser_append bs s = Some s' \<and> holds s' (xs @ bs)"
  using append_ok [of "streamBuffer s" bs] by (auto simp: holds_def ser_append_def)

lemma holds_retrieve: "holds s xs \<Longrightarrow> n \<le> length xs \<Longrightarrow> \<exists>s'. ser_retrieve n s = Some s' \<and> holds s' (drop n xs)"
  using retrieve_ok [of "streamBuffer s" n] by (auto simp: holds_def ser_retrieve_def)

lemma holds_retrieve_fail: "holds s xs \<Longrightarrow> length xs < n \<Longrightarrow> ser_retrieve n s = None"
  using retrieve_fail [of "streamBuffer s" n] by (simp add: holds_def ser_retrieve_def)

lemma holds_readable: "holds s xs \<Longrightarrow> ser_readableBytes s = length xs"
  by (auto simp: holds_def ser_readableBytes_def length_content)

lemma holds_bytes:
  assumes "holds s xs" "n \<le> length xs"
  shows "ser_bytes n s = take n xs"
proof -
  have "xs = content (streamBuffer s)" and inv: "buffer_inv (streamBuffer s)" using assms(1) by (auto simp: holds_def)
  then have "readIndex (streamBuffer s) + n \<le> writeIndex (streamBuffer s)"
    using assms(2) by (auto simp: length_content buffer_basics readableBytes_def)
  then show ?thesis unfolding \<open>xs = _\<close> content_def ser_bytes_def ser_current_def peek_def by (rule slice_take)
qed

lemma holds_order: "holds s xs \<Longrightarrow> byteOrder s = LittleEndian"
  by (simp add: holds_def)

lemma holds_new: "holds serializer_new []"
  by (simp add: holds_def serializer_new_def)

lemma holds_clear: "buffer_inv (streamBuffer s) \<Longrightarrow> byteOrder s = LittleEndian \<Longrightarrow> holds (ser_clear s) []"
  using clear_ok [of "streamBuffer s"] by (simp add: holds_def ser_clear_def ser_reset_def)

section \<open>One value\<close>

text \<open>What a value is read into: a scalar of the size, or an empty string.\<close>

fun blank :: "ty \<Rightarrow> val \<Rightarrow> bool" where
  "blank (TScalar n) (VScalar bs) = (length bs = n)"
| "blank TString (VString s) = (s = [])"
| "blank _ _ = False"

lemma blank_default: "blank t (default_val t)"
  by (cases t) auto

lemma output_scalar_ok:
  assumes "holds s (bs @ rest)" "length obj = length bs"
  shows "\<exists>s'. output_scalar (length bs) obj s = Some (s', bs) \<and> holds s' rest"
proof -
  obtain s' where s': "ser_retrieve (length bs) s = Some s'" "holds s' rest"
    using holds_retrieve [OF assms(1), of "length bs"] by auto
  then show ?thesis
    using holds_readable [OF assms(1)] holds_bytes [OF assms(1), of "length bs"] holds_order [OF s'(2)]
    by (simp add: output_scalar_def)
qed

lemma output_scalar_short:
  "holds s xs \<Longrightarrow> length xs < n \<Longrightarrow> output_scalar n obj s = Some (s, obj)"
  using holds_readable [of s xs] by (simp add: output_scalar_def)

lemma output_string_ok:
  assumes s: "holds s (le_bytes 2 (length m) @ m @ rest)" and m: "length m < 65536"
  shows "\<exists>s'. output_string str s = Some (s', m @ str) \<and> holds s' rest"
proof -
  obtain s1 where s1: "ser_retrieve 2 s = Some s1" "holds s1 (m @ rest)"
    using holds_retrieve [OF s, of 2] by auto
  obtain s2 where s2: "ser_retrieve (length m) s1 = Some s2" "holds s2 rest"
    using holds_retrieve [OF s1(2), of "length m"] by auto
  show ?thesis
    using s1 s2 holds_bytes [OF s, of 2] holds_bytes [OF s1(2), of "length m"] holds_order [OF s1(2)]
    using le_val_two [OF m] by (cases "m = []") (auto simp: output_string_def Let_def)
qed

lemma output_string_short:
  assumes s: "holds s xs" and short: "length xs < 2 \<or> length xs < 2 + le_val (take 2 xs)"
  shows "output_string str s = None"
proof (cases "length xs < 2")
  case True
  then show ?thesis using holds_retrieve_fail [OF s] by (simp add: output_string_def)
next
  case False
  then obtain s1 where s1: "ser_retrieve 2 s = Some s1" "holds s1 (drop 2 xs)"
    using holds_retrieve [OF s, of 2] by auto
  have "le_val (take 2 xs) > 0" "ser_retrieve (le_val (take 2 xs)) s1 = None"
    using short False holds_retrieve_fail [OF s1(2), of "le_val (take 2 xs)"] by auto
  then show ?thesis
    using s1 holds_bytes [OF s, of 2] holds_order [OF s1(2)] False by (simp add: output_string_def Let_def)
qed

lemma output_string_enough:
  assumes s: "holds s xs" and enough: "2 + le_val (take 2 xs) \<le> length xs"
  shows "output_string str s \<noteq> None"
proof -
  obtain s1 where s1: "ser_retrieve 2 s = Some s1" "holds s1 (drop 2 xs)"
    using holds_retrieve [OF s, of 2] enough by auto
  have "le_val (take 2 xs) \<le> length (drop 2 xs)" using enough by simp
  then obtain s2 where s2: "ser_retrieve (le_val (take 2 xs)) s1 = Some s2"
    using holds_retrieve [OF s1(2)] by blast
  show ?thesis
    using s1 s2 holds_bytes [OF s, of 2] holds_order [OF s1(2)] enough by (simp add: output_string_def Let_def)
qed

lemma input_string_ok:
  assumes s: "holds s xs"
  shows "\<exists>s'. input_string str s = Some s' \<and> holds s' (xs @ encode (VString str))"
proof -
  define n where "n = to_uint16 (length (c_string str))"
  have n: "n < 65536" "n \<le> length (c_string str)" by (simp_all add: n_def to_uint16_def)
  have v: "le_val (le_bytes 2 n) = n" by (rule le_val_two [OF n(1)])
  obtain s1 where s1: "ser_append (le_bytes 2 n) s = Some s1" "holds s1 (xs @ le_bytes 2 n)"
    using holds_append [OF s] by blast
  have clip: "take n (str @ [CHR 0x00]) = clip_string str" "length (clip_string str) = n"
    using n by (simp_all only: take_c_string clip_string_def n_def length_take min_absorb2)
  obtain s2 where s2: "ser_append (clip_string str) s1 = Some s2" "holds s2 ((xs @ le_bytes 2 n) @ clip_string str)"
    using holds_append [OF s1(2)] by blast
  have le: "n \<le> length (str @ [CHR 0x00])" using n(2) length_c_string [of str] by simp
  show ?thesis
  proof (cases "n = 0")
    case True
    then show ?thesis using s1 clip v
      by (simp add: input_string_def input_cstr_def clip_string_nul flip: n_def) (simp add: holds_order [OF s] Let_def)
  next
    case False
    then show ?thesis using s1 s2 clip v le
      by (simp add: input_string_def input_cstr_def clip_string_nul flip: n_def)
        (simp add: holds_order [OF s] Let_def clip)
  qed
qed

lemma input_val_ok: "holds s xs \<Longrightarrow> \<exists>s'. input_val v s = Some s' \<and> holds s' (xs @ encode v)"
proof (cases v)
  case (VScalar bs)
  then show "holds s xs \<Longrightarrow> ?thesis"
    using holds_append [of s xs bs] by (simp add: input_scalar_def holds_order)
next
  case (VString m)
  then show "holds s xs \<Longrightarrow> ?thesis" using input_string_ok by simp
qed

lemma output_val_ok:
  assumes "holds s (encode v @ rest)" "has_type v t" "blank t w"
  shows "\<exists>s'. output_val w s = Some (s', clip v) \<and> holds s' rest"
proof (cases v)
  case (VScalar bs)
  then obtain obj where "w = VScalar obj" "length obj = length bs" using assms by (cases w) auto
  then show ?thesis using output_scalar_ok [of s bs rest obj] assms(1) VScalar by auto
next
  case (VString m)
  then have "w = VString []" using assms by (cases w) auto
  then show ?thesis
    using output_string_ok [of s "clip_string m" rest "[]"] assms(1) VString length_clip_less [of m] by auto
qed

text \<open>Whatever is read is of the type asked for.\<close>

lemma output_string_state: "holds s xs \<Longrightarrow> output_string str s = Some (s', m) \<Longrightarrow> \<exists>ys. holds s' ys"
proof -
  assume s: "holds s xs" and r: "output_string str s = Some (s', m)"
  then have enough: "2 \<le> length xs" "2 + le_val (take 2 xs) \<le> length xs"
    using output_string_short [OF s, of str] by force+
  obtain s1 where s1: "ser_retrieve 2 s = Some s1" "holds s1 (drop 2 xs)" using holds_retrieve [OF s enough(1)] by blast
  have len: "le_val (take 2 xs) \<le> length (drop 2 xs)" using enough by simp
  obtain s2 where "ser_retrieve (le_val (take 2 xs)) s1 = Some s2" "holds s2 (drop (le_val (take 2 xs)) (drop 2 xs))"
    using holds_retrieve [OF s1(2) len] by blast
  with r s1 show ?thesis
    using holds_bytes [OF s enough(1)] holds_order [OF s1(2)] by (auto simp: output_string_def Let_def split: if_splits)
qed

lemma output_val_typed:
  assumes s: "holds s xs" and r: "output_val (default_val t) s = Some (s', v)"
  shows "\<exists>ys. holds s' ys \<and> has_type v t"
proof (cases t)
  case (TScalar n)
  show ?thesis
  proof (cases "length xs < n")
    case True
    then show ?thesis using output_scalar_short [OF s] r s TScalar by auto
  next
    case False
    then show ?thesis
      using output_scalar_ok [of s "take n xs" "drop n xs" "replicate n (CHR 0x00)"] s r TScalar by (auto simp: min_absorb2)
  qed
next
  case TString
  then show ?thesis using output_string_state [OF s] r by auto
qed

section \<open>Tuples\<close>

text \<open>Threading a writer through the elements of a tuple, and a reader through their types.\<close>

fun put_all :: "('v \<Rightarrow> 's \<Rightarrow> 's option) \<Rightarrow> 'v list \<Rightarrow> 's \<Rightarrow> 's option" where
  "put_all put [] s = Some s"
| "put_all put (v # vs) s = do { s1 \<leftarrow> put v s; put_all put vs s1 }"

fun get_all :: "('t \<Rightarrow> 's \<Rightarrow> ('s \<times> 'v) option) \<Rightarrow> 't list \<Rightarrow> 's \<Rightarrow> ('s \<times> 'v list) option" where
  "get_all get [] s = Some (s, [])"
| "get_all get (t # ts) s = do {
     (s1, v) \<leftarrow> get t s;
     (s2, vs) \<leftarrow> get_all get ts s1;
     Some (s2, v # vs)
   }"

text \<open>
  The contract of a wire format: the writer appends the value's bytes, the reader takes the bytes of a
  value of its type from the front.
\<close>

locale wire_format =
  fixes put :: "'v \<Rightarrow> 's \<Rightarrow> 's option"
    and get :: "'t \<Rightarrow> 's \<Rightarrow> ('s \<times> 'v) option"
    and enc :: "'v \<Rightarrow> 'b list"
    and typed :: "'v \<Rightarrow> 't \<Rightarrow> bool"
    and norm :: "'v \<Rightarrow> 'v"
    and st :: "'s \<Rightarrow> 'b list \<Rightarrow> bool"
  assumes put_law: "st s xs \<Longrightarrow> \<exists>s'. put v s = Some s' \<and> st s' (xs @ enc v)"
    and get_law: "st s (enc v @ rest) \<Longrightarrow> typed v t \<Longrightarrow> \<exists>s'. get t s = Some (s', norm v) \<and> st s' rest"
begin

lemma put_all_ok: "st s xs \<Longrightarrow> \<exists>s'. put_all put vs s = Some s' \<and> st s' (xs @ concat (map enc vs))"
proof (induction vs arbitrary: s xs)
  case (Cons v vs)
  obtain s1 where s1: "put v s = Some s1" "st s1 (xs @ enc v)" using put_law [OF Cons.prems] by blast
  from Cons.IH [OF s1(2)] s1(1) show ?case by auto
qed simp

lemma get_all_ok:
  "st s (concat (map enc vs) @ rest) \<Longrightarrow> list_all2 typed vs ts \<Longrightarrow>
    \<exists>s'. get_all get ts s = Some (s', map norm vs) \<and> st s' rest"
proof (induction vs arbitrary: s ts)
  case (Cons v vs)
  then obtain t us where t: "ts = t # us" "typed v t" "list_all2 typed vs us" by (auto simp: list_all2_Cons1)
  obtain s1 where s1: "get t s = Some (s1, norm v)" "st s1 (concat (map enc vs) @ rest)"
    using get_law [of s v _ t] Cons.prems(1) t(2) by auto
  from Cons.IH [OF s1(2) t(3)] s1(1) t(1) show ?case by auto
qed simp

end

interpretation wire: wire_format input_val "\<lambda>t. output_val (default_val t)" encode has_type clip holds
  by unfold_locales (use input_val_ok output_val_ok blank_default in blast)+

lemma packageArgs_all: "packageArgs vs = put_all input_val vs"
  by (induction vs; rule ext; simp)

lemma getTuple_all: "getTuple ts = get_all (\<lambda>t. output_val (default_val t)) ts"
  by (induction ts; rule ext; simp)

lemmas packageArgs_ok = wire.put_all_ok [folded packageArgs_all]
lemmas getTuple_ok = wire.get_all_ok [folded getTuple_all]

text \<open>The values that arrive as they were sent.\<close>

primrec plain :: "val \<Rightarrow> bool" where
  "plain (VScalar bs) = True"
| "plain (VString s) = (CHR 0x00 \<notin> set s \<and> length s < 65536)"

lemma clip_plain: "plain v \<Longrightarrow> clip v = v"
  by (cases v) (simp_all add: clip_short)

lemma map_clip_plain: "list_all plain vs \<Longrightarrow> map clip vs = vs"
  by (induction vs) (simp_all add: clip_plain)

section \<open>Returned values\<close>

definition encode_value :: "value_t \<Rightarrow> string" where
  "encode_value v = le_bytes 4 (stateCode v) @ encode (VString (vmsg v)) @ encode (vvalue v)"

lemma put_value_ok: "holds s xs \<Longrightarrow> \<exists>s'. put_value v s = Some s' \<and> holds s' (xs @ encode_value v)"
proof -
  assume s: "holds s xs"
  obtain s1 where s1: "input_val (VScalar (le_bytes 4 (stateCode v))) s = Some s1"
    "holds s1 (xs @ encode (VScalar (le_bytes 4 (stateCode v))))" using input_val_ok [OF s] by blast
  obtain s2 where s2: "input_val (VString (vmsg v)) s1 = Some s2"
    "holds s2 ((xs @ encode (VScalar (le_bytes 4 (stateCode v)))) @ encode (VString (vmsg v)))"
    using input_val_ok [OF s1(2)] by blast
  from input_val_ok [OF s2(2), of "vvalue v"] s1(1) s2(1) show ?thesis
    by (auto simp: put_value_def encode_value_def)
qed

lemma get_value_head:
  assumes "holds s (le_bytes 4 n @ encode (VString m) @ rest)" "n < 2 ^ 32" "vmsg w = []"
  shows "\<exists>s2. holds s2 rest \<and> get_value w s = (if n = 0 then do {
      (s3, x) \<leftarrow> output_val (vvalue w) s2;
      Some (s3, \<lparr>stateCode = 0, vmsg = clip_string m, vvalue = x\<rparr>)
    } else Some (s2, \<lparr>stateCode = n, vmsg = clip_string m, vvalue = vvalue w\<rparr>))"
proof -
  have code: "le_val (le_bytes 4 n) = n" using assms(2) le_val_bytes [of 4 n] by simp
  obtain s1 where s1: "output_scalar 4 (le_bytes 4 (stateCode w)) s = Some (s1, le_bytes 4 n)"
    "holds s1 (encode (VString m) @ rest)"
    using output_scalar_ok [of s "le_bytes 4 n" _ "le_bytes 4 (stateCode w)"] assms(1) by auto
  obtain s2 where s2: "output_string [] s1 = Some (s2, clip_string m)" "holds s2 rest"
    using output_string_ok [of s1 "clip_string m" rest "[]"] s1(2) length_clip_less by auto
  with s1(1) code assms(3) show ?thesis
    by (intro exI [of _ s2], cases w, cases "n = 0") (simp_all add: get_value_def Let_def le_val_bytes)
qed

lemma get_value_ok:
  assumes s: "holds s (encode_value v @ rest)" and v: "has_type (vvalue v) t" "successful v"
    and w: "blank t (vvalue w)" "vmsg w = []"
  shows "\<exists>s'. get_value w s = Some (s', \<lparr>stateCode = 0, vmsg = clip_string (vmsg v), vvalue = clip (vvalue v)\<rparr>) \<and> holds s' rest"
proof -
  have "holds s (le_bytes 4 0 @ encode (VString (vmsg v)) @ encode (vvalue v) @ rest)"
    using s v(2) by (simp add: encode_value_def successful_def)
  from get_value_head [OF this _ w(2)] obtain s2 where s2: "holds s2 (encode (vvalue v) @ rest)"
    "get_value w s = do { (s3, x) \<leftarrow> output_val (vvalue w) s2; Some (s3, \<lparr>stateCode = 0, vmsg = clip_string (vmsg v), vvalue = x\<rparr>) }"
    by auto
  from output_val_ok [OF s2(1) v(1) w(1)] s2(2) show ?thesis by auto
qed

text \<open>An unsuccessful value is read without its \<open>value_\<close> (which \<open>operator<<\<close> would write all the same).\<close>

lemma get_value_failed:
  assumes "holds s (le_bytes 4 n @ encode (VString m) @ rest)" "n < 2 ^ 32" "n \<noteq> 0" "vmsg w = []"
  shows "\<exists>s'. get_value w s = Some (s', \<lparr>stateCode = n, vmsg = clip_string m, vvalue = vvalue w\<rparr>) \<and> holds s' rest"
  using get_value_head [OF assms(1,2,4)] assms(3) by auto

section \<open>Properties\<close>







text \<open>The length mark has 16 bits: a string of \<open>2\<^sup>1\<^sup>6\<close> characters is sent as the empty one.\<close>

lemma long_string_lost: "clip (VString (replicate 65536 (CHR ''a''))) = VString []"
  by (simp add: clip_string_def c_string_def to_uint16_def)

text \<open>
  In a big-endian serializer the mark is reversed before it is used as the length: a short string is
  read far past its end.
\<close>

lemma big_endian_string_overruns:
  assumes "byteOrder s = BigEndian" "str \<noteq> []" "CHR 0x00 \<notin> set str" "length str < 256"
  shows "input_string str s = None"
proof -
  have c: "c_string str = str" unfolding c_string_def using assms(3) by (auto simp: takeWhile_eq_all_conv)
  have n: "to_uint16 (length str) = length str" using assms(4) by simp
  have v: "le_val (rev (le_bytes 2 (length str))) = 256 * length str"
    using assms(4) by (simp add: numeral_2_eq_2)
  have "length str > 0" using assms(2) by simp
  then have l: "\<not> 255 * length str \<le> Suc 0" by linarith
  show ?thesis
    using assms(2) by (auto simp: input_string_def input_cstr_def clip_string_nul c n reverse2LittleEndian_def assms(1) v l Let_def
        split: bind_splits)
qed

end
