(* ===== verification/RpcServer.thy ===== *)
theory RpcServer
  imports Serializer ThreadContexts
begin

text \<open>
  \<open>rpc/RpcServer.h\<close> and \<open>.cc\<close>: the table of bound functions and the handling of one message.

  A user's function is a parameter: from its arguments and the state \<open>'u\<close> of the user's program to the
  new state and its result. A type of its signature is a \<open>ty\<close>; the return type \<open>void\<close> is \<open>None\<close>.
  The constructor hands \<open>onMessage\<close> to the \<open>TcpServer\<close> as its message callback, so that it runs in the
  thread of the connection's loop, and names the log file.
\<close>

section \<open>Calling a function\<close>

record 'u user_fun =
  arg_tys :: "ty list"
  ret_ty :: "ty option"
  body :: "val list \<Rightarrow> 'u \<Rightarrow> 'u \<times> val"

(* src/rpc/RpcServer.h:23-34 detail::invoke *)
definition invoke :: "'u user_fun \<Rightarrow> val list \<Rightarrow> 'u \<Rightarrow> 'u \<times> val" where
  "invoke f t u = body f t u"

(* src/rpc/RpcServer.h:37-49 detail::call_helper *)
definition call_helper :: "'u user_fun \<Rightarrow> val list \<Rightarrow> 'u \<Rightarrow> 'u \<times> val" where
  "call_helper f args u =
     (case ret_ty f of
        None \<Rightarrow> (fst (invoke f args u), VScalar [CHR 0x00])
      | Some _ \<Rightarrow> invoke f args u)"

text \<open>A handler in \<open>functions_\<close>: it works on the thread's serializer and the user's state.\<close>

type_synonym 'u handler = "serializer \<Rightarrow> 'u \<Rightarrow> (serializer \<times> 'u) option"

text \<open>The \<open>value_\<close> of a new \<open>value_t\<close> is indeterminate until \<open>setValue\<close>.\<close>

(* src/rpc/RpcServer.h:167-184 RpcServer::callproxyImpl(std::function) *)
definition callproxyImpl :: "'u user_fun \<Rightarrow> 'u handler" where
  "callproxyImpl f ds u = do {
     (ds1, args) \<leftarrow> getTuple (arg_tys f) ds;
     let ds2 = ser_clear ds1;
     let (u1, ret) = call_helper f args u;
     let val = value_new (default_val (type_xx (ret_ty f)));
     let val = setStateCode RPC_SUCCESS val;
     let val = setValue ret val;
     ds3 \<leftarrow> put_value val ds2;
     Some (ds3, u1)
   }"

text \<open>A member function takes the pointer to its object first.\<close>

record ('obj, 'u) user_mem_fun =
  m_arg_tys :: "ty list"
  m_ret_ty :: "ty option"
  m_body :: "'obj \<Rightarrow> val list \<Rightarrow> 'u \<Rightarrow> 'u \<times> val"

(* src/rpc/RpcServer.h:134-136 RpcServer::callproxyImpl<member> *)
definition bind_obj :: "('obj, 'u) user_mem_fun \<Rightarrow> 'obj \<Rightarrow> 'u user_fun" where
  "bind_obj func obj = \<lparr>arg_tys = m_arg_tys func, ret_ty = m_ret_ty func, body = m_body func obj\<rparr>"

(* src/rpc/RpcServer.h:126-143 RpcServer::callproxyImpl<member> *)
definition callproxyImpl_mem :: "('obj, 'u) user_mem_fun \<Rightarrow> 'obj \<Rightarrow> 'u handler" where
  "callproxyImpl_mem func obj ds u = do {
     (ds1, args) \<leftarrow> getTuple (m_arg_tys func) ds;
     let ds2 = ser_clear ds1;
     let ff = bind_obj func obj;
     let (u1, ret) = call_helper ff args u;
     let val = value_new (default_val (type_xx (m_ret_ty func)));
     let val = setStateCode RPC_SUCCESS val;
     let val = setValue ret val;
     ds3 \<leftarrow> put_value val ds2;
     Some (ds3, u1)
   }"

text \<open>A \<open>const\<close> member function does not change its object: its state is that of the caller.\<close>

(* src/rpc/RpcServer.h:147-164 RpcServer::callproxyImpl<const member> *)
definition callproxyImpl_const :: "('obj, 'u) user_mem_fun \<Rightarrow> 'obj \<Rightarrow> 'u handler" where
  "callproxyImpl_const func obj ds u = do {
     (ds1, args) \<leftarrow> getTuple (m_arg_tys func) ds;
     let ds2 = ser_clear ds1;
     let ff = bind_obj func obj;
     let (u1, ret) = call_helper ff args u;
     let val = value_new (default_val (type_xx (m_ret_ty func)));
     let val = setStateCode RPC_SUCCESS val;
     let val = setValue ret val;
     ds3 \<leftarrow> put_value val ds2;
     Some (ds3, u1)
   }"

(* src/rpc/RpcServer.h:83-85 RpcServer::callproxy(Func) *)
definition callproxy :: "'u user_fun \<Rightarrow> 'u handler" where
  "callproxy func ds = callproxyImpl func ds"

(* src/rpc/RpcServer.h:89-91 RpcServer::callproxy(Func, Obj) *)
definition callproxy_mem :: "('obj, 'u) user_mem_fun \<Rightarrow> 'obj \<Rightarrow> 'u handler" where
  "callproxy_mem func obj ds = callproxyImpl_mem func obj ds"

section \<open>The server\<close>

(* src/rpc/RpcServer.h:118-122 RpcServer *)
record 'u rpc_server =
  serverName :: string
  rpc_tcp :: "tcp server"
  threadLocalSerializer :: "serializer thread_local"
  functions_tab :: "string \<Rightarrow> 'u handler option"

(* src/rpc/RpcServer.cc:14-27 RpcServer::RpcServer *)
definition rpc_server_new :: "nat \<Rightarrow> int \<Rightarrow> int \<Rightarrow> bool \<Rightarrow> sockaddr_in \<Rightarrow> nat \<Rightarrow> string \<Rightarrow> 'u rpc_server option" where
  "rpc_server_new base idle lsock bind_ok addr threadNum name = do {
     s \<leftarrow> server_new base idle lsock bind_ok addr threadNum;
     Some \<lparr>serverName = name, rpc_tcp = s, threadLocalSerializer = tl_new, functions_tab = (\<lambda>_. None)\<rparr>
   }"

(* src/rpc/RpcServer.cc:30-37 RpcServer::start *)
definition rpc_start :: "nat \<Rightarrow> nat list \<Rightarrow> bool \<Rightarrow> 'u rpc_server \<Rightarrow> 'u rpc_server option" where
  "rpc_start cur new_loops listen_ok rs = do {
     (s, v) \<leftarrow> start_contexts serializer_new cur new_loops listen_ok (rpc_tcp rs) (threadLocalSerializer rs);
     Some (rs\<lparr>rpc_tcp := s, threadLocalSerializer := v\<rparr>)
   }"

(* src/rpc/RpcServer.h:66-70 RpcServer::bind(Func) *)
definition bind_function :: "string \<Rightarrow> 'u user_fun \<Rightarrow> 'u rpc_server \<Rightarrow> 'u rpc_server" where
  "bind_function name func rs = rs\<lparr>functions_tab := (functions_tab rs)(name := Some (callproxy func))\<rparr>"

(* src/rpc/RpcServer.h:73-77 RpcServer::bind(Func, Obj) *)
definition bind_member :: "string \<Rightarrow> ('obj, 'u) user_mem_fun \<Rightarrow> 'obj \<Rightarrow> 'u rpc_server \<Rightarrow> 'u rpc_server" where
  "bind_member name func obj rs = rs\<lparr>functions_tab := (functions_tab rs)(name := Some (callproxy_mem func obj))\<rparr>"

definition store_serializer :: "nat \<Rightarrow> serializer \<Rightarrow> 'u rpc_server \<Rightarrow> 'u rpc_server" where
  "store_serializer t ds rs = rs\<lparr>threadLocalSerializer := tl_store t ds (threadLocalSerializer rs)\<rparr>"

definition not_bound :: "string \<Rightarrow> string" where
  "not_bound funcname = ''function not bind: '' @ funcname"

text \<open>
  \<open>t\<close> is the thread that runs the callback; the buffer is the connection's input buffer. The third
  component of the result is the user's state.
\<close>

(* src/rpc/RpcServer.cc:40-64 RpcServer::onMessage *)
definition rpc_onMessage :: "nat \<Rightarrow> 'u rpc_server \<Rightarrow> tcp \<Rightarrow> 'u \<Rightarrow> ('u rpc_server \<times> tcp \<times> 'u) option" where
  "rpc_onMessage t rs w u = do {
     ds \<leftarrow> tl_value t (threadLocalSerializer rs);
     let (b, buf) = buffer_swap (streamBuffer ds) (inputBuffer w);
     let w1 = w\<lparr>inputBuffer := buf\<rparr>;
     (ds1, funcname) \<leftarrow> output_string [] (ds\<lparr>streamBuffer := b\<rparr>);
     (ds2, u1) \<leftarrow>
       (case functions_tab rs funcname of
          None \<Rightarrow> do {
            ds' \<leftarrow> input_scalar (le_bytes 4 (state_num RPC_FUNCTION_NOTBIND)) (ser_clear ds1);
            ds'' \<leftarrow> input_string (not_bound funcname) ds';
            Some (ds'', u)
          }
        | Some fn \<Rightarrow> fn ds1 u);
     (w2, sb) \<leftarrow> send_buffer (streamBuffer ds2) w1;
     Some (store_serializer t (ser_clear (ds2\<lparr>streamBuffer := sb\<rparr>)) rs, w2, u1)
   }"

section \<open>What a handler does\<close>

text \<open>
  The contract of a handler: it takes the bytes of its arguments from the serializer and leaves only
  the reply there.
\<close>

locale rpc_handler =
  fixes h :: "'u handler"
    and valid :: "'a \<Rightarrow> bool"
    and request :: "'a \<Rightarrow> string"
    and result :: "'a \<Rightarrow> 'u \<Rightarrow> 'u \<times> string"
  assumes handles: "valid a \<Longrightarrow> holds ds (request a @ rest) \<Longrightarrow>
    \<exists>ds'. h ds u = Some (ds', fst (result a u)) \<and> holds ds' (snd (result a u))"

lemma holds_swap:
  assumes "holds ds []" "conn_inv w"
  shows "holds (ds\<lparr>streamBuffer := fst (buffer_swap (streamBuffer ds) (inputBuffer w))\<rparr>) (content (inputBuffer w))"
    "buffer_inv (snd (buffer_swap (streamBuffer ds) (inputBuffer w)))"
    "content (snd (buffer_swap (streamBuffer ds) (inputBuffer w))) = []"
  using assms by (simp_all add: holds_def conn_inv_def)

text \<open>The message once the reply is in the serializer.\<close>

definition rpc_done :: "nat \<Rightarrow> string \<Rightarrow> tcp \<Rightarrow> 'u \<Rightarrow> ('u rpc_server \<times> tcp \<times> 'u) option \<Rightarrow> bool" where
  "rpc_done t r w u res \<longleftrightarrow> (\<exists>rs' w' ds'. res = Some (rs', w', u) \<and> conn_inv w' \<and> state w' = Connected
     \<and> content (inputBuffer w') = [] \<and> stream w' = stream w @ (if epipe r w then [] else r)
     \<and> tl_value t (threadLocalSerializer rs') = Some ds' \<and> holds ds' [])"

lemma onMessage_reply:
  assumes w: "conn_inv w" "state w = Connected" and ds: "tl_value t (threadLocalSerializer rs) = Some ds" "holds ds []"
    and name: "output_string [] (ds\<lparr>streamBuffer := fst (buffer_swap (streamBuffer ds) (inputBuffer w))\<rparr>) = Some (ds1, funcname)"
    and ds2: "(case functions_tab rs funcname of
          None \<Rightarrow> do {
            ds' \<leftarrow> input_scalar (le_bytes 4 (state_num RPC_FUNCTION_NOTBIND)) (ser_clear ds1);
            ds'' \<leftarrow> input_string (not_bound funcname) ds';
            Some (ds'', u)
          }
        | Some fn \<Rightarrow> fn ds1 u) = Some (ds2, u1)" "holds ds2 r"
  shows "rpc_done t r w u1 (rpc_onMessage t rs w u)"
proof -
  obtain b buf where swap: "buffer_swap (streamBuffer ds) (inputBuffer w) = (b, buf)" by force
  note sw = holds_swap [OF ds(2) w(1), unfolded swap fst_conv snd_conv]
  have il: "in_loop_thread w" using w(1) by (simp add: conn_inv_def)
  from send_reply [OF w sw(2), of r] obtain w2 where w2: "sendInThread r (w\<lparr>inputBuffer := buf\<rparr>) = Some w2" "conn_inv w2"
    "state w2 = Connected" "inputBuffer w2 = buf" "stream w2 = stream w @ (if epipe r w then [] else r)" by blast
  have b2: "buffer_inv (streamBuffer ds2)" "content (streamBuffer ds2) = r" "byteOrder ds2 = LittleEndian"
    using ds2(2) by (simp_all add: holds_def)
  have sb: "send_buffer (streamBuffer ds2) (w\<lparr>inputBuffer := buf\<rparr>) = Some (w2, streamBuffer ds2)"
    using w2(1) il w(2) b2 by (simp add: send_buffer_def readable_slice)
  have "rpc_onMessage t rs w u = Some (store_serializer t (ser_clear ds2) rs, w2, u1)"
    unfolding rpc_onMessage_def using ds2(1) by (simp add: ds(1) swap name [unfolded swap fst_conv] sb)
  then show ?thesis
    using w2 sw(3) holds_clear [OF b2(1,3)] by (auto simp: rpc_done_def store_serializer_def)
qed

lemma read_name:
  assumes "holds ds (encode (VString name) @ rest)" "plain (VString name)"
  shows "\<exists>ds1. output_string [] ds = Some (ds1, name) \<and> holds ds1 rest"
  using output_string_ok [of ds "clip_string name" rest "[]"] assms length_clip_less [of name] clip_short [of name]
  by simp

context rpc_handler
begin

lemma onMessage_serves:
  assumes w: "conn_inv w" "state w = Connected" and ds: "tl_value t (threadLocalSerializer rs) = Some ds" "holds ds []"
    and b: "functions_tab rs name = Some h" "plain (VString name)" "valid a"
    and input: "content (inputBuffer w) = encode (VString name) @ request a @ rest"
  shows "rpc_done t (snd (result a u)) w (fst (result a u)) (rpc_onMessage t rs w u)"
proof -
  let ?ds = "ds\<lparr>streamBuffer := fst (buffer_swap (streamBuffer ds) (inputBuffer w))\<rparr>"
  obtain ds1 where ds1: "output_string [] ?ds = Some (ds1, name)" "holds ds1 (request a @ rest)"
    using read_name [OF _ b(2), of ?ds "request a @ rest"] holds_swap(1) [OF ds(2) w(1)] input by auto
  obtain ds2 where "h ds1 u = Some (ds2, fst (result a u))" "holds ds2 (snd (result a u))"
    using handles [OF b(3) ds1(2)] by blast
  with onMessage_reply [OF w ds ds1(1)] b(1) show ?thesis by simp
qed

end

section \<open>The handlers of the bound functions\<close>

text \<open>The bytes of a request and of the reply to it.\<close>

definition args_text :: "val list \<Rightarrow> string" where
  "args_text args = concat (map encode args)"

definition success_value :: "val \<Rightarrow> value_t" where
  "success_value v = \<lparr>stateCode = state_num RPC_SUCCESS, vmsg = [], vvalue = v\<rparr>"

definition served :: "'u user_fun \<Rightarrow> val list \<Rightarrow> 'u \<Rightarrow> 'u \<times> string" where
  "served f args u = (let (u1, ret) = call_helper f (map clip args) u in (u1, encode_value (success_value ret)))"

lemma callproxyImpl_serves:
  assumes "list_all2 has_type args (arg_tys f)" "holds ds (args_text args @ rest)"
  shows "\<exists>ds'. callproxyImpl f ds u = Some (ds', fst (served f args u)) \<and> holds ds' (snd (served f args u))"
proof -
  obtain ds1 where ds1: "getTuple (arg_tys f) ds = Some (ds1, map clip args)" "holds ds1 rest"
    using getTuple_ok [of ds args rest "arg_tys f"] assms by (auto simp: args_text_def)
  obtain u1 ret where r: "call_helper f (map clip args) u = (u1, ret)" by force
  have v: "setValue ret (setStateCode RPC_SUCCESS (value_new d)) = success_value ret" for d
    by (simp add: setValue_def setStateCode_def value_new_def success_value_def)
  have "holds (ser_clear ds1) []" using ds1(2) by (intro holds_clear) (simp_all add: holds_def)
  from put_value_ok [OF this] obtain ds3 where "put_value (success_value ret) (ser_clear ds1) = Some ds3"
    "holds ds3 (encode_value (success_value ret))" by force
  then show ?thesis by (simp add: callproxyImpl_def ds1(1) r v served_def Let_def)
qed

lemma callproxyImpl_members:
  "callproxyImpl_mem func obj = callproxyImpl (bind_obj func obj)"
  "callproxyImpl_const func obj = callproxyImpl (bind_obj func obj)"
  by (intro ext; simp add: callproxyImpl_mem_def callproxyImpl_const_def callproxyImpl_def bind_obj_def)+

interpretation free_fun: rpc_handler "callproxy f" "\<lambda>args. list_all2 has_type args (arg_tys f)" args_text "served f" for f :: "'u user_fun"
  by unfold_locales (simp add: callproxy_def [abs_def] callproxyImpl_serves)

interpretation mem_fun: rpc_handler "callproxy_mem func obj" "\<lambda>args. list_all2 has_type args (m_arg_tys func)" args_text
  "served (bind_obj func obj)" for func :: "('obj, 'u) user_mem_fun" and obj
  by unfold_locales (simp add: callproxy_mem_def [abs_def] callproxyImpl_members callproxyImpl_serves bind_obj_def)

text \<open>A message for a function that is not bound.\<close>

lemma message_not_bound:
  assumes "conn_inv w" "state w = Connected" "tl_value t (threadLocalSerializer rs) = Some ds" "holds ds []"
    "functions_tab rs name = None" "plain (VString name)" "content (inputBuffer w) = encode (VString name) @ rest"
  shows "rpc_done t (le_bytes 4 1 @ encode (VString (not_bound name))) w u (rpc_onMessage t rs w u)"
proof -
  let ?ds = "ds\<lparr>streamBuffer := fst (buffer_swap (streamBuffer ds) (inputBuffer w))\<rparr>"
  obtain ds1 where ds1: "output_string [] ?ds = Some (ds1, name)" "holds ds1 rest"
    using read_name [OF _ assms(6), of ?ds rest] holds_swap(1) [OF assms(4,1)] assms(7) by auto
  have "holds (ser_clear ds1) []" using ds1(2) by (intro holds_clear) (simp_all add: holds_def)
  from input_val_ok [OF this, of "VScalar (le_bytes 4 1)"] obtain d where d: "input_scalar (le_bytes 4 1) (ser_clear ds1) = Some d"
    "holds d (le_bytes 4 1)" by auto
  from input_string_ok [OF d(2), of "not_bound name"] obtain ds2 where "input_string (not_bound name) d = Some ds2"
    "holds ds2 (le_bytes 4 1 @ encode (VString (not_bound name)))" by auto
  with onMessage_reply [OF assms(1-4) ds1(1), of u ds2 u] assms(5) d(1) show ?thesis by simp
qed

section \<open>Properties\<close>

text \<open>
  A message that names a bound function and holds its arguments is answered once, with the code of
  success and the result of the function on the arguments; the user's state is what the function made
  of it; the thread's serializer is empty again. All of the input is gone: \<open>rest\<close>, what a client had
  sent behind the call, is lost.
\<close>
theorem rpc_call_served:
  assumes "conn_inv w" "state w = Connected" "tl_value t (threadLocalSerializer rs) = Some ds" "holds ds []"
    "functions_tab rs name = Some (callproxy f)" "plain (VString name)" "list_all2 has_type args (arg_tys f)"
    "list_all plain args" "content (inputBuffer w) = encode (VString name) @ args_text args @ rest"
    "call_helper f args u = (u1, ret)" "\<not> epipe (encode_value (success_value ret)) w"
  shows "\<exists>rs' w' ds'. rpc_onMessage t rs w u = Some (rs', w', u1) \<and> conn_inv w' \<and> state w' = Connected
    \<and> stream w' = stream w @ encode_value (success_value ret) \<and> content (inputBuffer w') = []
    \<and> tl_value t (threadLocalSerializer rs') = Some ds' \<and> holds ds' []"
proof -
  have "served f args u = (u1, encode_value (success_value ret))"
    using assms(10) map_clip_plain [OF assms(8)] by (simp add: served_def)
  with free_fun.onMessage_serves [OF assms(1-6) assms(7) assms(9), of u] assms(11) show ?thesis
    unfolding rpc_done_def by fastforce
qed

text \<open>
  A message for a function that is not bound is answered with that code and the name, and no user
  function runs.
\<close>
theorem rpc_not_bound_answered:
  assumes "conn_inv w" "state w = Connected" "tl_value t (threadLocalSerializer rs) = Some ds" "holds ds []"
    "functions_tab rs name = None" "plain (VString name)" "content (inputBuffer w) = encode (VString name) @ rest"
    "r = le_bytes 4 1 @ encode (VString (not_bound name))" "\<not> epipe r w"
  shows "\<exists>rs' w' ds'. rpc_onMessage t rs w u = Some (rs', w', u) \<and> stream w' = stream w @ r \<and> content (inputBuffer w') = []
    \<and> tl_value t (threadLocalSerializer rs') = Some ds' \<and> holds ds' [] \<and> conn_inv w'"
  using message_not_bound [OF assms(1-7), of u] assms(8,9) unfolding rpc_done_def by fastforce

text \<open>
  Messages have no frame: when a part of the function's name has not arrived yet, the whole server
  process stops.
\<close>
theorem rpc_fragment_stops_server:
  assumes "conn_inv w" "tl_value t (threadLocalSerializer rs) = Some ds" "holds ds []"
    "content (inputBuffer w) = take n (encode (VString name))" "n < length (encode (VString name))"
  shows "rpc_onMessage t rs w u = None"
proof -
  obtain b buf where swap: "buffer_swap (streamBuffer ds) (inputBuffer w) = (b, buf)" by force
  let ?ds = "ds\<lparr>streamBuffer := b\<rparr>" and ?xs = "take n (encode (VString name))"
  have h: "holds ?ds ?xs" using holds_swap(1) [OF assms(3,1)] assms(4) swap by simp
  have "length ?xs < 2 \<or> length ?xs < 2 + le_val (take 2 ?xs)"
  proof (cases "n < 2")
    case False
    then have two: "take 2 ?xs = le_bytes 2 (length (clip_string name))" by (simp add: min_absorb2)
    have len: "length ?xs = n" using assms(5) by (simp only: length_take min_absorb2 less_imp_le)
    show ?thesis unfolding two len le_val_two [OF length_clip_less] using assms(5) by simp
  qed (use assms(5) in simp)
  from output_string_short [OF h this] show ?thesis
    by (simp add: rpc_onMessage_def assms(2) swap)
qed

text \<open>
  No callback finds a null serializer: after \<open>start\<close>, every loop the server deals connections to has a
  fresh one of its own.
\<close>
theorem rpc_serializers_ready:
  assumes "rpc_server_new base idle lsock True addr n name = Some rs0" "rpc_start base ls True rs0 = Some rs"
    "deal k (ioThreadPool (rpc_tcp rs)) = Some (p, dealt)" "t \<in> set dealt"
  shows "tl_value t (threadLocalSerializer rs) = Some serializer_new"
proof -
  from assms(1) obtain s0 where n: "server_new base idle lsock True addr n = Some s0"
    and s0: "rs0 = \<lparr>serverName = name, rpc_tcp = s0, threadLocalSerializer = tl_new, functions_tab = (\<lambda>_. None)\<rparr>"
    by (auto simp: rpc_server_new_def bind_Some_iff)
  from assms(2) obtain s v where s: "start_contexts serializer_new base ls True s0 tl_new = Some (s, v)"
    "rpc_tcp rs = s" "threadLocalSerializer rs = v"
    by (auto simp: rpc_start_def s0 bind_Some_iff)
  with start_contexts_ready [OF n s(1) _ assms(4)] assms(3) show ?thesis by simp
qed

text \<open>A bound member function is served the same way, on its object.\<close>

lemma rpc_member_served:
  assumes "conn_inv w" "state w = Connected" "tl_value t (threadLocalSerializer rs) = Some ds" "holds ds []"
    "rs = bind_member name func obj rs0" "plain (VString name)" "list_all2 has_type args (m_arg_tys func)"
    "content (inputBuffer w) = encode (VString name) @ args_text args @ rest"
  shows "rpc_done t (snd (served (bind_obj func obj) args u)) w (fst (served (bind_obj func obj) args u)) (rpc_onMessage t rs w u)"
  using mem_fun.onMessage_serves [OF assms(1-4) _ assms(6-8), of obj u] by (simp add: assms(5) bind_member_def)

section \<open>Examples\<close>

text \<open>\<open>int add(int a, int b)\<close>, which counts its calls.\<close>

definition add_fun :: "nat user_fun" where
  "add_fun = \<lparr>arg_tys = [TScalar 4, TScalar 4], ret_ty = Some (TScalar 4),
     body = (\<lambda>args u. (u + 1, case args of [VScalar a, VScalar b] \<Rightarrow> VScalar (le_bytes 4 (le_val a + le_val b)) | _ \<Rightarrow> VScalar []))\<rparr>"

definition sample_rpc :: "nat rpc_server" where
  "sample_rpc = bind_function ''add'' add_fun
     \<lparr>serverName = ''rpc_server'', rpc_tcp = sample_server, threadLocalSerializer = tl_initValue 7 serializer_new tl_new,
      functions_tab = (\<lambda>_. None)\<rparr>"

lemma sample_rpc_simps:
  "tl_value 7 (threadLocalSerializer sample_rpc) = Some serializer_new"
  "functions_tab sample_rpc ''add'' = Some (callproxy add_fun)" "functions_tab sample_rpc ''sub'' = None"
  by (simp_all add: sample_rpc_def bind_function_def tl_value_def tl_initValue_def)

theorem rpc_call_served_witness:
  "\<exists>w rs' w'. rpc_onMessage 7 sample_rpc w 0 = Some (rs', w', 1)
    \<and> content (inputBuffer w) = encode (VString ''add'') @ args_text [VScalar (le_bytes 4 10), VScalar (le_bytes 4 100)] @ ''x''
    \<and> stream w' = encode_value (success_value (VScalar (le_bytes 4 110))) \<and> content (inputBuffer w') = []"
proof -
  let ?args = "[VScalar (le_bytes 4 10), VScalar (le_bytes 4 100)]"
  obtain w where w: "conn_inv w" "state w = Connected" "content (inputBuffer w) = encode (VString ''add'') @ args_text ?args @ ''x''"
    "stream w = []" "\<And>r. \<not> epipe r w" using sample_input by blast
  have "list_all2 has_type ?args (arg_tys add_fun)" "list_all plain ?args" by (simp_all add: add_fun_def)
  moreover have "call_helper add_fun ?args 0 = (1, VScalar (le_bytes 4 110))"
    by (simp add: call_helper_def add_fun_def invoke_def le_val_bytes)
  ultimately show ?thesis
    using rpc_call_served [OF w(1,2) sample_rpc_simps(1) holds_new sample_rpc_simps(2) _ _ _ w(3) _ w(5)] w(3,4) by fastforce
qed

theorem rpc_not_bound_answered_witness:
  "\<exists>w rs' w'. rpc_onMessage 7 sample_rpc w 0 = Some (rs', w', 0) \<and> content (inputBuffer w) = encode (VString ''sub'')
    \<and> stream w' = le_bytes 4 1 @ encode (VString ''function not bind: sub'')"
proof -
  obtain w where w: "conn_inv w" "state w = Connected" "content (inputBuffer w) = encode (VString ''sub'') @ []"
    "stream w = []" "\<And>r. \<not> epipe r w" using sample_input by blast
  from rpc_not_bound_answered [OF w(1,2) sample_rpc_simps(1) holds_new sample_rpc_simps(3) _ w(3) refl w(5), of 0] w(3,4)
  show ?thesis by (auto simp: not_bound_def)
qed

theorem rpc_fragment_stops_server_witness:
  "\<exists>w. conn_inv w \<and> content (inputBuffer w) = take 3 (encode (VString ''add'')) \<and> rpc_onMessage 7 sample_rpc w 0 = None"
proof -
  obtain w where w: "conn_inv w" "content (inputBuffer w) = take 3 (encode (VString ''add''))" using sample_input by blast
  from rpc_fragment_stops_server [OF w(1) sample_rpc_simps(1) holds_new w(2), of 0] w show ?thesis by (auto simp: clip_short)
qed

theorem rpc_serializers_ready_witness:
  "tl_value 7 (fold (\<lambda>t. tl_initValue t serializer_new) [7, 8] tl_new) = Some serializer_new"
proof -
  let ?rs0 = "\<lparr>serverName = ''rpc_server'', rpc_tcp = open_fd 3 (open_fd 4 \<lparr>srv_started = False, baseLoop = 0, idleFd = 3, listenSock = 4,
     accept_reading = False, hostIpPort = toIpPort (inet_any 80), ioThreadPool = loop_pool_new 0 2, nextConnId = 0,
     connectionMap = [], srv_deleted = False, open_fds = {}, conns = (\<lambda>_. None), nconns = 0, queues = (\<lambda>_. []),
     finished = []\<rparr>), threadLocalSerializer = tl_new, functions_tab = \<lambda>_. None\<rparr> :: nat rpc_server"
  let ?p = "(loop_pool_new 0 2)\<lparr>loops := [7, 8], lp_init_calls := [7, 8], lp_started := True\<rparr>"
  have n: "rpc_server_new 0 3 4 True (inet_any 80) 2 ''rpc_server'' = Some ?rs0"
    by (simp add: rpc_server_new_def server_new_def abort_simps)
  obtain rs where rs: "rpc_start 0 [7, 8] True ?rs0 = Some rs" "ioThreadPool (rpc_tcp rs) = ?p"
    "threadLocalSerializer rs = fold (\<lambda>t. tl_initValue t serializer_new) [7, 8] tl_new"
    by (simp add: rpc_start_def start_contexts_def server_start_def open_fd_def abort_simps loop_pool_start_def loop_pool_new_def Let_def)
  have "\<exists>p. deal 1 ?p = Some (p, [7])" by (simp add: getNextLoop_def loop_pool_new_def abort_simps)
  then obtain p where "deal 1 (ioThreadPool (rpc_tcp rs)) = Some (p, [7])" using rs(2) by auto
  from rpc_serializers_ready [OF n rs(1) this, of 7] rs(3) show ?thesis by simp
qed

end
