(* ===== verification/RpcClient.thy ===== *)
theory RpcClient
  imports RpcServer
begin

text \<open>
  \<open>rpc/RpcClient.h\<close> and \<open>.cc\<close>: blocking calls over one connection, and a call from end to end.

  The system calls are inputs: the results of the attempts to connect, what \<open>write\<close> returns for the
  bytes it is given, what \<open>readv\<close> delivers. \<open>value_\<close> of the returned value is indeterminate until it
  is read: \<open>junk\<close>. A message is shorter than \<open>2\<^sup>3\<^sup>1\<close> bytes (\<open>int n\<close>).
\<close>

section \<open>The client\<close>

(* src/rpc/RpcClient.h:45-47 RpcClient *)
record rpc_client =
  rc_state :: rpc_state
  sockFd :: int
  rc_serializer :: serializer

(* src/rpc/RpcClient.cc:12-25 RpcClient::RpcClient *)
definition rpc_client_new :: "int \<Rightarrow> rpc_client option" where
  "rpc_client_new fd =
     (if fd < 0 then None else Some \<lparr>rc_state = RPC_SUCCESS, sockFd = fd, rc_serializer = serializer_new\<rparr>)"

text \<open>The attempts from the \<open>i\<close>-th on: the seconds slept, and whether \<open>connect\<close> returned (it calls \<open>exit\<close> otherwise).\<close>

(* src/rpc/RpcClient.cc:31-47 RpcClient::connect *)
function connect_from :: "nat \<Rightarrow> (nat \<Rightarrow> bool) \<Rightarrow> nat list \<times> bool" where
  "connect_from i ok =
     (if i < 11 then
        if ok i then ([], True)
        else let (sleeps, r) = connect_from (i + 1) ok in (i # sleeps, r)
      else ([], False))"
  by pat_completeness auto
termination by (relation "measure (\<lambda>(i, _). 11 - i)") auto

declare connect_from.simps [simp del]

(* src/rpc/RpcClient.cc:28-30 RpcClient::connect *)
definition rpc_connect :: "string \<Rightarrow> nat \<Rightarrow> (sockaddr_in \<Rightarrow> nat \<Rightarrow> bool) \<Rightarrow> nat list \<times> bool" where
  "rpc_connect ip port ok = (let addr = inet_of ip (to_uint16 port) in connect_from 1 (ok addr))"

definition set_ser :: "serializer \<Rightarrow> rpc_client \<Rightarrow> rpc_client" where
  "set_ser s c = c\<lparr>rc_serializer := s\<rparr>"

text \<open>The last component of the result is the list of messages handed to \<open>write\<close>.\<close>

(* src/rpc/RpcClient.h:52-87 RpcClient::netCall *)
definition netCall :: "val \<Rightarrow> (string \<Rightarrow> int) \<Rightarrow> read_result \<Rightarrow> rpc_client \<Rightarrow> (rpc_client \<times> value_t \<times> string list) option" where
  "netCall junk wr rd c = do {
     let error = (if rc_state c \<noteq> RPC_RECV_TIMEOUT then False else True);
     let (c1, error1, out) =
       (if \<not> error then
          let n = ser_readableBytes (rc_serializer c);
              bytes = ser_bytes n (rc_serializer c);
              ret = wr bytes
          in (set_ser (ser_clear (rc_serializer c)) c, ret \<noteq> int n, [bytes])
        else (c, error, []));
     (c2, error2) \<leftarrow>
       (if \<not> error1 then do {
          (b, ret, _) \<leftarrow> readFd (streamBuffer (rc_serializer c1)) rd;
          Some (set_ser ((rc_serializer c1)\<lparr>streamBuffer := b\<rparr>) c1, ret \<le> 0)
        } else Some (c1, error1));
     if \<not> error2 then do {
       (ds, val) \<leftarrow> get_value (value_new junk) (rc_serializer c2);
       let c3 = set_ser (ser_clear ds) c2;
       let c4 = (if stateCode val = state_num RPC_RECV_TIMEOUT then c3\<lparr>rc_state := RPC_RECV_TIMEOUT\<rparr> else c3);
       Some (c4, val, out)
     } else
       Some (c2\<lparr>rc_state := RPC_RECV_TIMEOUT\<rparr>,
         setMessage ''recv timeout'' (setStateCode RPC_RECV_TIMEOUT (value_new junk)), out)
   }"

text \<open>The overload without arguments is the case of an empty tuple.\<close>

(* src/rpc/RpcClient.h:25-40 RpcClient::call *)
definition rpc_call :: "string \<Rightarrow> val list \<Rightarrow> val \<Rightarrow> (string \<Rightarrow> int) \<Rightarrow> read_result \<Rightarrow> rpc_client
    \<Rightarrow> (rpc_client \<times> value_t \<times> string list) option" where
  "rpc_call func args junk wr rd c = do {
     s1 \<leftarrow> input_string func (rc_serializer c);
     s2 \<leftarrow> packageArgs args s1;
     netCall junk wr rd (set_ser s2 c)
   }"

section \<open>Sending a request\<close>

definition request_bytes :: "string \<Rightarrow> val list \<Rightarrow> string" where
  "request_bytes func args = encode (VString func) @ args_text args"

lemma set_ser_simps [simp]:
  "rc_serializer (set_ser s c) = s" "rc_state (set_ser s c) = rc_state c" "set_ser s (set_ser s' c) = set_ser s c"
  "sockFd (set_ser s c) = sockFd c"
  by (simp_all add: set_ser_def)

lemma request_packed:
  assumes "holds (rc_serializer c) xs"
  shows "\<exists>s. rpc_call func args junk wr rd c = netCall junk wr rd (set_ser s c) \<and> holds s (xs @ request_bytes func args)"
proof -
  obtain s1 where s1: "input_string func (rc_serializer c) = Some s1" "holds s1 (xs @ encode (VString func))"
    using input_string_ok [OF assms] by blast
  obtain s2 where "packageArgs args s1 = Some s2" "holds s2 ((xs @ encode (VString func)) @ concat (map encode args))"
    using packageArgs_ok [OF s1(2)] by blast
  with s1(1) show ?thesis by (auto simp: rpc_call_def request_bytes_def args_text_def)
qed

lemma write_all:
  assumes "holds s xs"
  shows "ser_bytes (ser_readableBytes s) s = xs" "ser_readableBytes s = length xs" "holds (ser_clear s) []"
  using holds_readable [OF assms] holds_bytes [OF assms, of "length xs"] assms
  by (simp_all add: holds_clear [unfolded holds_def] holds_def)

lemma holds_readFd:
  assumes "holds s xs" "length r \<le> extrabuf_size"
  shows "\<exists>b. readFd (streamBuffer s) (ReadBytes r) = Some (b, int (length r), None) \<and> holds (s\<lparr>streamBuffer := b\<rparr>) (xs @ r)"
  using readFd_ok [of "streamBuffer s" r] assms by (auto simp: holds_def)

text \<open>A call whose request is written, up to the reading of what was delivered.\<close>

lemma call_reads:
  assumes "holds (rc_serializer c) []" "rc_state c \<noteq> RPC_RECV_TIMEOUT" "wr (request_bytes func args) = int (length (request_bytes func args))"
    "r \<noteq> []" "length r \<le> extrabuf_size"
  shows "\<exists>s. holds s r \<and> rpc_call func args junk wr (ReadBytes r) c = do {
    (ds, val) \<leftarrow> get_value (value_new junk) s;
    let c3 = set_ser (ser_clear ds) c;
    Some (if stateCode val = state_num RPC_RECV_TIMEOUT then c3\<lparr>rc_state := RPC_RECV_TIMEOUT\<rparr> else c3, val, [request_bytes func args]) }"
proof -
  from request_packed [OF assms(1)] obtain s where s: "rpc_call func args junk wr (ReadBytes r) c = netCall junk wr (ReadBytes r) (set_ser s c)"
    "holds s (request_bytes func args)" by (metis append_Nil)
  note wa = write_all [OF s(2)]
  from holds_readFd [OF wa(3) assms(5)] obtain b where b: "readFd (streamBuffer (ser_clear s)) (ReadBytes r) = Some (b, int (length r), None)"
    "holds ((ser_clear s)\<lparr>streamBuffer := b\<rparr>) r" by auto
  show ?thesis
    using b(2) by (intro exI [of _ "(ser_clear s)\<lparr>streamBuffer := b\<rparr>"])
      (simp add: s(1) netCall_def wa(2) wa(1) [unfolded wa(2)] assms(2-4) b(1) Let_def)
qed

lemma success_code: "stateCode (success_value v) = 0" by (simp add: success_value_def)

text \<open>What the client makes of the two kinds of reply.\<close>

lemma call_success:
  assumes "holds (rc_serializer c) []" "rc_state c \<noteq> RPC_RECV_TIMEOUT" "wr (request_bytes func args) = int (length (request_bytes func args))"
    "r = encode_value (success_value ret)" "length r \<le> extrabuf_size" "has_type ret rt" "plain ret" "blank rt junk"
  shows "\<exists>c'. rpc_call func args junk wr (ReadBytes r) c = Some (c', success_value ret, [request_bytes func args])
    \<and> holds (rc_serializer c') [] \<and> rc_state c' = rc_state c"
proof -
  have "r \<noteq> []" using length_le_bytes [of 4 0] by (auto simp: assms(4) encode_value_def success_code simp del: length_le_bytes)
  from call_reads [where wr = wr, OF assms(1-3) this assms(5), of junk] obtain s where
    s: "holds s r" "rpc_call func args junk wr (ReadBytes r) c = do {
      (ds, val) \<leftarrow> get_value (value_new junk) s;
      let c3 = set_ser (ser_clear ds) c;
      Some (if stateCode val = state_num RPC_RECV_TIMEOUT then c3\<lparr>rc_state := RPC_RECV_TIMEOUT\<rparr> else c3, val, [request_bytes func args]) }"
    by blast
  from get_value_ok [of s "success_value ret" "[]" rt "value_new junk"] s(1) assms(4,6,8) obtain s' where
    s': "get_value (value_new junk) s = Some (s', success_value ret)" "holds s' []"
    by (auto simp: success_value_def successful_def value_new_def clip_plain [OF assms(7)] clip_short)
  have "holds (ser_clear s') []" using s'(2) by (rule write_all(3))
  then show ?thesis by (simp add: s(2) s'(1) success_code)
qed

lemma call_not_bound:
  assumes "holds (rc_serializer c) []" "rc_state c \<noteq> RPC_RECV_TIMEOUT" "wr (request_bytes func args) = int (length (request_bytes func args))"
    "r = le_bytes 4 1 @ encode (VString m)" "length r \<le> extrabuf_size" "plain (VString m)"
  shows "\<exists>c'. rpc_call func args junk wr (ReadBytes r) c = Some (c', \<lparr>stateCode = 1, vmsg = m, vvalue = junk\<rparr>, [request_bytes func args])
    \<and> holds (rc_serializer c') [] \<and> rc_state c' = rc_state c"
proof -
  have "r \<noteq> []" using length_le_bytes [of 4 1] by (auto simp: assms(4) simp del: length_le_bytes)
  from call_reads [where wr = wr, OF assms(1-3) this assms(5), of junk] obtain s where
    s: "holds s r" "rpc_call func args junk wr (ReadBytes r) c = do {
      (ds, val) \<leftarrow> get_value (value_new junk) s;
      let c3 = set_ser (ser_clear ds) c;
      Some (if stateCode val = state_num RPC_RECV_TIMEOUT then c3\<lparr>rc_state := RPC_RECV_TIMEOUT\<rparr> else c3, val, [request_bytes func args]) }"
    by blast
  have "holds s (le_bytes 4 1 @ encode (VString m) @ [])" using s(1) assms(4) by simp
  from get_value_failed [OF this, of "value_new junk"] assms(6) obtain s' where
    s': "get_value (value_new junk) s = Some (s', \<lparr>stateCode = 1, vmsg = m, vvalue = junk\<rparr>)" "holds s' []"
    by (auto simp: value_new_def clip_short)
  have "holds (ser_clear s') []" using s'(2) by (rule write_all(3))
  then show ?thesis by (simp add: s(2) s'(1))
qed

text \<open>The request does not depend on the reply.\<close>

lemma netCall_writes:
  assumes "rc_state c \<noteq> RPC_RECV_TIMEOUT" "netCall junk wr rd c = Some (c', v, out)"
  shows "out = [ser_bytes (ser_readableBytes (rc_serializer c)) (rc_serializer c)]"
proof -
  let ?ds = "ser_clear (rc_serializer c)" and ?n = "ser_readableBytes (rc_serializer c)"
  let ?read = "readFd (streamBuffer ?ds) rd"
  note d = assms(2) [unfolded netCall_def Let_def]
  show ?thesis
  proof (cases "wr (ser_bytes ?n (rc_serializer c)) = int ?n")
    case wr: True
    then obtain b ret e where r: "?read = Some (b, ret, e)" using d assms(1) by (cases ?read) auto
    show ?thesis
    proof (cases "ret \<le> 0")
      case True
      then show ?thesis using d assms(1) wr r by simp
    next
      case False
      then show ?thesis using d assms(1) wr r
        by (cases "get_value (value_new junk) (?ds\<lparr>streamBuffer := b\<rparr>)") auto
    qed
  next
    case False
    then show ?thesis using d assms(1) by simp
  qed
qed

lemma call_writes:
  assumes "holds (rc_serializer c) []" "rc_state c \<noteq> RPC_RECV_TIMEOUT" "rpc_call func args junk wr rd c = Some (c', v, out)"
  shows "out = [request_bytes func args]"
proof -
  from request_packed [OF assms(1)] obtain s where s: "rpc_call func args junk wr rd c = netCall junk wr rd (set_ser s c)"
    "holds s (request_bytes func args)" by (metis append_Nil)
  from netCall_writes [of "set_ser s c"] assms(2,3) s(1) write_all(1) [OF s(2)] show ?thesis by simp
qed

section \<open>Properties\<close>

text \<open>
  A call from end to end: the bytes the client writes are the message the server gets, and the bytes
  the server sends are what the client reads. The bound function runs once, on the arguments of the
  call, and the caller gets its result with the code of success; the client is ready for the next call.
\<close>
theorem rpc_end_to_end:
  assumes "conn_inv w" "state w = Connected" "tl_value t (threadLocalSerializer rs) = Some ds" "holds ds []"
    "functions_tab rs name = Some (callproxy f)" "plain (VString name)" "list_all2 has_type args (arg_tys f)"
    "list_all plain args" "content (inputBuffer w) = request_bytes name args"
    "call_helper f args u = (u1, ret)" "\<not> epipe (encode_value (success_value ret)) w"
    "holds (rc_serializer c) []" "rc_state c \<noteq> RPC_RECV_TIMEOUT" "wr (request_bytes name args) = int (length (request_bytes name args))"
    "has_type ret rt" "plain ret" "blank rt junk" "length (encode_value (success_value ret)) \<le> extrabuf_size"
  shows "\<exists>rs' w' c' reply. rpc_onMessage t rs w u = Some (rs', w', u1) \<and> stream w' = stream w @ reply
    \<and> rpc_call name args junk wr (ReadBytes reply) c = Some (c', success_value ret, [content (inputBuffer w)])
    \<and> holds (rc_serializer c') [] \<and> rc_state c' = rc_state c"
proof -
  let ?r = "encode_value (success_value ret)"
  from assms(9) have "content (inputBuffer w) = encode (VString name) @ args_text args @ []"
    by (simp add: request_bytes_def)
  from free_fun.onMessage_serves [OF assms(1-6) assms(7) this, of u] obtain rs' w' where
    srv: "rpc_onMessage t rs w u = Some (rs', w', u1)" "stream w' = stream w @ ?r"
    using assms(10,11) map_clip_plain [OF assms(8)] by (auto simp: rpc_done_def served_def)
  from call_success [where wr = wr, OF assms(12-14) refl assms(18,15,16,17)] srv show ?thesis
    unfolding assms(9) by blast
qed

text \<open>
  A reply whose value has not arrived yet is not waited for: the caller gets the code of success and
  a value nobody sent (the indeterminate \<open>value_\<close>).
\<close>
theorem rpc_partial_reply_is_garbage:
  assumes "holds (rc_serializer c) []" "rc_state c \<noteq> RPC_RECV_TIMEOUT" "wr (request_bytes name args) = int (length (request_bytes name args))"
    "length junk = length bs" "r = take n (encode_value (success_value (VScalar bs)))" "6 \<le> n" "n < 6 + length bs" "n \<le> extrabuf_size"
  shows "\<exists>c'. rpc_call name args (VScalar junk) wr (ReadBytes r) c = Some (c', success_value (VScalar junk), [request_bytes name args])"
proof -
  let ?pre = "le_bytes 4 0 @ le_bytes 2 0" and ?tail = "take (n - 6) bs"
  have z: "clip_string [] = []" by (simp add: clip_string_def c_string_def)
  have r: "r = ?pre @ ?tail" using assms(5,6) by (simp add: encode_value_def success_value_def z)
  have ne: "r \<noteq> []" "length r \<le> extrabuf_size"
    using assms(6-8) by (auto simp: r simp flip: length_greater_0_conv)
  from call_reads [where wr = wr, OF assms(1-3) ne, of "VScalar junk"] obtain s where
    s: "holds s r" "rpc_call name args (VScalar junk) wr (ReadBytes r) c = do {
      (ds, val) \<leftarrow> get_value (value_new (VScalar junk)) s;
      let c3 = set_ser (ser_clear ds) c;
      Some (if stateCode val = state_num RPC_RECV_TIMEOUT then c3\<lparr>rc_state := RPC_RECV_TIMEOUT\<rparr> else c3, val, [request_bytes name args]) }"
    by blast
  obtain s1 where s1: "output_scalar 4 (le_bytes 4 0) s = Some (s1, le_bytes 4 0)" "holds s1 (le_bytes 2 0 @ ?tail)"
    using output_scalar_ok [of s "le_bytes 4 0" "le_bytes 2 0 @ ?tail" "le_bytes 4 0"] s(1) r by auto
  obtain s2 where s2: "output_string [] s1 = Some (s2, [])" "holds s2 ?tail"
    using output_string_ok [of s1 "[]" ?tail "[]"] s1(2) by auto
  have "length ?tail < length junk" using assms(4,6,7) by simp
  from output_scalar_short [OF s2(2) this] have "output_val (VScalar junk) s2 = Some (s2, VScalar junk)" by simp
  with s1(1) s2(1) have "get_value (value_new (VScalar junk)) s = Some (s2, success_value (VScalar junk))"
    by (simp add: get_value_def value_new_def success_value_def le_val_bytes Let_def)
  then show ?thesis by (simp add: s(2) success_value_def)
qed

text \<open>
  After a timeout the client never talks to the server again: every call fails at once with the code
  of the timeout, nothing is written, and the serializer, which is not cleared on this path, keeps
  every request it is given.
\<close>
theorem rpc_timeout_is_final:
  assumes "holds (rc_serializer c) xs" "rc_state c = RPC_RECV_TIMEOUT"
  shows "\<exists>c'. rpc_call name args junk wr rd c = Some (c', \<lparr>stateCode = 2, vmsg = ''recv timeout'', vvalue = junk\<rparr>, [])
    \<and> rc_state c' = RPC_RECV_TIMEOUT \<and> holds (rc_serializer c') (xs @ request_bytes name args)"
proof -
  from request_packed [OF assms(1)] obtain s where s: "rpc_call name args junk wr rd c = netCall junk wr rd (set_ser s c)"
    "holds s (xs @ request_bytes name args)" by blast
  from s(2) show ?thesis
    by (simp add: s(1) netCall_def assms(2) Let_def value_new_def setStateCode_def setMessage_def)
qed

lemma connect_from_spec:
  "i \<le> 11 \<Longrightarrow> connect_from i ok = (case filter ok [i..<11] of [] \<Rightarrow> ([i..<11], False) | k # _ \<Rightarrow> ([i..<k], True))"
proof (induction i ok rule: connect_from.induct)
  case (1 i ok)
  show ?case
  proof (cases "i < 11")
    case True
    have up: "[i..<11] = i # [Suc i..<11]" using True by (rule upt_conv_Cons)
    note step = connect_from.simps [of i ok]
    show ?thesis
    proof (cases "ok i")
      case ok: True
      then show ?thesis by (simp add: step True up)
    next
      case not: False
      then have rest: "connect_from (Suc i) ok =
          (case filter ok [Suc i..<11] of [] \<Rightarrow> ([Suc i..<11], False) | k # _ \<Rightarrow> ([Suc i..<k], True))"
        using 1(1) [OF True not] True unfolding Suc_eq_plus1 by simp
      show ?thesis
      proof (cases "filter ok [Suc i..<11]")
        case Nil
        then show ?thesis using rest not True by (simp add: step up)
      next
        case (Cons k ks)
        then have "k \<in> set (filter ok [Suc i..<11])" by simp
        then have "[i..<k] = i # [Suc i..<k]" by (intro upt_conv_Cons) simp
        then show ?thesis using rest not True Cons by (simp add: step up)
      qed
    qed
  next
    case False
    then show ?thesis by (simp add: connect_from.simps [of i])
  qed
qed

text \<open>
  \<open>connect\<close> tries at most ten times, sleeping 1, 2, ... seconds after each failure; it returns after
  the first success and ends the process when there is none.
\<close>
theorem rpc_connect_attempts:
  "rpc_connect ip port ok =
    (case filter (ok (inet_of ip (port mod 65536))) [1..<11] of
       [] \<Rightarrow> ([1, 2, 3, 4, 5, 6, 7, 8, 9, 10], False)
     | k # _ \<Rightarrow> ([1..<k], True))"
proof -
  have up: "[1..<11] = [1, 2, 3, 4, 5, 6, 7, 8, 9, 10::nat]" by code_simp
  from connect_from_spec [of 1 "ok (inet_of ip (port mod 65536))"] show ?thesis
    unfolding rpc_connect_def to_uint16_def Let_def up by simp
qed

section \<open>Examples\<close>

definition sample_rpc_client :: rpc_client where
  "sample_rpc_client = \<lparr>rc_state = RPC_SUCCESS, sockFd = 3, rc_serializer = serializer_new\<rparr>"

theorem rpc_end_to_end_witness:
  "\<exists>w rs' w' c'. rpc_onMessage 7 sample_rpc w 0 = Some (rs', w', 1)
    \<and> rpc_call ''add'' [VScalar (le_bytes 4 10), VScalar (le_bytes 4 100)] (VScalar ''junk'') (\<lambda>s. int (length s))
      (ReadBytes (stream w')) sample_rpc_client = Some (c', success_value (VScalar (le_bytes 4 110)), [content (inputBuffer w)])"
proof -
  let ?args = "[VScalar (le_bytes 4 10), VScalar (le_bytes 4 100)]" and ?ret = "VScalar (le_bytes 4 110)"
  obtain w where w: "conn_inv w" "state w = Connected" "content (inputBuffer w) = request_bytes ''add'' ?args"
    "stream w = []" "\<And>r. \<not> epipe r w" using sample_input by blast
  have a: "list_all2 has_type ?args (arg_tys add_fun)" "list_all plain ?args" "plain (VString ''add'')" by (simp_all add: add_fun_def)
  have r: "call_helper add_fun ?args 0 = (1, ?ret)"
    by (simp add: call_helper_def add_fun_def invoke_def le_val_bytes)
  have c: "holds (rc_serializer sample_rpc_client) []" "rc_state sample_rpc_client \<noteq> RPC_RECV_TIMEOUT"
    by (simp_all add: sample_rpc_client_def holds_new)
  have "length (encode_value (success_value ?ret)) \<le> extrabuf_size"
    by (simp add: encode_value_def success_value_def extrabuf_size_def clip_string_def c_string_def)
  from rpc_end_to_end [where wr = "\<lambda>s. int (length s)" and rt = "TScalar 4" and junk = "VScalar ''junk''",
    OF w(1,2) sample_rpc_simps(1) holds_new sample_rpc_simps(2) a(3,1,2) w(3) r w(5) c refl _ _ _ this]
  show ?thesis using w(4) by auto
qed

theorem rpc_partial_reply_is_garbage_witness:
  "\<exists>c'. rpc_call ''add'' [] (VScalar ''junk'') (\<lambda>s. int (length s))
    (ReadBytes (take 8 (encode_value (success_value (VScalar (le_bytes 4 110)))))) sample_rpc_client
    = Some (c', success_value (VScalar ''junk''), [request_bytes ''add'' []])"
proof -
  have c: "holds (rc_serializer sample_rpc_client) []" "rc_state sample_rpc_client \<noteq> RPC_RECV_TIMEOUT"
    by (simp_all add: sample_rpc_client_def holds_new)
  show ?thesis
    by (rule rpc_partial_reply_is_garbage [where wr = "\<lambda>s. int (length s)" and n = 8 and bs = "le_bytes 4 110", OF c])
      (simp_all add: extrabuf_size_def)
qed

theorem rpc_timeout_is_final_witness:
  "\<exists>c'. rpc_call ''add'' [] (VScalar ''junk'') (\<lambda>s. int (length s)) (ReadBytes ''x'') (sample_rpc_client\<lparr>rc_state := RPC_RECV_TIMEOUT\<rparr>)
    = Some (c', \<lparr>stateCode = 2, vmsg = ''recv timeout'', vvalue = VScalar ''junk''\<rparr>, [])"
  using rpc_timeout_is_final [of "sample_rpc_client\<lparr>rc_state := RPC_RECV_TIMEOUT\<rparr>" "[]" "''add''" "[]" "VScalar ''junk''"
    "\<lambda>s. int (length s)" "ReadBytes ''x''"] by (auto simp: sample_rpc_client_def holds_new)

end
