(* ===== verification/RpcSession.thy ===== *)
theory RpcSession
  imports RpcClient
begin

text \<open>
  A client and a server together: any number of calls over one connection, each delivered whole. The
  abstract specification runs the bound functions on the user's state, one after the other; the
  buffers, the wire format, the serializers and the connection implement it.
\<close>

section \<open>The abstract service\<close>

text \<open>A call; the last component is the indeterminate \<open>value_\<close> of the result.\<close>

record rpc_req =
  rq_name :: string
  rq_args :: "val list"
  rq_junk :: val

type_synonym 'u rpc_table = "string \<Rightarrow> 'u user_fun option"

definition run_call :: "'u rpc_table \<Rightarrow> rpc_req \<Rightarrow> 'u \<Rightarrow> 'u \<times> value_t" where
  "run_call tab q u =
     (case tab (rq_name q) of
        Some f \<Rightarrow> let (u1, ret) = call_helper f (rq_args q) u in (u1, success_value ret)
      | None \<Rightarrow> (u, \<lparr>stateCode = 1, vmsg = not_bound (rq_name q), vvalue = rq_junk q\<rparr>))"

fun run_calls :: "'u rpc_table \<Rightarrow> rpc_req list \<Rightarrow> 'u \<Rightarrow> 'u \<times> value_t list" where
  "run_calls tab [] u = (u, [])"
| "run_calls tab (q # qs) u =
     (let (u1, v) = run_call tab q u; (u2, vs) = run_calls tab qs u1 in (u2, v # vs))"

section \<open>Client, connection and server\<close>

record 'u rpc_link =
  lk_server :: "'u rpc_server"
  lk_conn :: tcp
  lk_user :: 'u
  lk_client :: rpc_client

text \<open>
  One call, handled in thread \<open>t\<close>: the client writes one message, the server gets it, and what it puts
  on the connection's stream is what the client reads.
\<close>

inductive rpc_round :: "nat \<Rightarrow> rpc_req \<Rightarrow> value_t \<Rightarrow> 'u rpc_link \<Rightarrow> 'u rpc_link \<Rightarrow> bool" where
  round: "rpc_call (rq_name q) (rq_args q) (rq_junk q) (\<lambda>s. int (length s)) (ReadBytes reply) (lk_client l) = Some (c', v, [msg]) \<Longrightarrow>
    deliver msg (lk_conn l) = Some w1 \<Longrightarrow>
    rpc_onMessage t (lk_server l) w1 (lk_user l) = Some (rs', w', u') \<Longrightarrow>
    stream w' = stream (lk_conn l) @ reply \<Longrightarrow>
    rpc_round t q v l \<lparr>lk_server = rs', lk_conn = w', lk_user = u', lk_client = c'\<rparr>"

inductive_cases rpc_roundE: "rpc_round t q v l l'"

inductive rpc_session :: "nat \<Rightarrow> rpc_req list \<Rightarrow> value_t list \<Rightarrow> 'u rpc_link \<Rightarrow> 'u rpc_link \<Rightarrow> bool" for t where
  session_end: "rpc_session t [] [] l l"
| session_call: "rpc_round t q v l l1 \<Longrightarrow> rpc_session t qs vs l1 l2 \<Longrightarrow> rpc_session t (q # qs) (v # vs) l l2"

inductive_simps session_Nil: "rpc_session t [] vs l l'"
inductive_simps session_Cons: "rpc_session t (q # qs) vs l l'"

section \<open>The implementation invariant\<close>

text \<open>Between calls: the table is bound, all buffers are empty, the peer is there.\<close>

definition link_ok :: "'u rpc_table \<Rightarrow> nat \<Rightarrow> 'u rpc_link \<Rightarrow> bool" where
  "link_ok tab t l \<longleftrightarrow> conn_inv (lk_conn l) \<and> state (lk_conn l) = Connected \<and> peer_stays (lk_conn l)
     \<and> content (inputBuffer (lk_conn l)) = []
     \<and> (\<exists>ds. tl_value t (threadLocalSerializer (lk_server l)) = Some ds \<and> holds ds [])
     \<and> (\<forall>n. functions_tab (lk_server l) n = map_option callproxy (tab n))
     \<and> holds (rc_serializer (lk_client l)) [] \<and> rc_state (lk_client l) \<noteq> RPC_RECV_TIMEOUT"

text \<open>
  The user's functions keep an invariant \<open>U\<close> of the user's state and, called with arguments of their types
  that came in a message, return values of their return type that fit a message. Calls have arguments of
  the function's types, and fit a message.
\<close>

definition fun_ok :: "('u \<Rightarrow> bool) \<Rightarrow> string \<Rightarrow> 'u user_fun \<Rightarrow> bool" where
  "fun_ok U n f \<longleftrightarrow> (\<forall>args u. U u \<longrightarrow> list_all2 has_type args (arg_tys f) \<longrightarrow> list_all plain args \<longrightarrow>
     length (request_bytes n args) \<le> extrabuf_size \<longrightarrow>
     U (fst (call_helper f args u))
     \<and> has_type (snd (call_helper f args u)) (type_xx (ret_ty f)) \<and> plain (snd (call_helper f args u))
     \<and> length (encode_value (success_value (snd (call_helper f args u)))) \<le> extrabuf_size)"

definition table_ok :: "('u \<Rightarrow> bool) \<Rightarrow> 'u rpc_table \<Rightarrow> bool" where
  "table_ok U tab \<longleftrightarrow> (\<forall>n f. tab n = Some f \<longrightarrow> fun_ok U n f)"

definition req_ok :: "'u rpc_table \<Rightarrow> rpc_req \<Rightarrow> bool" where
  "req_ok tab q \<longleftrightarrow> plain (VString (rq_name q)) \<and> length (request_bytes (rq_name q) (rq_args q)) \<le> extrabuf_size
     \<and> (case tab (rq_name q) of
          Some f \<Rightarrow> list_all2 has_type (rq_args q) (arg_tys f) \<and> list_all plain (rq_args q)
            \<and> blank (type_xx (ret_ty f)) (rq_junk q)
        | None \<Rightarrow> length (rq_name q) < 65000)"

lemma sock_queueInLoop: "sock (queueInLoop f w) = sock (w :: tcp)"
  by (cases w) (simp add: queueInLoop_def queue_push_def queue_wake_def wakeup_def)

text \<open>A message changes neither the table nor, but for what it used up, the kernel's answers.\<close>

lemma onMessage_frame:
  assumes "rpc_onMessage t rs w u = Some (rs', w', u')"
  shows "functions_tab rs' = functions_tab rs" "set (wscript (sock w')) \<subseteq> set (wscript (sock w))"
proof -
  from assms obtain ds where ds: "tl_value t (threadLocalSerializer rs) = Some ds"
    by (cases "tl_value t (threadLocalSerializer rs)") (auto simp: rpc_onMessage_def)
  obtain b buf where swap: "buffer_swap (streamBuffer ds) (inputBuffer w) = (b, buf)" by force
  let ?w = "w\<lparr>inputBuffer := buf\<rparr>"
  from assms obtain sb ds2 w2 sb2 where s: "send_buffer sb ?w = Some (w', sb2)" "rs' = store_serializer t ds2 rs"
    by (auto simp: rpc_onMessage_def ds swap bind_Some_iff)
  show "functions_tab rs' = functions_tab rs" by (simp add: s(2) store_serializer_def)
  show "set (wscript (sock w')) \<subseteq> set (wscript (sock w))"
  proof (cases "state ?w = Connected \<and> in_loop_thread ?w")
    case True
    then obtain x where "sendInThread x ?w = Some w'" using s(1) by (auto simp: send_buffer_def bind_Some_iff)
    from sendInThread_frame(2) [OF this] show ?thesis by simp
  next
    case False
    then have "sock w' = sock ?w" using s(1) by (auto simp: send_buffer_def bind_Some_iff sock_queueInLoop split: if_splits)
    then show ?thesis by simp
  qed
qed

section \<open>One call\<close>

lemma round_exists:
  assumes l: "link_ok tab t l" and q: "req_ok tab q" and f: "table_ok U tab" and U: "U (lk_user l)"
  shows "\<exists>l'. rpc_round t q (snd (run_call tab q (lk_user l))) l l' \<and> lk_user l' = fst (run_call tab q (lk_user l)) \<and> link_ok tab t l'
    \<and> U (lk_user l')"
proof -
  let ?w = "lk_conn l" and ?rs = "lk_server l" and ?c = "lk_client l" and ?u = "lk_user l"
  let ?msg = "request_bytes (rq_name q) (rq_args q)"
  note lok = l [unfolded link_ok_def]
  have w: "conn_inv ?w" "state ?w = Connected" "peer_stays ?w" "content (inputBuffer ?w) = []" using lok by blast+
  have tab: "functions_tab ?rs n = map_option callproxy (tab n)" for n using lok by blast
  have c: "holds (rc_serializer ?c) []" "rc_state ?c \<noteq> RPC_RECV_TIMEOUT" using lok by blast+
  obtain ds where ds: "tl_value t (threadLocalSerializer ?rs) = Some ds" "holds ds []" using lok by blast
  have len: "length ?msg \<le> extrabuf_size" and name: "plain (VString (rq_name q))" using q by (simp_all add: req_ok_def)
  from deliver_ok [OF w(1) len] w(4) obtain w1 where w1: "deliver ?msg ?w = Some w1" "conn_inv w1" "state w1 = Connected"
    "content (inputBuffer w1) = ?msg" "stream w1 = stream ?w" "sock w1 = sock ?w" using w(2) by auto
  have "\<not> wr_shut (sock w1)" using w1(2,3) by (auto simp: conn_inv_def)
  then have ep: "\<not> epipe r w1" for r using w(3) w1(6) by (intro peer_stays_epipe) (simp_all add: peer_stays_def)
  have "\<exists>r c'. rpc_done t r w1 (fst (run_call tab q ?u)) (rpc_onMessage t ?rs w1 ?u)
      \<and> rpc_call (rq_name q) (rq_args q) (rq_junk q) (\<lambda>s. int (length s)) (ReadBytes r) ?c = Some (c', snd (run_call tab q ?u), [?msg])
      \<and> holds (rc_serializer c') [] \<and> rc_state c' = rc_state ?c"
  proof (cases "tab (rq_name q)")
    case (Some f)
    obtain u1 ret where r: "call_helper f (rq_args q) ?u = (u1, ret)" by force
    have a: "list_all2 has_type (rq_args q) (arg_tys f)" "list_all plain (rq_args q)" "blank (type_xx (ret_ty f)) (rq_junk q)"
      using q Some by (simp_all add: req_ok_def)
    have fo: "fun_ok U (rq_name q) f" using Some f by (simp add: table_ok_def)
    have "has_type ret (type_xx (ret_ty f)) \<and> plain ret \<and> length (encode_value (success_value ret)) \<le> extrabuf_size"
      using fo U a(1,2) len r unfolding fun_ok_def by (metis snd_conv)
    then obtain c' where c': "rpc_call (rq_name q) (rq_args q) (rq_junk q) (\<lambda>s. int (length s)) (ReadBytes (encode_value (success_value ret))) ?c
        = Some (c', success_value ret, [?msg])" "holds (rc_serializer c') []" "rc_state c' = rc_state ?c"
      using call_success [where wr = "\<lambda>s. int (length s)", OF c refl refl _ _ _ a(3)] by blast
    have "content (inputBuffer w1) = encode (VString (rq_name q)) @ args_text (rq_args q) @ []"
      by (simp add: w1(4) request_bytes_def)
    from free_fun.onMessage_serves [OF w1(2,3) ds _ name a(1) this, of ?u] Some tab r map_clip_plain [OF a(2)]
    have "rpc_done t (encode_value (success_value ret)) w1 u1 (rpc_onMessage t ?rs w1 ?u)"
      by (simp add: served_def)
    with c' show ?thesis by (simp add: run_call_def Some r) blast
  next
    case None
    let ?m = "not_bound (rq_name q)" and ?r = "le_bytes 4 1 @ encode (VString (not_bound (rq_name q)))"
    have m: "plain (VString ?m)" "length ?r \<le> extrabuf_size"
      using name q None length_clip_less [of ?m] by (simp_all add: not_bound_def req_ok_def extrabuf_size_def clip_short)
    from call_not_bound [where wr = "\<lambda>s. int (length s)", OF c refl refl m(2,1)] obtain c' where c':
      "rpc_call (rq_name q) (rq_args q) (rq_junk q) (\<lambda>s. int (length s)) (ReadBytes ?r) ?c
        = Some (c', \<lparr>stateCode = 1, vmsg = ?m, vvalue = rq_junk q\<rparr>, [?msg])" "holds (rc_serializer c') []" "rc_state c' = rc_state ?c"
      by blast
    have "content (inputBuffer w1) = encode (VString (rq_name q)) @ args_text (rq_args q)"
      by (simp add: w1(4) request_bytes_def)
    from message_not_bound [OF w1(2,3) ds _ name this, of ?u] None tab
    have "rpc_done t ?r w1 ?u (rpc_onMessage t ?rs w1 ?u)" by simp
    with c' show ?thesis by (simp add: run_call_def None) blast
  qed
  then obtain r c' rs' w' ds' where srv: "rpc_onMessage t ?rs w1 ?u = Some (rs', w', fst (run_call tab q ?u))" "conn_inv w'"
      "state w' = Connected" "content (inputBuffer w') = []" "stream w' = stream ?w @ r"
      "tl_value t (threadLocalSerializer rs') = Some ds'" "holds ds' []"
    and cli: "rpc_call (rq_name q) (rq_args q) (rq_junk q) (\<lambda>s. int (length s)) (ReadBytes r) ?c = Some (c', snd (run_call tab q ?u), [?msg])"
      "holds (rc_serializer c') []" "rc_state c' = rc_state ?c"
    using ep w1(5) unfolding rpc_done_def by auto
  let ?l = "\<lparr>lk_server = rs', lk_conn = w', lk_user = fst (run_call tab q ?u), lk_client = c'\<rparr>"
  have "rpc_round t q (snd (run_call tab q ?u)) l ?l" by (rule round [OF cli(1) w1(1) srv(1,5)])
  moreover have "link_ok tab t ?l"
    using srv cli c(2) tab w(3) onMessage_frame [OF srv(1)] w1(6) by (auto simp: link_ok_def peer_stays_def)
  moreover have "U (fst (run_call tab q ?u))"
  proof (cases "tab (rq_name q)")
    case (Some f)
    then have "fun_ok U (rq_name q) f" using f by (simp add: table_ok_def)
    then have "U (fst (call_helper f (rq_args q) ?u))" using Some U q len by (simp add: fun_ok_def req_ok_def)
    with Some show ?thesis by (cases "call_helper f (rq_args q) ?u") (simp add: run_call_def)
  qed (simp add: run_call_def U)
  ultimately show ?thesis by (intro exI [of _ ?l]) simp
qed

text \<open>Nothing else can happen.\<close>

lemma round_unique:
  assumes l: "link_ok tab t l" and r1: "rpc_round t q v1 l l1" and r2: "rpc_round t q v2 l l2"
  shows "v1 = v2 \<and> l1 = l2"
proof -
  have c: "holds (rc_serializer (lk_client l)) []" "rc_state (lk_client l) \<noteq> RPC_RECV_TIMEOUT"
    using l unfolding link_ok_def by blast+
  from r1 obtain reply c' w1 rs' w' u' where a: "rpc_call (rq_name q) (rq_args q) (rq_junk q) (\<lambda>s. int (length s)) (ReadBytes reply) (lk_client l)
      = Some (c', v1, [request_bytes (rq_name q) (rq_args q)])" "deliver (request_bytes (rq_name q) (rq_args q)) (lk_conn l) = Some w1"
      "rpc_onMessage t (lk_server l) w1 (lk_user l) = Some (rs', w', u')" "stream w' = stream (lk_conn l) @ reply"
      "l1 = \<lparr>lk_server = rs', lk_conn = w', lk_user = u', lk_client = c'\<rparr>"
    by (rule rpc_roundE) (use call_writes [OF c] in fastforce)
  from r2 obtain reply2 c2 w2 rs2 w2' u2 where b: "rpc_call (rq_name q) (rq_args q) (rq_junk q) (\<lambda>s. int (length s)) (ReadBytes reply2) (lk_client l)
      = Some (c2, v2, [request_bytes (rq_name q) (rq_args q)])" "deliver (request_bytes (rq_name q) (rq_args q)) (lk_conn l) = Some w2"
      "rpc_onMessage t (lk_server l) w2 (lk_user l) = Some (rs2, w2', u2)" "stream w2' = stream (lk_conn l) @ reply2"
      "l2 = \<lparr>lk_server = rs2, lk_conn = w2', lk_user = u2, lk_client = c2\<rparr>"
    by (rule rpc_roundE) (use call_writes [OF c] in fastforce)
  have "w1 = w2" using a(2) b(2) by simp
  then have srv: "rs' = rs2 \<and> w' = w2' \<and> u' = u2" using a(3) b(3) by simp
  then have "reply = reply2" using a(4) b(4) by simp
  then have "c' = c2 \<and> v1 = v2" using a(1) b(1) by simp
  with srv a(5) b(5) show ?thesis by simp
qed

section \<open>Sessions\<close>


definition sample_table :: "nat rpc_table" where
  "sample_table = [''add'' \<mapsto> add_fun]"

lemma sample_table_ok: "table_ok (\<lambda>_. True) sample_table"
proof -
  have "has_type (snd (call_helper add_fun args u)) (TScalar 4) \<and> plain (snd (call_helper add_fun args u))
      \<and> length (encode_value (success_value (snd (call_helper add_fun args u)))) = 10"
    if "list_all2 has_type args [TScalar 4, TScalar 4]" for args u
  proof -
    from that obtain x y where xy: "args = [x, y]" "has_type x (TScalar 4)" "has_type y (TScalar 4)"
      by (auto simp: list_all2_Cons2)
    then obtain a b where "x = VScalar a" "y = VScalar b" by (cases x; cases y) auto
    then show ?thesis
      by (simp add: xy(1) call_helper_def add_fun_def invoke_def encode_value_def success_value_def clip_short)
  qed
  moreover have "arg_tys add_fun = [TScalar 4, TScalar 4]" "type_xx (ret_ty add_fun) = TScalar 4"
    by (simp_all add: add_fun_def type_xx_def)
  ultimately show ?thesis by (auto simp: table_ok_def sample_table_def fun_ok_def extrabuf_size_def)
qed


end
