(* ===== verification/RpcDemo.thy ===== *)
theory RpcDemo
  imports RpcSession
begin

text \<open>
  The two programs of \<open>rpc/RpcServer_test.cc\<close> and \<open>rpc/RpcClient_test.cc\<close>: the functions one binds, the
  calls the other makes, and what it gets.
\<close>

section \<open>The server program\<close>

text \<open>
  The state of the server program: the lines printed, and the name in its one object of class \<open>Test\<close>,
  which is here its own pointer.
\<close>

(* src/rpc/RpcServer_test.cc:30-32 Test *)
record demo =
  printed :: "string list"
  test_name :: string

text \<open>Integers are their four bytes; the sum of two that overflows is undefined in the program, here it wraps.\<close>

(* src/rpc/RpcServer_test.cc:12-14 add *)
definition add :: "demo user_fun" where
  "add = \<lparr>arg_tys = [TScalar 4, TScalar 4], ret_ty = Some (TScalar 4),
     body = (\<lambda>args u. (u, case args of [VScalar a, VScalar b] \<Rightarrow> VScalar (le_bytes 4 (le_val a + le_val b)) | _ \<Rightarrow> VScalar []))\<rparr>"

(* src/rpc/RpcServer_test.cc:16-18 print *)
definition print_fun :: "demo user_fun" where
  "print_fun = \<lparr>arg_tys = [TString], ret_ty = None,
     body = (\<lambda>args u. (case args of [VString s] \<Rightarrow> u\<lparr>printed := printed u @ [c_string s]\<rparr> | _ \<Rightarrow> u, VScalar []))\<rparr>"

(* src/rpc/RpcServer_test.cc:22-24 Test::setName *)
definition setName :: "(unit, demo) user_mem_fun" where
  "setName = \<lparr>m_arg_tys = [TString], m_ret_ty = None,
     m_body = (\<lambda>_ args u. (case args of [VString n] \<Rightarrow> u\<lparr>test_name := n\<rparr> | _ \<Rightarrow> u, VScalar []))\<rparr>"

(* src/rpc/RpcServer_test.cc:26-28 Test::getName *)
definition getName :: "(unit, demo) user_mem_fun" where
  "getName = \<lparr>m_arg_tys = [], m_ret_ty = Some TString, m_body = (\<lambda>_ args u. (u, VString (test_name u)))\<rparr>"

(* src/rpc/RpcServer_test.cc:39-43 main *)
definition demo_bind :: "demo rpc_server \<Rightarrow> demo rpc_server" where
  "demo_bind rs = bind_member ''getName'' getName () (bind_member ''setName'' setName ()
     (bind_function ''print'' print_fun (bind_function ''add'' add rs)))"

section \<open>The client program\<close>

text \<open>The greeting is in UTF-8.\<close>

definition greeting :: string where
  "greeting = [CHR 0xE4, CHR 0xBD, CHR 0xA0, CHR 0xE5, CHR 0xA5, CHR 0xBD, CHR 0xEF, CHR 0xBC, CHR 0x8C] @ ''RpcServer''"

definition call_int :: "nat \<Rightarrow> val" where "call_int n = VScalar (le_bytes 4 n)"

text \<open>The last field is the indeterminate result: any four bytes, any byte, or an empty string.\<close>

(* src/rpc/RpcClient_test.cc:14-40 main *)
definition demo_calls :: "string \<Rightarrow> char \<Rightarrow> rpc_req list" where
  "demo_calls four one =
     [\<lparr>rq_name = ''add'', rq_args = [call_int 10, call_int 100], rq_junk = VScalar four\<rparr>,
      \<lparr>rq_name = ''print'', rq_args = [VString greeting], rq_junk = VScalar [one]\<rparr>,
      \<lparr>rq_name = ''getName'', rq_args = [], rq_junk = VString []\<rparr>,
      \<lparr>rq_name = ''setName'', rq_args = [VString ''HelloWord''], rq_junk = VScalar [one]\<rparr>,
      \<lparr>rq_name = ''getName'', rq_args = [], rq_junk = VString []\<rparr>]"

section \<open>The two together\<close>

definition demo_table :: "demo rpc_table" where
  "demo_table = [''add'' \<mapsto> add, ''print'' \<mapsto> print_fun, ''setName'' \<mapsto> bind_obj setName (), ''getName'' \<mapsto> bind_obj getName ()]"

lemma demo_bind_table:
  "functions_tab rs = (\<lambda>_. None) \<Longrightarrow> functions_tab (demo_bind rs) n = map_option callproxy (demo_table n)"
  by (simp add: demo_bind_def bind_function_def bind_member_def demo_table_def callproxy_mem_def [abs_def]
      callproxy_def [abs_def] callproxyImpl_members)

text \<open>The invariant of the server program: the name has come in a message.\<close>

definition demo_ok :: "demo \<Rightarrow> bool" where
  "demo_ok u \<longleftrightarrow> plain (VString (test_name u)) \<and> length (test_name u) \<le> 65525"

lemma has_type_scalar: "has_type v (TScalar n) \<longleftrightarrow> (\<exists>bs. v = VScalar bs \<and> length bs = n)"
  by (cases v) auto

lemma has_type_string: "has_type v TString \<longleftrightarrow> (\<exists>s. v = VString s)"
  by (cases v) auto

lemma clip_empty [simp]: "clip_string [] = []"
  by (rule clip_short) simp_all

lemmas demo_call = call_helper_def invoke_def encode_value_def success_value_def

lemma demo_table_ok: "table_ok demo_ok demo_table"
proof -
  have "fun_ok demo_ok n add" for n
    by (auto simp: fun_ok_def demo_call extrabuf_size_def add_def list_all2_Cons2 type_xx_def has_type_scalar)
  moreover have "fun_ok demo_ok n print_fun" for n
    by (auto simp: fun_ok_def demo_call extrabuf_size_def print_fun_def list_all2_Cons2 type_xx_def demo_ok_def has_type_string)
  moreover have "fun_ok demo_ok ''setName'' (bind_obj setName ())"
    by (auto simp: fun_ok_def demo_call extrabuf_size_def setName_def bind_obj_def list_all2_Cons2 type_xx_def demo_ok_def has_type_string
        request_bytes_def args_text_def clip_short)
  moreover have "fun_ok demo_ok n (bind_obj getName ())" for n
    by (auto simp: fun_ok_def demo_call extrabuf_size_def getName_def bind_obj_def type_xx_def demo_ok_def clip_short)
  ultimately show ?thesis by (auto simp: table_ok_def demo_table_def split: if_splits)
qed


definition demo_link :: "demo rpc_link" where
  "demo_link = \<lparr>lk_server = demo_bind \<lparr>serverName = ''rpc_server'', rpc_tcp = sample_server,
       threadLocalSerializer = tl_initValue 7 serializer_new tl_new, functions_tab = (\<lambda>_. None)\<rparr>,
     lk_conn = sample_tcp Connected, lk_user = \<lparr>printed = [], test_name = []\<rparr>, lk_client = sample_rpc_client\<rparr>"


end
