(* ===== verification/OldTimerQueue.thy ===== *)
theory OldTimerQueue
  imports TimerQueue
begin

text \<open>
  \<open>old-version/webserver/TimerQueue.cc\<close>: the timer queue of the first version, which tests in its
  assertion the element the iterator points at before it tests that there is one. The rest of the file
  has the text of the later version but for comments, names and log statements, and so its model.
\<close>

(* src/old-version/webserver/TimerQueue.cc:176-193 TimerQueue::getExpired *)
definition old_getExpired :: "timer_queue \<Rightarrow> timestamp \<Rightarrow> (entry list \<times> timer_queue) res" where
  "old_getExpired q now =
     (let sentry = (now, UINTPTR_MAX);
          expired = takeWhile (\<lambda>e. e < sentry) (timers q);
          rest = dropWhile (\<lambda>e. e < sentry) (timers q)
      in case rest of [] \<Rightarrow> Inl PastEnd
         | e # es \<Rightarrow> if now < fst e \<or> rest = [] then Inr (expired, q\<lparr>timers := rest\<rparr>) else Inl AssertFailed)"

(* src/old-version/webserver/TimerQueue.cc:150-174 TimerQueue::handleRead *)
definition old_handleRead :: "(nat \<Rightarrow> tq_call list) \<Rightarrow> timestamp \<Rightarrow> timer_queue \<Rightarrow> timer_queue res" where
  "old_handleRead beh now q =
     (let q1 = (readTimerfd q)\<lparr>canceling := []\<rparr> in
      and_then (old_getExpired q1 now) (\<lambda>(expired, q2).
      and_then (run_expired beh (q2\<lparr>callingExpired := True\<rparr>) expired) (\<lambda>q3.
      reset (q3\<lparr>callingExpired := False\<rparr>) expired now)))"

lemma old_getExpired_eq:
  "old_getExpired q now = (if dropWhile (\<lambda>e. e < (now, UINTPTR_MAX)) (timers q) = [] then Inl PastEnd else getExpired q now)"
  by (cases "dropWhile (\<lambda>e. e < (now, UINTPTR_MAX)) (timers q)")
    (simp_all add: old_getExpired_def getExpired_def Let_def del: dropWhile_eq_Nil_conv)

lemma all_due:
  assumes "tq_owns q []"
  shows "dropWhile (\<lambda>e. e < (now, UINTPTR_MAX)) (timers q) = [] \<longleftrightarrow> (\<forall>e \<in> set (timers q). fst e \<le> now)"
proof -
  have "e < (now, UINTPTR_MAX) \<longleftrightarrow> fst e \<le> now" if "e \<in> set (timers q)" for e
    using assms that by (cases e) (fastforce simp: tq_owns_def)
  then show ?thesis by (auto simp: dropWhile_eq_Nil_conv)
qed

text \<open>
  When the descriptor is read and every registered timer is due, which a single one-shot timer is enough
  for, the first version reads past the end of the set; otherwise it does what the later version does.
\<close>
theorem old_last_timer_reads_past_end:
  assumes "tq_owns q []"
  shows "old_handleRead beh now q =
    (if \<forall>e \<in> set (timers q). fst e \<le> now then Inl PastEnd else handleRead beh now q)"
proof -
  let ?q = "(readTimerfd q)\<lparr>canceling := []\<rparr>"
  have q: "tq_owns ?q []" "timers ?q = timers q" using assms by (simp_all add: tq_owns_def readTimerfd_def)
  show ?thesis unfolding old_handleRead_def handleRead_def Let_def old_getExpired_eq
    using all_due [OF q(1), of now] q(2) by (simp add: and_then_def)
qed

theorem old_last_timer_reads_past_end_witness:
  "old_handleRead (\<lambda>_. []) 7 \<lparr>heap = [1 \<mapsto> timer_new 3 5 0], timers = [(5, 1)], callingExpired = False,
     canceling = [], armed = Some 5, fired = []\<rparr> = Inl PastEnd"
  by (subst old_last_timer_reads_past_end) (simp_all add: tq_owns_def UINTPTR_MAX_def)

end
