(* ===== verification/OldTcpConnection.thy ===== *)
theory OldTcpConnection
  imports TcpConnection
begin

text \<open>
  \<open>old-version/webserver/TcpConnection.h\<close> and \<open>.cc\<close>: the connection as the library first had it, with two
  flags in place of the state, and its relation to the one of \<open>matelib\<close>.

  The members that both versions have are a \<open>tcp\<close> (\<open>parts\<close>), whose \<open>state\<close> the old version does not have
  and never reads: it stays \<open>Connecting\<close>. The operations of \<open>Channel\<close>, \<open>Buffer\<close> and \<open>EventLoop\<close> they call
  are the same text in both versions but for log statements.
\<close>

section \<open>The old connection\<close>

(* src/old-version/webserver/TcpConnection.h:67-80 TcpConnection *)
record old_conn =
  oconnected :: bool
  needDisconn :: bool
  parts :: tcp

text \<open>The user's callbacks, and \<open>TcpServer::removeConnection\<close> handed to the main loop.\<close>

record old_hooks =
  o_connection :: "old_conn \<Rightarrow> old_conn option"
  o_message :: "old_conn \<Rightarrow> old_conn option"
  o_remove :: "old_conn \<Rightarrow> old_conn option"

(* src/old-version/webserver/TcpConnection.cc:15-47 TcpConnection::TcpConnection *)
definition old_conn_new ::
  "(conn_cb, conn_fun) loop \<Rightarrow> int \<Rightarrow> string \<Rightarrow> nat \<Rightarrow> sockaddr_in \<Rightarrow> sockaddr_in \<Rightarrow> ksock \<Rightarrow> old_conn" where
  "old_conn_new l fd name c la pa k =
     \<lparr>oconnected = False, needDisconn = False, parts = setNoDelay (setKeepalive (tcp_new l fd name c la pa k))\<rparr>"

(* src/old-version/webserver/TcpConnection.cc:49-52 TcpConnection::~TcpConnection *)
definition old_conn_delete :: "old_conn \<Rightarrow> tcp option" where
  "old_conn_delete o1 = tcp_delete (parts o1)"

definition in_parts :: "(tcp \<Rightarrow> tcp option) \<Rightarrow> old_conn \<Rightarrow> old_conn option" where
  "in_parts f o1 = map_option (\<lambda>w. o1\<lparr>parts := w\<rparr>) (f (parts o1))"

section \<open>Sending\<close>

text \<open>\<open>nwrote\<close> is -1 after an error, and not used.\<close>

(* src/old-version/webserver/TcpConnection.cc:109-140 TcpConnection::sendInThread *)
definition old_sendInThread :: "string \<Rightarrow> old_conn \<Rightarrow> old_conn option" where
  "old_sendInThread s o1 = do {
     assertInLoopThread (parts o1);
     if \<not> oconnected o1 then Some o1
     else do {
       let w = parts o1;
       ch \<leftarrow> chans w (chan w);
       let (w1, error, nwrote) =
         (if \<not> isWriting ch \<and> readableBytes (outputBuffer w) = 0 then
            (case kwrite s (sock w) of
               (k, Inr n) \<Rightarrow> (w\<lparr>sock := k\<rparr>, False, n)
             | (k, Inl e) \<Rightarrow> (w\<lparr>sock := k\<rparr>, True, 0))
          else (w, False, 0));
       if \<not> error \<and> length s - nwrote > 0 then do {
         ob \<leftarrow> append (outputBuffer w1) (drop nwrote s);
         let w2 = w1\<lparr>outputBuffer := ob\<rparr>;
         ch2 \<leftarrow> chans w2 (chan w2);
         w3 \<leftarrow> (if \<not> isWriting ch2 then enableWriting (chan w2) w2 else Some w2);
         Some (o1\<lparr>parts := w3\<rparr>)
       } else Some (o1\<lparr>parts := w1\<rparr>)
     }
   }"

(* src/old-version/webserver/TcpConnection.cc:104-107 TcpConnection::sendInLoop *)
definition old_sendInLoop :: "string_piece \<Rightarrow> old_conn \<Rightarrow> old_conn option" where
  "old_sendInLoop m o1 = do { s \<leftarrow> sp_asString m; old_sendInThread s o1 }"

definition post_conn :: "conn_fun \<Rightarrow> old_conn \<Rightarrow> old_conn" where
  "post_conn f o1 = o1\<lparr>parts := queueInLoop f (parts o1)\<rparr>"

(* src/old-version/webserver/TcpConnection.cc:54-69 TcpConnection::send(const void* data, size_t) *)
definition old_send_data :: "string \<Rightarrow> old_conn \<Rightarrow> old_conn option" where
  "old_send_data s o1 =
     (if oconnected o1 then
        if in_loop_thread (parts o1) then old_sendInThread s o1
        else Some (post_conn (SendInLoop s) o1)
      else Some o1)"

(* src/old-version/webserver/TcpConnection.cc:71-85 TcpConnection::send(const StringPiece&) *)
definition old_send_piece :: "string_piece \<Rightarrow> old_conn \<Rightarrow> old_conn option" where
  "old_send_piece m o1 =
     (if oconnected o1 then do {
        s \<leftarrow> sp_asString m;
        if in_loop_thread (parts o1) then old_sendInThread s o1
        else Some (post_conn (SendInLoop s) o1)
      } else Some o1)"

(* src/old-version/webserver/TcpConnection.cc:87-101 TcpConnection::send(Buffer* b) *)
definition old_send_buffer :: "buffer \<Rightarrow> old_conn \<Rightarrow> (old_conn \<times> buffer) option" where
  "old_send_buffer b o1 =
     (if oconnected o1 then
        if in_loop_thread (parts o1) then do {
          o2 \<leftarrow> old_sendInThread (slice (peek b) (peek b + readableBytes b) (bufvec b)) o1;
          Some (o2, b)
        } else do {
          (b1, s) \<leftarrow> retrieveAllAsString b;
          Some (post_conn (SendInLoop s) o1, b1)
        }
      else Some (o1, b))"

section \<open>Shutting down, closing\<close>

text \<open>Line 154 asks \<open>isInLoopThread\<close> and does nothing with the answer.\<close>

(* src/old-version/webserver/TcpConnection.cc:152-160 TcpConnection::shutdownInLoop *)
definition old_shutdownInLoop :: "old_conn \<Rightarrow> old_conn option" where
  "old_shutdownInLoop o1 = do {
     let w = parts o1;
     ch \<leftarrow> chans w (chan w);
     Some (if \<not> isWriting ch then o1\<lparr>oconnected := False, parts := w\<lparr>sock := (sock w)\<lparr>wr_shut := True\<rparr>\<rparr>\<rparr> else o1)
   }"

(* src/old-version/webserver/TcpConnection.cc:144-150 TcpConnection::shutdown *)
definition old_shutdown :: "old_conn \<Rightarrow> old_conn option" where
  "old_shutdown o1 =
     (if \<not> needDisconn o1 then
        let o2 = o1\<lparr>needDisconn := True\<rparr>
        in if in_loop_thread (parts o2) then old_shutdownInLoop o2 else Some (post_conn ShutdownInLoop o2)
      else Some o1)"

(* src/old-version/webserver/TcpConnection.cc:163-170 TcpConnection::connectionEstablished *)
definition old_connectionEstablished :: "old_hooks \<Rightarrow> old_conn \<Rightarrow> old_conn option" where
  "old_connectionEstablished h o1 = do {
     assertInLoopThread (parts o1);
     o2 \<leftarrow> in_parts (\<lambda>w. enableReading (chan w) w) (o1\<lparr>oconnected := True\<rparr>);
     o_connection h o2
   }"

(* src/old-version/webserver/TcpConnection.cc:173-179 TcpConnection::connectionDestroyed *)
definition old_connectionDestroyed :: "old_hooks \<Rightarrow> old_conn \<Rightarrow> old_conn option" where
  "old_connectionDestroyed h o1 = do {
     assertInLoopThread (parts o1);
     o2 \<leftarrow> in_parts (\<lambda>w. disableReading (chan w) w) o1;
     o3 \<leftarrow> o_connection h o2;
     in_parts (\<lambda>w. channel_remove (chan w) w) o3
   }"

(* src/old-version/webserver/TcpConnection.cc:226-235 TcpConnection::handleClose *)
definition old_handleClose :: "old_hooks \<Rightarrow> old_conn \<Rightarrow> old_conn option" where
  "old_handleClose h o1 = do {
     o2 \<leftarrow> in_parts (\<lambda>w. disableAll (chan w) w) (o1\<lparr>oconnected := False\<rparr>);
     o_remove h o2
   }"

text \<open>\<open>handleError\<close> only reads and logs the socket's pending error.\<close>

(* src/old-version/webserver/TcpConnection.cc:237-242 TcpConnection::handleError *)
definition old_handleError :: "old_conn \<Rightarrow> old_conn option" where
  "old_handleError o1 = Some o1"

(* src/old-version/webserver/TcpConnection.cc:182-198 TcpConnection::handleRead *)
definition old_handleRead :: "old_hooks \<Rightarrow> old_conn \<Rightarrow> old_conn option" where
  "old_handleRead h o1 = do {
     assertInLoopThread (parts o1);
     let (r, w1) = next_read (parts o1);
     (b, n, err) \<leftarrow> readFd (inputBuffer w1) r;
     let o2 = o1\<lparr>parts := w1\<lparr>inputBuffer := b\<rparr>\<rparr>;
     if n > 0 then o_message h o2
     else if n = 0 then old_handleClose h o2
     else old_handleError o2
   }"

(* src/old-version/webserver/TcpConnection.cc:200-224 TcpConnection::handleWrite *)
definition old_handleWrite :: "old_conn \<Rightarrow> old_conn option" where
  "old_handleWrite o1 = do {
     let w = parts o1;
     ch \<leftarrow> chans w (chan w);
     if isWriting ch then
       let ob = outputBuffer w
       in case kwrite (slice (peek ob) (peek ob + readableBytes ob) (bufvec ob)) (sock w) of
         (k, Inr n) \<Rightarrow>
           let w1 = w\<lparr>sock := k\<rparr>
           in if n > 0 then do {
                ob1 \<leftarrow> retrieve ob n;
                let w2 = w1\<lparr>outputBuffer := ob1\<rparr>;
                if readableBytes ob1 = 0 then do {
                  w3 \<leftarrow> disableWriting (chan w2) w2;
                  if needDisconn o1 then old_shutdownInLoop (o1\<lparr>parts := w3\<rparr>) else Some (o1\<lparr>parts := w3\<rparr>)
                } else Some (o1\<lparr>parts := w2\<rparr>)
              } else Some (o1\<lparr>parts := w1\<rparr>)
       | (k, Inl e) \<Rightarrow> Some (o1\<lparr>parts := w\<lparr>sock := k\<rparr>\<rparr>)
     else Some o1
   }"

section \<open>Old connections as new ones\<close>

definition old_state :: "old_conn \<Rightarrow> conn_state" where
  "old_state o1 = (if \<not> oconnected o1 then Disconnected else if needDisconn o1 then Disconnecting else Connected)"

definition upgrade :: "old_conn \<Rightarrow> tcp" where
  "upgrade o1 = set_state (old_state o1) (parts o1)"

text \<open>The same for a connection whose channel is watched, whatever \<open>connected_\<close> says.\<close>

definition as_open :: "old_conn \<Rightarrow> tcp" where
  "as_open o1 = set_state (if needDisconn o1 then Disconnecting else Connected) (parts o1)"

lemma as_open_simps [simp]:
  "chans (as_open o1) = chans (parts o1)" "chan (as_open o1) = chan (parts o1)"
  "outputBuffer (as_open o1) = outputBuffer (parts o1)" "inputBuffer (as_open o1) = inputBuffer (parts o1)"
  "sock (as_open o1) = sock (parts o1)" "in_loop_thread (as_open o1) = in_loop_thread (parts o1)"
  "open_state (as_open o1)"
  by (simp_all add: as_open_def set_state_def open_state_def)

text \<open>The direct write of a live connection reports an error other than \<open>EPIPE\<close>.\<close>

definition would_block :: "string \<Rightarrow> tcp \<Rightarrow> bool" where
  "would_block s w \<longleftrightarrow> in_loop_thread w \<and> state w \<noteq> Disconnected
     \<and> (\<exists>ch e. chans w (chan w) = Some ch \<and> \<not> isWriting ch \<and> readableBytes (outputBuffer w) = 0
          \<and> snd (kwrite s (sock w)) = Inl e \<and> e \<noteq> EPIPE)"

lemma read_off_keeps_write: "has (e AND NOT kReadEvent) kWriteEvent = has e kWriteEvent"
proof -
  have "NOT kReadEvent AND kWriteEvent = kWriteEvent" by (simp add: kWriteEvent_def kReadEvent_def epoll_bits)
  then show ?thesis by (simp add: has_def and.assoc)
qed

text \<open>The poller's operations neither read nor change the connection's state.\<close>

lemma set_events_state:
  fixes w :: tcp
  shows "set_events c f (w\<lparr>state := st\<rparr>) = map_option (\<lambda>v. v\<lparr>state := st\<rparr>) (set_events c f w)"
proof (cases "chans w c")
  case None
  then show ?thesis by (simp add: set_events_def upd_channel_def)
next
  case (Some ch)
  then show ?thesis
    by (simp add: set_events_def upd_channel_def updateChannel_def abort_simps Let_def poller_update_def
        split: option.split)
qed

lemma upd_channel_thread: "upd_channel c f w = Some v \<Longrightarrow> in_loop_thread v = in_loop_thread w"
  by (auto simp: upd_channel_def split: option.splits)

lemma poller_update_thread: "poller_update a c w = Some v \<Longrightarrow> in_loop_thread v = in_loop_thread w"
  by (auto simp: poller_update_def bind_Some_iff split: option.splits if_splits)

lemma set_events_thread: "set_events c f w = Some v \<Longrightarrow> in_loop_thread v = in_loop_thread w"
  by (auto simp: set_events_def updateChannel_def abort_simps bind_Some_iff Let_def split: if_splits
      dest!: poller_update_thread upd_channel_thread)

lemma upgrade_simps [simp]:
  "chans (upgrade o1) = chans (parts o1)" "chan (upgrade o1) = chan (parts o1)"
  "outputBuffer (upgrade o1) = outputBuffer (parts o1)" "inputBuffer (upgrade o1) = inputBuffer (parts o1)"
  "sock (upgrade o1) = sock (parts o1)" "in_loop_thread (upgrade o1) = in_loop_thread (parts o1)"
  "state (upgrade o1) = old_state o1" "stream (upgrade o1) = stream (parts o1)"
  by (simp_all add: upgrade_def set_state_def stream_def)

lemma upgrade_parts: "upgrade (o1\<lparr>parts := w\<rparr>) = w\<lparr>state := old_state o1\<rparr>"
  by (simp add: upgrade_def set_state_def old_state_def)

lemma tcp_update_swap: "(w\<lparr>state := st\<rparr>)\<lparr>outputBuffer := ob\<rparr> = (w\<lparr>outputBuffer := ob\<rparr>)\<lparr>state := st\<rparr>"
  for w :: tcp by (cases w) simp

lemma buffer_rest_state:
  "buffer_rest r (w\<lparr>state := st\<rparr>) = map_option (\<lambda>v. v\<lparr>state := st\<rparr>) (buffer_rest r w)"
proof (cases "append (outputBuffer w) r")
  case (Some ob)
  have "enableWriting (chan w) (w\<lparr>state := st, outputBuffer := ob\<rparr>)
    = map_option (\<lambda>v. v\<lparr>state := st\<rparr>) (enableWriting (chan w) (w\<lparr>outputBuffer := ob\<rparr>))"
    using set_events_state [of "chan w" "\<lambda>e. e OR kWriteEvent" st "w\<lparr>outputBuffer := ob\<rparr>"]
    by (simp add: enableWriting_def tcp_update_swap)
  with Some show ?thesis by (cases "chans w (chan w)") (simp_all add: buffer_rest_def Let_def tcp_update_swap)
qed (simp add: buffer_rest_def)

definition old_direct_write :: "string \<Rightarrow> tcp \<Rightarrow> tcp \<times> bool \<times> nat" where
  "old_direct_write s w =
     (case kwrite s (sock w) of
        (k, Inr n) \<Rightarrow> (w\<lparr>sock := k\<rparr>, False, n)
      | (k, Inl e) \<Rightarrow> (w\<lparr>sock := k\<rparr>, True, 0))"

lemma old_send_alt:
  assumes "in_loop_thread (parts o1)" "oconnected o1" "chans (parts o1) (chan (parts o1)) = Some ch"
  shows "old_sendInThread s o1 = map_option (\<lambda>v. o1\<lparr>parts := v\<rparr>)
    (let (w1, error, nwrote) =
           (if \<not> isWriting ch \<and> readableBytes (outputBuffer (parts o1)) = 0 then old_direct_write s (parts o1)
            else (parts o1, False, 0))
     in if \<not> error \<and> length s - nwrote > 0 then buffer_rest (drop nwrote s) w1 else Some w1)"
proof -
  have bind_Some_map: "(x \<bind> (\<lambda>v. Some (f v))) = map_option f x" for x :: "'x option" and f :: "'x \<Rightarrow> 'y"
    by (cases x) simp_all
  have tail: "do {
      ob \<leftarrow> append (outputBuffer w) r;
      let w2 = w\<lparr>outputBuffer := ob\<rparr>;
      ch2 \<leftarrow> chans w2 (chan w2);
      w3 \<leftarrow> (if \<not> isWriting ch2 then enableWriting (chan w2) w2 else Some w2);
      Some (o1\<lparr>parts := w3\<rparr>)
    } = map_option (\<lambda>v. o1\<lparr>parts := v\<rparr>) (buffer_rest r w)" for r w
    by (cases "append (outputBuffer w) r"; cases "chans w (chan w)") (simp_all add: buffer_rest_def bind_Some_map Let_def)
  show ?thesis
    unfolding old_sendInThread_def assertInLoopThread_def abort_simps tail old_direct_write_def
    using assms by (simp add: Let_def split: prod.split sum.split)
qed

lemma old_send_cases:
  "map_option upgrade (old_sendInThread s o1) =
    (if would_block s (upgrade o1) then Some ((upgrade o1)\<lparr>sock := fst (kwrite s (sock (parts o1)))\<rparr>)
     else sendInThread s (upgrade o1))"
proof (cases "in_loop_thread (parts o1) \<and> oconnected o1")
  case False
  then show ?thesis
    by (cases "in_loop_thread (parts o1)")
      (simp_all add: would_block_def old_sendInThread_def sendInThread_def assertInLoopThread_def abort_simps old_state_def)
next
  case live: True
  show ?thesis
  proof (cases "chans (parts o1) (chan (parts o1))")
    case None
    with live show ?thesis
      by (simp add: would_block_def old_sendInThread_def sendInThread_def assertInLoopThread_def abort_simps old_state_def)
  next
    case (Some ch)
    let ?w = "parts o1" and ?st = "old_state o1"
    have o: "open_state (upgrade o1)" "?st \<noteq> Disconnected" using live by (auto simp: open_state_def old_state_def)
    obtain k r where kw: "kwrite s (sock ?w) = (k, r)" by fastforce
    have u: "upgrade o1 = ?w\<lparr>state := ?st\<rparr>" by (simp add: upgrade_def set_state_def)
    have rest: "map_option upgrade (map_option (\<lambda>v. o1\<lparr>parts := v\<rparr>) (buffer_rest x w)) = buffer_rest x (w\<lparr>state := ?st\<rparr>)" for x w
      by (simp add: buffer_rest_state option.map_comp upgrade_parts comp_def)
    have c: "chans (upgrade o1) (chan (upgrade o1)) = Some ch" "in_loop_thread (upgrade o1)" using Some live by simp_all
    have k: "(w\<lparr>sock := k\<rparr>)\<lparr>state := ?st\<rparr> = (w\<lparr>state := ?st\<rparr>)\<lparr>sock := k\<rparr>" for w :: tcp by simp
    note olds = old_send_alt [OF live [THEN conjunct1] live [THEN conjunct2] Some, of s]
    note news = sendInThread_alt [OF c(2) o(1) c(1), of s]
    show ?thesis
    proof (cases "\<not> isWriting ch \<and> readableBytes (outputBuffer ?w) = 0")
      case False
      then have wb: "\<not> would_block s (upgrade o1)" using Some by (auto simp: would_block_def)
      have 1: "old_sendInThread s o1 = map_option (\<lambda>v. o1\<lparr>parts := v\<rparr>) (if length s > 0 then buffer_rest s ?w else Some ?w)"
        unfolding olds if_not_P [OF False] by simp
      have 2: "sendInThread s (upgrade o1) = (if length s > 0 then buffer_rest s (upgrade o1) else Some (upgrade o1))"
      proof -
        have f: "\<not> (\<not> isWriting ch \<and> readableBytes (outputBuffer (upgrade o1)) = 0)" using False by simp
        show ?thesis unfolding news if_not_P [OF f] by simp
      qed
      show ?thesis unfolding 1 2 using wb rest [of s ?w] by (simp add: upgrade_parts u [symmetric])
    next
      case True
      have wb: "would_block s (upgrade o1) \<longleftrightarrow> (\<exists>e. r = Inl e \<and> e \<noteq> EPIPE)"
        using True Some live o(2) kw by (auto simp: would_block_def)
      have d: "old_direct_write s ?w = (?w\<lparr>sock := k\<rparr>, isl r, case r of Inr n \<Rightarrow> n | Inl _ \<Rightarrow> 0)"
        "direct_write s (upgrade o1) = ((upgrade o1)\<lparr>sock := k\<rparr>, r = Inl EPIPE, case r of Inr n \<Rightarrow> n | Inl _ \<Rightarrow> 0)"
        using kw by (auto simp: old_direct_write_def direct_write_def split: sum.split)
      have 1: "old_sendInThread s o1 = map_option (\<lambda>v. o1\<lparr>parts := v\<rparr>) (case r of
          Inr n \<Rightarrow> if length s - n > 0 then buffer_rest (drop n s) (?w\<lparr>sock := k\<rparr>) else Some (?w\<lparr>sock := k\<rparr>)
        | Inl _ \<Rightarrow> Some (?w\<lparr>sock := k\<rparr>))"
        unfolding olds if_P [OF True] d by (simp split: sum.split)
      have 2: "sendInThread s (upgrade o1) = (case r of
          Inr n \<Rightarrow> if length s - n > 0 then buffer_rest (drop n s) ((upgrade o1)\<lparr>sock := k\<rparr>) else Some ((upgrade o1)\<lparr>sock := k\<rparr>)
        | Inl e \<Rightarrow> if e \<noteq> EPIPE \<and> length s > 0 then buffer_rest s ((upgrade o1)\<lparr>sock := k\<rparr>) else Some ((upgrade o1)\<lparr>sock := k\<rparr>))"
        using True unfolding news d by (simp split: sum.split)
      have k: "(?w\<lparr>sock := k\<rparr>)\<lparr>state := ?st\<rparr> = (upgrade o1)\<lparr>sock := k\<rparr>" by (simp add: u)
      show ?thesis
        unfolding 1 2 wb kw fst_conv
        by (cases r) (simp_all add: rest upgrade_parts, simp_all add: k [simplified])
    qed
  qed
qed

section \<open>Writing\<close>

lemma old_handleWrite_open:
  assumes "in_loop_thread (parts o1)"
  shows "map_option (\<lambda>o2. set_state st (parts o2)) (old_handleWrite o1)
    = map_option (set_state st) (handleWrite (as_open o1))"
proof (cases "chans (parts o1) (chan (parts o1))")
  case None
  then show ?thesis by (simp add: old_handleWrite_def handleWrite_def)
next
  case (Some ch)
  let ?w = "parts o1" and ?os = "if needDisconn o1 then Disconnecting else Connected"
  have u: "as_open o1 = ?w\<lparr>state := ?os\<rparr>" by (simp add: as_open_def set_state_def)
  have twice: "set_state st (w\<lparr>state := s\<rparr>) = set_state st w" for w s by (simp add: set_state_def)
  obtain k r where kw: "kwrite (slice (peek (outputBuffer ?w)) (peek (outputBuffer ?w) + readableBytes (outputBuffer ?w))
    (bufvec (outputBuffer ?w))) (sock ?w) = (k, r)" by fastforce
  show ?thesis
  proof (cases "isWriting ch \<and> (\<exists>n. r = Inr n \<and> n > 0)")
    case False
    with Some kw show ?thesis
      by (cases r) (auto simp: old_handleWrite_def handleWrite_def Let_def u set_state_def)
  next
    case True
    then obtain n where n: "r = Inr n" "n > 0" "isWriting ch" by blast
    show ?thesis
    proof (cases "retrieve (outputBuffer ?w) n")
      case None
      with n Some kw show ?thesis by (simp add: old_handleWrite_def handleWrite_def Let_def)
    next
      case ob: (Some ob)
      let ?w2 = "?w\<lparr>sock := k, outputBuffer := ob\<rparr>"
      have u2: "(as_open o1)\<lparr>sock := k, outputBuffer := ob\<rparr> = ?w2\<lparr>state := ?os\<rparr>" by (simp add: u)
      show ?thesis
      proof (cases "readableBytes ob = 0")
        case False
        with n Some kw ob show ?thesis
          by (simp add: old_handleWrite_def handleWrite_def Let_def u2 twice)
      next
        case empty: True
        have dis: "disableWriting (chan ?w) (?w2\<lparr>state := ?os\<rparr>) = map_option (\<lambda>v. v\<lparr>state := ?os\<rparr>) (disableWriting (chan ?w) ?w2)"
          unfolding disableWriting_def by (rule set_events_state)
        have new: "handleWrite (as_open o1) = do {
            w3 \<leftarrow> map_option (\<lambda>v. v\<lparr>state := ?os\<rparr>) (disableWriting (chan ?w) ?w2);
            if state w3 = Disconnecting then shutdownInLoop w3 else Some w3 }"
          using n Some kw ob empty by (simp add: handleWrite_def Let_def u2 dis)
        have old: "old_handleWrite o1 = do {
            w3 \<leftarrow> disableWriting (chan ?w) ?w2;
            if needDisconn o1 then old_shutdownInLoop (o1\<lparr>parts := w3\<rparr>) else Some (o1\<lparr>parts := w3\<rparr>) }"
          using n Some kw ob empty by (simp add: old_handleWrite_def Let_def)
        show ?thesis
        proof (cases "disableWriting (chan ?w) ?w2")
          case None
          then show ?thesis by (simp add: new old)
        next
          case w3: (Some w3)
          then have "in_loop_thread w3" using assms set_events_thread [of "chan ?w" _ ?w2 w3] by (simp add: disableWriting_def)
          with w3 show ?thesis
            by (cases "chans w3 (chan w3)") (simp_all add: new old old_shutdownInLoop_def shutdownInLoop_def
              assertInLoopThread_def abort_simps twice, simp_all add: set_state_def)
        qed
      qed
    qed
  qed
qed

section \<open>Properties\<close>

text \<open>
  C31. The old \<open>sendInThread\<close> agrees with the new one, whatever the kernel answers, except when the direct
  write reports an error other than \<open>EPIPE\<close>: then the old one keeps nothing of the message.
\<close>
theorem old_send_as_new:
  "map_option upgrade (old_sendInThread s o1) =
    (if would_block s (upgrade o1) then Some ((upgrade o1)\<lparr>sock := fst (kwrite s (sock (parts o1)))\<rparr>)
     else sendInThread s (upgrade o1))"
  by (rule old_send_cases)

text \<open>
  On \<open>EWOULDBLOCK\<close>, a full send buffer of the kernel, the old version loses the whole message, of which
  the new one loses nothing.
\<close>
theorem old_send_drops:
  assumes "conn_inv (upgrade o1)" "oconnected o1" "would_block s (upgrade o1)"
  shows "\<exists>o2 w2. old_sendInThread s o1 = Some o2 \<and> conn_inv (upgrade o2) \<and> stream (upgrade o2) = stream (upgrade o1)
    \<and> sendInThread s (upgrade o1) = Some w2 \<and> conn_inv w2 \<and> stream w2 = stream (upgrade o1) @ s"
proof -
  have o: "open_state (upgrade o1)" using assms(2) by (simp add: open_state_def old_state_def)
  have ne: "\<not> epipe s (upgrade o1)" using assms(3) by (auto simp: would_block_def epipe_def)
  from sendInThread_ok [OF assms(1) o, of s] ne obtain w2 where
    w2: "sendInThread s (upgrade o1) = Some w2" "conn_inv w2" "stream w2 = stream (upgrade o1) @ s" by auto
  obtain k r where kw: "kwrite s (sock (parts o1)) = (k, r)" by fastforce
  with assms(3) obtain e where "r = Inl e" by (auto simp: would_block_def)
  with kwrite_spec [OF kw] have k: "wr_shut k = wr_shut (sock (upgrade o1))" "sent k = sent (sock (parts o1))" by simp_all
  have "map_option upgrade (old_sendInThread s o1) = Some ((upgrade o1)\<lparr>sock := k\<rparr>)"
    using old_send_cases [of s o1] assms(3) kw by simp
  then obtain o2 where "old_sendInThread s o1 = Some o2" "upgrade o2 = (upgrade o1)\<lparr>sock := k\<rparr>" by blast
  moreover from this(2) k conn_inv_sock [OF k(1)] assms(1) have "conn_inv (upgrade o2)" "stream (upgrade o2) = stream (upgrade o1)"
    by (simp_all add: stream_def)
  ultimately show ?thesis using w2 by blast
qed

text \<open>
  \<open>handleWrite\<close> moves bytes as the new one does; afterwards the two differ only in the state they
  remember: closing the write side, the old version already counts the connection as closed.
\<close>
theorem old_handleWrite_as_new:
  assumes "in_loop_thread (parts o1)" "oconnected o1"
  shows "map_option (\<lambda>o2. set_state st (parts o2)) (old_handleWrite o1)
    = map_option (set_state st) (handleWrite (upgrade o1))"
proof -
  have "upgrade o1 = as_open o1" using assms(2) by (simp add: upgrade_def as_open_def old_state_def)
  with old_handleWrite_open [OF assms(1)] show ?thesis by simp
qed

text \<open>
  After \<open>shutdown\<close>, while output is pending, the old version still accepts messages and puts off the
  close; the new one ignores them.
\<close>
theorem old_send_after_shutdown:
  assumes "conn_inv (upgrade o1)" "oconnected o1" "\<not> needDisconn o1" "content (outputBuffer (upgrade o1)) \<noteq> []"
  shows "\<exists>o2 o3. old_shutdown o1 = Some o2 \<and> old_send_data s o2 = Some o3 \<and> stream (upgrade o3) = stream (upgrade o1) @ s
    \<and> (\<exists>w2. conn_shutdown (upgrade o1) = Some w2 \<and> send_data s w2 = Some w2)"
proof -
  have st: "state (upgrade o1) = Connected" using assms(2,3) by (simp add: old_state_def)
  have o: "open_state (upgrade o1)" using st by (simp add: open_state_def)
  from assms(1) obtain ch where ch: "chans (parts o1) (chan (parts o1)) = Some ch" "isWriting ch"
    and i: "in_loop_thread (parts o1)" "\<not> wr_shut (sock (upgrade o1))"
    unfolding conn_inv_open [OF o] using assms(4) by auto
  let ?o2 = "o1\<lparr>needDisconn := True\<rparr>"
  have o2: "old_shutdown o1 = Some ?o2" using assms(3) ch i by (simp add: old_shutdown_def old_shutdownInLoop_def Let_def)
  have u2: "upgrade ?o2 = set_state Disconnecting (upgrade o1)"
    using assms(2) by (simp add: upgrade_def set_state_def old_state_def)
  have w2: "conn_shutdown (upgrade o1) = Some (upgrade ?o2)" using st ch i
    by (simp add: conn_shutdown_def Let_def shutdownInLoop_def assertInLoopThread_def abort_simps u2 set_state_def)
  have o': "open_state (upgrade ?o2)" by (simp add: u2 set_state_def open_state_def)
  have "conn_inv (upgrade ?o2)"
    unfolding conn_inv_open [OF o'] unfolding u2 set_state_def using assms(1) [unfolded conn_inv_open [OF o]] i(2) by simp
  moreover have "\<not> epipe s (upgrade ?o2)" using assms(4) by (simp add: epipe_def)
  ultimately obtain w3 where "sendInThread s (upgrade ?o2) = Some w3" "stream w3 = stream (upgrade o1) @ s"
    using sendInThread_ok [OF _ o', of s] by auto
  moreover have "\<not> would_block s (upgrade ?o2)" using ch by (simp add: would_block_def)
  ultimately have "map_option upgrade (old_sendInThread s ?o2) = Some w3" using old_send_cases [of s ?o2] by simp
  then obtain o3 where "old_sendInThread s ?o2 = Some o3" "upgrade o3 = w3" by blast
  then have "old_send_data s ?o2 = Some o3" "stream (upgrade o3) = stream (upgrade o1) @ s"
    using assms(2) i(1) \<open>stream w3 = stream (upgrade o1) @ s\<close> by (simp_all add: old_send_data_def)
  moreover have "send_data s (upgrade ?o2) = Some (upgrade ?o2)" by (simp add: send_data_def old_state_def)
  ultimately show ?thesis using o2 w2 by blast
qed

text \<open>
  Destroying a live connection with pending output stops the process: \<open>connectionDestroyed\<close> disables
  reading only, and \<open>Channel::remove\<close> asserts that no event is watched.
\<close>
theorem old_destroy_pending_crashes:
  assumes "conn_inv (upgrade o1)" "oconnected o1" "content (outputBuffer (upgrade o1)) \<noteq> []"
    "\<forall>o2. o_connection h o2 = Some o2"
  shows "old_connectionDestroyed h o1 = None"
proof -
  let ?w = "parts o1"
  have o: "open_state (upgrade o1)" using assms(2) by (simp add: open_state_def old_state_def)
  from assms(1) obtain ch where ch: "chans ?w (chan ?w) = Some ch" "ch_state ch = kAdded" "isWriting ch" "ch_fd ch = sockfd (upgrade o1)"
    and i: "in_loop_thread ?w" "poller_inv (upgrade o1)"
    unfolding conn_inv_open [OF o] using assms(3) by auto
  have p: "poller_inv ?w" using i(2) by (simp add: upgrade_def set_state_def)
  have fd: "ch_fd ch = sockfd ?w" using ch(4) by (simp add: upgrade_def set_state_def)
  let ?e = "ch_events ch AND NOT kReadEvent"
  let ?w2 = "updated (chan ?w) ch ?e ?w"
  have d: "disableReading (chan ?w) ?w = Some ?w2"
    using conn_set_events(1) [OF p i(1) ch(1) fd] ch(2) by (simp add: disableReading_def)
  have "has ?e kWriteEvent" using ch(3) by (simp add: isWriting_def read_off_keeps_write)
  then have "?e \<noteq> kNoneEvent" by (rule has_not_none)
  then obtain ch2 where "chans ?w2 (chan ?w) = Some ch2" "\<not> isNoneEvent ch2"
    using conn_set_events(3) [OF p i(1) ch(1) fd, of ?e] ch(2) by (simp add: isNoneEvent_def)
  then show ?thesis using i(1) d assms(4)
    by (simp add: old_connectionDestroyed_def in_parts_def assertInLoopThread_def abort_simps channel_remove_def)
qed

section \<open>Witnesses\<close>

definition sample_old :: "wres \<Rightarrow> old_conn" where
  "sample_old r = \<lparr>oconnected = True, needDisconn = False,
     parts = (sample_tcp Connected)\<lparr>sock := (sock (sample_tcp Connected))\<lparr>wscript := [r]\<rparr>\<rparr>\<rparr>"

lemma sample_old_inv: "conn_inv (upgrade (sample_old r))" "stream (upgrade (sample_old r)) = []"
proof -
  have "upgrade (sample_old r) = (sample_tcp Connected)\<lparr>sock := (sock (sample_tcp Connected))\<lparr>wscript := [r]\<rparr>\<rparr>"
    by (simp add: upgrade_def sample_old_def set_state_def old_state_def sample_tcp_def)
  then show "conn_inv (upgrade (sample_old r))" "stream (upgrade (sample_old r)) = []"
    using sample_tcp_inv [of Connected] by (simp_all add: conn_inv_sock) (simp add: stream_def sample_tcp_def)
qed

theorem old_send_drops_witness:
  "\<exists>o2. old_sendInThread ''abc'' (sample_old (WError EWOULDBLOCK)) = Some o2 \<and> stream (upgrade o2) = []"
proof -
  have "would_block ''abc'' (upgrade (sample_old (WError EWOULDBLOCK)))"
    by (simp add: would_block_def old_state_def) (simp add: sample_old_def sample_tcp_def sample_chan_def kwrite_def isWriting_def read_event_bits
      buffer_new_def readableBytes_def)
  from old_send_drops [OF sample_old_inv(1) _ this] sample_old_inv(2) show ?thesis by (auto simp: sample_old_def)
qed

theorem old_handleWrite_as_new_witness:
  "map_option (\<lambda>o2. set_state Connecting (parts o2)) (old_handleWrite (sample_old (WAccept 1)))
    = map_option (set_state Connecting) (handleWrite (upgrade (sample_old (WAccept 1))))"
  by (rule old_handleWrite_as_new) (simp_all add: sample_old_def sample_tcp_def)

end
