(* ===== verification/OldTcpServer.thy ===== *)
theory OldTcpServer
  imports TcpServer OldTcpConnection Timestamp
begin

text \<open>
  \<open>old-version/webserver/TcpServer.h\<close>, \<open>TcpServer.cc\<close> and \<open>InetAddress.h\<close>: the server as it first was.
  It names its connections after itself, and a connection's \<open>handleClose\<close> hands \<open>removeConnection\<close> to
  the main loop. The members it shares with the later server are a \<open>server\<close> (\<open>srv\<close>), with
  \<open>mainLoop_\<close> as \<open>baseLoop\<close>. The connections are a \<open>conn_class\<close> as in \<open>TcpServer\<close>; the old
  \<open>TcpConnection\<close> satisfies the same laws, so the same life of a connection follows.
\<close>

section \<open>InetAddress\<close>

text \<open>\<open>INADDR_ANY\<close> is zero in either byte order.\<close>

(* src/old-version/webserver/InetAddress.h:19-24 InetAddress::InetAddress(uint16_t) *)
definition old_inet_any :: "nat \<Rightarrow> sockaddr_in" where
  "old_inet_any port =
     (let addr = \<lparr>sin_family = 0, sin_addr = [0, 0, 0, 0], sin_port = (0, 0)\<rparr>
      in addr\<lparr>sin_family := AF_INET, sin_addr := [fst (htons 0), snd (htons 0), 0, 0], sin_port := htons port\<rparr>)"

(* src/old-version/webserver/InetAddress.h:25-30 InetAddress::InetAddress(const std::string&, uint16_t) *)
definition old_inet_of :: "string \<Rightarrow> nat \<Rightarrow> sockaddr_in" where
  "old_inet_of ip port = \<lparr>sin_family = AF_INET,
     sin_addr = (case inet_pton (c_string (ip @ [CHR 0x00])) of Some bs \<Rightarrow> bs | None \<Rightarrow> [0, 0, 0, 0]), sin_port = htons port\<rparr>"

(* src/old-version/webserver/InetAddress.h:31-33 InetAddress::InetAddress(const sockaddr_in&) *)
definition old_inet_of_sockaddr :: "sockaddr_in \<Rightarrow> sockaddr_in" where
  "old_inet_of_sockaddr a = a"

(* src/old-version/webserver/InetAddress.h:46-52 InetAddress::toIp *)
definition old_toIp :: "sockaddr_in \<Rightarrow> string" where
  "old_toIp a = inet_ntop (sin_addr a)"

(* src/old-version/webserver/InetAddress.h:35-44 InetAddress::toIpPort *)
definition old_toIpPort :: "sockaddr_in \<Rightarrow> string" where
  "old_toIpPort a =
     (let host = inet_ntop (sin_addr a); port = ntohs (sin_port a)
      in take 47 (host @ '':'' @ show_nat port))"

section \<open>The server\<close>

(* src/old-version/webserver/TcpServer.h:49-62 TcpServer *)
record 'k old_server =
  serverName :: string
  srv :: "'k server"

(* src/old-version/webserver/TcpServer.cc:18-24 detail::defaultConnectionCallback *)
definition old_defaultConnectionCallback :: "old_conn \<Rightarrow> string \<times> old_conn" where
  "old_defaultConnectionCallback o1 =
     (''On defaultConnectionCallback ['' @ old_toIpPort (localAddr (parts o1)) @ '']-['' @ old_toIpPort (peerAddr (parts o1))
        @ ''] is '' @ (if oconnected o1 then ''UP'' else ''DOWN'') @ [CHR 0x0A], o1)"

(* src/old-version/webserver/TcpServer.cc:26-36 detail::defaultMessageCallback *)
definition old_defaultMessageCallback :: "(int \<Rightarrow> tm) \<Rightarrow> timestamp \<Rightarrow> old_conn \<Rightarrow> string \<times> old_conn" where
  "old_defaultMessageCallback localtime time o1 =
     (''On defaultMessageCallback recved '' @ show_int (to_int32 (int (readableBytes (inputBuffer (parts o1)))))
        @ '' bytes data from '' @ old_toIpPort (peerAddr (parts o1)) @ '' at '' @ toFormattedString localtime time True
        @ [CHR 0x0A],
      o1\<lparr>parts := (parts o1)\<lparr>inputBuffer := retrieveAll (inputBuffer (parts o1))\<rparr>\<rparr>)"

(* src/old-version/webserver/TcpServer.cc:53-84 TcpServer::TcpServer *)
definition old_server_new :: "nat \<Rightarrow> int \<Rightarrow> int \<Rightarrow> bool \<Rightarrow> sockaddr_in \<Rightarrow> nat \<Rightarrow> string \<Rightarrow> 'k old_server option" where
  "old_server_new base idle lsock bind_ok addr threadNum name = do {
     assertc (lsock > 0);
     assertc bind_ok;
     Some \<lparr>serverName = name,
       srv = open_fd idle (open_fd lsock \<lparr>srv_started = False, baseLoop = base, idleFd = idle, listenSock = lsock,
         accept_reading = False, hostIpPort = old_toIpPort addr, ioThreadPool = loop_pool_new base threadNum, nextConnId = 0,
         connectionMap = [], srv_deleted = False, open_fds = {}, conns = (\<lambda>_. None), nconns = 0,
         queues = (\<lambda>_. []), finished = []\<rparr>)\<rparr>
   }"

(* src/old-version/webserver/TcpServer.cc:98-113 TcpServer::start *)
definition old_server_start :: "nat \<Rightarrow> bool \<Rightarrow> nat list \<Rightarrow> bool \<Rightarrow> 'k old_server \<Rightarrow> 'k old_server option" where
  "old_server_start cur init_cb new_loops listen_ok os = do {
     let s = srv os;
     assertc (cur = baseLoop s);
     if \<not> srv_started s then do {
       let s1 = s\<lparr>srv_started := True\<rparr>;
       p \<leftarrow> loop_pool_start (cur = baseLoop s1) init_cb new_loops (ioThreadPool s1);
       let s2 = s1\<lparr>ioThreadPool := p\<rparr>;
       assertc listen_ok;
       Some (os\<lparr>srv := s2\<lparr>accept_reading := True\<rparr>\<rparr>)
     } else Some os
   }"

section \<open>Removing\<close>

(* src/old-version/webserver/TcpServer.cc:160-170 TcpServer::removeConnection *)
definition old_removeConnection :: "nat \<Rightarrow> nat \<Rightarrow> 'k server \<Rightarrow> 'k server option" where
  "old_removeConnection cur i s = do {
     assertc (\<not> srv_deleted s);
     assertc (cur = baseLoop s);
     c \<leftarrow> conns s i;
     let ioLoop = co_loop c;
     let s1 = s\<lparr>connectionMap := map_erase (co_name c) (connectionMap s)\<rparr>;
     Some (post ioLoop (Destroyed i) s1)
   }"

text \<open>The functors of a loop, as in \<open>srv_run\<close>, and \<open>runInLoop\<close>.\<close>

fun old_run :: "'k conn_class \<Rightarrow> nat \<Rightarrow> srv_fun \<Rightarrow> 'k server \<Rightarrow> 'k server option" where
  "old_run K cur (Established i) s = map_option (finish (Established i)) (on_conn cur i (k_established K) s)"
| "old_run K cur (RemoveConnection i) s = map_option (finish (RemoveConnection i)) (old_removeConnection cur i s)"
| "old_run K cur (Destroyed i) s =
     map_option (finish (Destroyed i)) (on_conn cur i (k_destroyed K) s \<bind> free_conn i)"

definition old_run_in :: "'k conn_class \<Rightarrow> nat \<Rightarrow> nat \<Rightarrow> srv_fun \<Rightarrow> 'k server \<Rightarrow> 'k server option" where
  "old_run_in K cur l f s = (if cur = l then old_run K cur f s else Some (post l f s))"

text \<open>
  The channel of connection \<open>i\<close> reports the peer's close: \<open>handleClose\<close>, whose last statement
  (\<open>TcpConnection.cc:232\<close>) reads the server's main loop and hands it \<open>removeConnection\<close>.
\<close>

definition old_conn_close :: "'k conn_class \<Rightarrow> nat \<Rightarrow> nat \<Rightarrow> 'k old_server \<Rightarrow> 'k old_server option" where
  "old_conn_close K cur i os = do {
     s1 \<leftarrow> on_conn cur i (k_closed K) (srv os);
     assertc (\<not> srv_deleted s1);
     s2 \<leftarrow> old_run_in K cur (baseLoop s1) (RemoveConnection i) s1;
     Some (os\<lparr>srv := s2\<rparr>)
   }"

section \<open>Accepting\<close>

definition old_conn_name_of :: "string \<Rightarrow> 32 word \<Rightarrow> string \<Rightarrow> string" where
  "old_conn_name_of name n peer = name @ take 31 ('' #'' @ show_int (sint n) @ '':'' @ peer)"

(* src/old-version/webserver/TcpServer.cc:115-158 TcpServer::handleConnection *)
definition old_handleConnection ::
  "'k conn_class \<Rightarrow> nat \<Rightarrow> accept_result \<Rightarrow> int \<Rightarrow> int \<Rightarrow> 'k old_server \<Rightarrow> 'k old_server option" where
  "old_handleConnection K cur r second reopened os = do {
     let s = srv os;
     assertc (cur = baseLoop s);
     (case r of
        AcceptError emfile \<Rightarrow> Some (if emfile then
          let s1 = close_fd (idleFd s) s;
              s2 = open_fd second (s1\<lparr>idleFd := second\<rparr>);
              s3 = close_fd (idleFd s2) s2
          in os\<lparr>srv := open_fd reopened (s3\<lparr>idleFd := reopened\<rparr>)\<rparr> else os)
      | Accepted connfd peer local \<Rightarrow> do {
          let s1 = open_fd connfd s;
          let peerAddr = old_inet_of_sockaddr peer;
          let localAddr = old_inet_of_sockaddr local;
          let connName = old_conn_name_of (serverName os) (nextConnId s1) (old_toIpPort peerAddr);
          let s2 = s1\<lparr>nextConnId := nextConnId s1 + 1\<rparr>;
          (p, ioLoop) \<leftarrow> getNextLoop (cur = baseLoop s2) (ioThreadPool s2);
          let s3 = s2\<lparr>ioThreadPool := p\<rparr>;
          let (s4, conn) = alloc_conn \<lparr>co_name = connName, co_loop = ioLoop, co_fd = connfd,
              co_state = k_new K connfd connName localAddr peerAddr\<rparr> s3;
          let s5 = s4\<lparr>connectionMap := map_insert connName conn (connectionMap s4)\<rparr>;
          s6 \<leftarrow> old_run_in K cur ioLoop (Established conn) s5;
          Some (os\<lparr>srv := s6\<rparr>)
        })
   }"

section \<open>Destruction\<close>

fun old_destroy_all :: "'k conn_class \<Rightarrow> nat \<Rightarrow> (string \<times> nat) list \<Rightarrow> 'k server \<Rightarrow> 'k server option" where
  "old_destroy_all K cur [] s = Some s"
| "old_destroy_all K cur ((n, i) # m) s = do {
     c \<leftarrow> conns s i;
     s1 \<leftarrow> old_run_in K cur (co_loop c) (Destroyed i) s;
     old_destroy_all K cur m s1
   }"

(* src/old-version/webserver/TcpServer.cc:86-96 TcpServer::~TcpServer *)
definition old_server_delete :: "'k conn_class \<Rightarrow> nat \<Rightarrow> 'k old_server \<Rightarrow> 'k server option" where
  "old_server_delete K cur os = do {
     s1 \<leftarrow> old_destroy_all K cur (connectionMap (srv os)) (srv os);
     Some (s1\<lparr>connectionMap := [], srv_deleted := True, accept_reading := False\<rparr>)
   }"

section \<open>Runs\<close>

inductive old_step :: "'k conn_class \<Rightarrow> (int \<Rightarrow> bool) \<Rightarrow> 'k old_server \<Rightarrow> 'k old_server \<Rightarrow> bool" for K okfd where
  accept: "accept_reading (srv os) \<Longrightarrow> nconns (srv os) < 2 ^ 32 \<Longrightarrow> okfd fd \<Longrightarrow>
    old_handleConnection K (baseLoop (srv os)) (Accepted fd peer local) 0 0 os = Some os' \<Longrightarrow> old_step K okfd os os'"
| no_accept: "accept_reading (srv os) \<Longrightarrow>
    old_handleConnection K (baseLoop (srv os)) (AcceptError em) second reopened os = Some os' \<Longrightarrow> old_step K okfd os os'"
| next_functor: "queues (srv os) l = f # fs \<Longrightarrow> old_run K l f ((srv os)\<lparr>queues := (queues (srv os))(l := fs)\<rparr>) = Some s \<Longrightarrow>
    old_step K okfd os (os\<lparr>srv := s\<rparr>)"
| writable: "conns (srv os) i = Some c \<Longrightarrow> k_open K (co_state c) \<Longrightarrow> on_conn (co_loop c) i (k_write K) (srv os) = Some s \<Longrightarrow>
    old_step K okfd os (os\<lparr>srv := s\<rparr>)"
| peer_close: "conns (srv os) i = Some c \<Longrightarrow> k_open K (co_state c) \<Longrightarrow> old_conn_close K (co_loop c) i os = Some os' \<Longrightarrow>
    old_step K okfd os os'"

definition old_running :: "nat \<Rightarrow> 'k old_server \<Rightarrow> bool" where
  "old_running n os \<longleftrightarrow> (\<exists>base idle lsock addr init_cb ls name s0.
     old_server_new base idle lsock True addr n name = Some s0 \<and> old_server_start base init_cb ls True s0 = Some os)"

section \<open>Names\<close>

definition old_named :: "string \<Rightarrow> nat \<Rightarrow> string \<Rightarrow> bool" where
  "old_named name i n \<longleftrightarrow> (\<exists>peer. n = old_conn_name_of name (of_nat i) peer)"

lemma old_name_tag:
  "takeWhile (\<lambda>c. c \<noteq> CHR '':'') (drop (length name) (old_conn_name_of name w peer)) = '' #'' @ show_int (sint w)"
proof -
  let ?t = "'' #'' @ show_int (sint w)"
  have "length ?t \<le> 13" using length_show_int32 [of w] by simp
  then obtain r where "drop (length name) (old_conn_name_of name w peer) = ?t @ CHR '':'' # r"
    by (auto simp: old_conn_name_of_def take_Cons')
  moreover have "takeWhile (\<lambda>c. c \<noteq> CHR '':'') ?t = ?t" "\<forall>c\<in>set ?t. c \<noteq> CHR '':''"
    using colon_no_digit [of "sint w"] by (auto simp: takeWhile_eq_all_conv)
  ultimately show ?thesis by (simp add: takeWhile_append2)
qed

lemma unique_old_named: "unique_names (old_named name)"
  unfolding unique_names_def
proof (intro allI impI)
  fix i j n
  assume n: "old_named name i n" "old_named name j n" and l: "i < 2 ^ 32" "j < 2 ^ 32"
  from n have "show_int (sint (of_nat i :: 32 word)) = show_int (sint (of_nat j :: 32 word))"
    unfolding old_named_def using old_name_tag by (metis same_append_eq)
  then show "i = j" using show_int_inject signed_word_eqI of_nat32_inject [OF _ l] by blast
qed

section \<open>The later server's steps\<close>

lemma old_run_eq: "old_run K cur f s = srv_run K cur f s"
  by (cases f) (simp_all add: old_removeConnection_def removeConnectionInLoop_def)

lemma old_conn_close_eq: "old_conn_close K cur i os = map_option (\<lambda>s. os\<lparr>srv := s\<rparr>) (conn_close K cur i (srv os))"
  by (cases "on_conn cur i (k_closed K) (srv os)")
    (simp_all add: old_conn_close_def conn_close_def removeConnection_def old_run_in_def run_in_def old_run_eq abort_simps
      map_option_case split: option.split)

lemma old_accept_error:
  "old_handleConnection K (baseLoop (srv os)) (AcceptError em) a b os
    = Some (os\<lparr>srv := (if em then shed_connection a b (srv os) else srv os)\<rparr>)"
  by (simp add: old_handleConnection_def shed_connection_def abort_simps Let_def)

text \<open>
  Connections whose constructor leaves nothing to set: the laws of \<open>connection_class\<close> then give the old
  server the same invariant, for its own names.
\<close>

locale old_connection_class = connection_class +
  assumes plain: "k_setNoDelay K k = k"
begin

lemma old_accept_ok:
  assumes "srv_inv (old_named (serverName os)) fresh up down (srv os)" "nconns (srv os) < 2 ^ 32" "okfd fd"
  shows "\<exists>s'. old_handleConnection K (baseLoop (srv os)) (Accepted fd peer loc) a b os = Some (os\<lparr>srv := s'\<rparr>)
    \<and> srv_inv (old_named (serverName os)) fresh up down s' \<and> nconns s' = nconns (srv os) + 1"
proof -
  let ?s = "srv os" and ?nm = "old_named (serverName os)"
  let ?n = "old_conn_name_of (serverName os) (nextConnId ?s) (old_toIpPort (old_inet_of_sockaddr peer))"
  let ?k = "k_new K fd ?n (old_inet_of_sockaddr loc) (old_inet_of_sockaddr peer)"
  have i: "pool_ok (baseLoop ?s) (ioThreadPool ?s)" "nextConnId ?s = of_nat (nconns ?s)"
    using assms(1) unfolding srv_inv_def by auto
  from getNextLoop_ok [OF i(1)] obtain p l where p: "getNextLoop True (ioThreadPool ?s) = Some (p, l)"
    "pool_ok (baseLoop ?s) p" by blast
  have n: "?nm (nconns ?s) ?n" unfolding old_named_def i(2) by blast
  have k: "fresh ?k" using new_fresh [OF assms(3)] by (simp add: plain)
  define c where "c = \<lparr>co_name = ?n, co_loop = l, co_fd = fd, co_state = ?k\<rparr>"
  define s1 where "s1 = ?s\<lparr>open_fds := open_fds (open_fd fd ?s), nextConnId := nextConnId ?s + 1, ioThreadPool := p,
     conns := (conns ?s)(nconns ?s \<mapsto> c), nconns := nconns ?s + 1,
     connectionMap := map_insert ?n (nconns ?s) (connectionMap ?s)\<rparr>"
  have "old_handleConnection K (baseLoop ?s) (Accepted fd peer loc) a b os
    = map_option (\<lambda>s. os\<lparr>srv := s\<rparr>) (run_in K (baseLoop ?s) l (Established (nconns ?s)) s1)"
    using p(1) by (simp add: old_handleConnection_def old_run_in_def run_in_def old_run_eq abort_simps Let_def alloc_conn_def
        s1_def c_def open_fd_def map_option_case split: option.split)
  with accept_established [OF assms(1) unique_old_named assms(2) n k p(2) c_def s1_def]
  show ?thesis by auto
qed

lemma old_step_inv:
  assumes "old_step K okfd os os'" "srv_inv (old_named (serverName os)) fresh up down (srv os)"
  shows "srv_inv (old_named (serverName os')) fresh up down (srv os')"
  using assms(1)
proof cases
  case (accept fd peer loc)
  with old_accept_ok [OF assms(2) accept(2,3), of peer loc 0 0] show ?thesis by auto
next
  case (no_accept em a b)
  with assms(2) show ?thesis by (auto simp: old_accept_error shed_inv)
next
  case (next_functor l f fs s)
  with functor_ok [OF assms(2) next_functor(2)] show ?thesis by (auto simp: old_run_eq)
next
  case (writable i c s)
  with writable_ok [OF assms(2) writable(2,3)] show ?thesis by auto
next
  case (peer_close i c)
  with close_ok [OF assms(2) peer_close(1,2)] show ?thesis by (auto simp: old_conn_close_eq)
qed

lemma old_running_inv:
  assumes "old_running n os"
  shows "srv_inv nm fresh up down (srv os)"
proof -
  from assms obtain base idle lsock addr init_cb ls name os0 where
    os0: "old_server_new base idle lsock True addr n name = Some os0" "old_server_start base init_cb ls True os0 = Some os"
    by (auto simp: old_running_def)
  let ?s0 = "srv os0"
  have f: "baseLoop ?s0 = base" "nconns ?s0 = 0" "nextConnId ?s0 = 0" "\<not> srv_deleted ?s0" "conns ?s0 = (\<lambda>_. None)"
    "queues ?s0 = (\<lambda>_. [])" "finished ?s0 = []" "connectionMap ?s0 = []" "ioThreadPool ?s0 = loop_pool_new base n"
    "\<not> srv_started ?s0"
    using os0(1) by (auto simp: old_server_new_def abort_simps open_fd_def split: if_splits)
  from os0(2) obtain p where p: "loop_pool_start True init_cb ls (loop_pool_new base n) = Some p"
    and s: "srv os = ?s0\<lparr>srv_started := True, ioThreadPool := p, accept_reading := True\<rparr>"
    by (cases "loop_pool_start True init_cb ls (loop_pool_new base n)") (auto simp: old_server_start_def f abort_simps Let_def)
  from p have "pool_ok base p" by (rule loop_pool_start_ok)
  with f s show ?thesis by (simp add: srv_inv_def log_of_def pend_of_def names_of_def)
qed

end

sublocale old_connection_class \<subseteq> old: transition_system "\<lambda>os. \<exists>n. old_running n os" "old_step K okfd"
  "\<lambda>os. srv_inv (old_named (serverName os)) fresh up down (srv os)"
  by unfold_locales (use old_running_inv old_step_inv in blast)+

context old_connection_class
begin

lemma old_life:
  assumes "old_running n os0" "(old_step K okfd)\<^sup>*\<^sup>* os0 os" "i < nconns (srv os)"
  shows "\<exists>r. log_of i (srv os) @ r = [Established i, RemoveConnection i, Destroyed i]
    \<and> ((\<exists>m. map_of (connectionMap (srv os)) m = Some i) \<longleftrightarrow> RemoveConnection i \<in> set r)
    \<and> (conns (srv os) i = None \<longleftrightarrow> r = [])
    \<and> ((\<forall>l. queues (srv os) l = []) \<longrightarrow> r = [] \<or> r = [RemoveConnection i, Destroyed i])"
  using old.inv_reachable assms(1,2) by (intro inv_life [OF _ assms(3)]) blast

lemma old_total:
  assumes "old_running n os0" "(old_step K okfd)\<^sup>*\<^sup>* os0 os"
  shows "nconns (srv os) < 2 ^ 32 \<Longrightarrow> okfd fd \<Longrightarrow>
      old_handleConnection K (baseLoop (srv os)) (Accepted fd peer loc) a b os \<noteq> None"
    and "queues (srv os) l = f # fs \<Longrightarrow> old_run K l f ((srv os)\<lparr>queues := (queues (srv os))(l := fs)\<rparr>) \<noteq> None"
    and "conns (srv os) i = Some c \<Longrightarrow> k_open K (co_state c) \<Longrightarrow> old_conn_close K (co_loop c) i os \<noteq> None"
proof -
  have i: "srv_inv (old_named (serverName os)) fresh up down (srv os)" using old.inv_reachable assms by blast
  show "nconns (srv os) < 2 ^ 32 \<Longrightarrow> okfd fd \<Longrightarrow>
      old_handleConnection K (baseLoop (srv os)) (Accepted fd peer loc) a b os \<noteq> None"
    using old_accept_ok [OF i] by fastforce
  show "queues (srv os) l = f # fs \<Longrightarrow> old_run K l f ((srv os)\<lparr>queues := (queues (srv os))(l := fs)\<rparr>) \<noteq> None"
    using functor_ok [OF i] by (fastforce simp: old_run_eq)
  show "conns (srv os) i = Some c \<Longrightarrow> k_open K (co_state c) \<Longrightarrow> old_conn_close K (co_loop c) i os \<noteq> None"
    using close_ok [OF i] by (fastforce simp: old_conn_close_eq)
qed

end

section \<open>The connections are the old \<open>TcpConnection\<close>s\<close>

text \<open>
  The callbacks and the socket are as in \<open>tcp_class\<close>; handing \<open>removeConnection\<close> to the main loop is the
  server's \<open>old_conn_close\<close>. A connection is open while its channel watches events.
\<close>

definition old_open :: "old_conn \<Rightarrow> bool" where
  "old_open o1 = (case chans (parts o1) (chan (parts o1)) of Some ch \<Rightarrow> ch_events ch \<noteq> kNoneEvent | None \<Rightarrow> False)"

definition old_class :: "old_hooks \<Rightarrow> (conn_cb, conn_fun) loop \<Rightarrow> nat \<Rightarrow> ksock \<Rightarrow> old_conn conn_class" where
  "old_class h l c k = \<lparr>k_new = (\<lambda>fd n la pa. old_conn_new l fd n c la pa k), k_setNoDelay = (\<lambda>o1. o1),
     k_established = old_connectionEstablished h, k_write = old_handleWrite, k_closed = old_handleClose (h\<lparr>o_remove := Some\<rparr>),
     k_destroyed = old_connectionDestroyed h, k_open = old_open\<rparr>"

definition old_ended :: "old_conn \<Rightarrow> bool" where
  "old_ended o1 \<longleftrightarrow> conn_inv (set_state Disconnected (parts o1)) \<and> \<not> oconnected o1 \<and> ch_registered (chan (parts o1)) (parts o1)"

text \<open>User callbacks that return and keep the connection as they find it, open or ended.\<close>

definition old_hooks_ok :: "old_hooks \<Rightarrow> bool" where
  "old_hooks_ok h \<longleftrightarrow>
     (\<forall>o1. conn_inv (as_open o1) \<longrightarrow> (\<exists>o2. o_connection h o1 = Some o2 \<and> conn_inv (as_open o2))) \<and>
     (\<forall>o1. old_ended o1 \<longrightarrow> (\<exists>o2. o_connection h o1 = Some o2 \<and> old_ended o2))"

definition old_okfd :: "old_hooks \<Rightarrow> (conn_cb, conn_fun) loop \<Rightarrow> nat \<Rightarrow> ksock \<Rightarrow> int \<Rightarrow> bool" where
  "old_okfd h l c k fd \<longleftrightarrow> old_hooks_ok h \<and> poller_inv l \<and> in_loop_thread l \<and> chans l c = None
     \<and> channels l fd = None \<and> \<not> wr_shut k"

definition old_fresh :: "old_hooks \<Rightarrow> old_conn \<Rightarrow> bool" where
  "old_fresh h o1 \<longleftrightarrow> old_hooks_ok h \<and> conn_inv (set_state Connecting (parts o1)) \<and> \<not> needDisconn o1"

definition old_up :: "old_hooks \<Rightarrow> old_conn \<Rightarrow> bool" where
  "old_up h o1 \<longleftrightarrow> old_hooks_ok h \<and> conn_inv (as_open o1)"

definition old_down :: "old_hooks \<Rightarrow> old_conn \<Rightarrow> bool" where
  "old_down h o1 \<longleftrightarrow> old_hooks_ok h \<and> old_ended o1"

lemma set_state_twice [simp]: "set_state a (set_state b w) = set_state a w"
  by (simp add: set_state_def)

lemma set_events_set_state:
  "set_events c f (set_state st w) = map_option (set_state st) (set_events c f w)"
  using set_events_state [of c f st w] by (simp add: set_state_def [abs_def])

lemma set_state_keeps [simp]:
  "chans (set_state st w) = chans w" "chan (set_state st w) = chan w" "in_loop_thread (set_state st w) = in_loop_thread w"
  "sockfd (set_state st w) = sockfd w" "poller_inv (set_state st w) = poller_inv w" "state (set_state st w) = st"
  "ch_registered c (set_state st w) = ch_registered c w" "channels (set_state st w) = channels w"
  by (simp_all add: set_state_def ch_registered_def)

lemma conn_inv_loop: "conn_inv w \<Longrightarrow> in_loop_thread w"
  by (simp add: conn_inv_def)

lemma old_new_fresh:
  assumes "old_okfd h l c k fd"
  shows "old_fresh h (old_conn_new l fd n c la pa k)"
proof -
  let ?w = "setNoDelay (tcp_new l fd n c la pa k)"
  have i: "conn_inv ?w" "state ?w = Connecting"
    using tcp_new_fresh [of quiet_hooks l c k fd n la pa] assms by (simp_all add: old_okfd_def tcp_okfd_def tcp_fresh_def quiet_ok)
  let ?v = "setNoDelay (setKeepalive (tcp_new l fd n c la pa k))"
  have v: "?v = ?w\<lparr>sock := sock ?v\<rparr>" "wr_shut (sock ?v) = wr_shut (sock ?w)" by (simp_all add: setNoDelay_def setKeepalive_def)
  have "conn_inv ?v" using conn_inv_sock [OF v(2)] i(1) v(1) by simp
  moreover have "set_state Connecting ?v = ?v" using i(2) by (simp add: set_state_def setNoDelay_def setKeepalive_def)
  ultimately show ?thesis using assms by (simp add: old_fresh_def old_okfd_def old_conn_new_def)
qed

lemma old_established_up:
  assumes "old_fresh h o1"
  shows "\<exists>o2. old_connectionEstablished h o1 = Some o2 \<and> old_up h o2"
proof -
  let ?w = "parts o1"
  have h: "old_hooks_ok h" "conn_inv (set_state Connecting ?w)" "\<not> needDisconn o1" using assms by (simp_all add: old_fresh_def)
  from enable_ok [OF h(2)] obtain w where w: "enableReading (chan ?w) (set_state Connected ?w) = Some w" "conn_inv w" by auto
  then obtain v where v: "enableReading (chan ?w) ?w = Some v" "set_state Connected v = w"
    by (auto simp: enableReading_def set_events_set_state)
  let ?o = "o1\<lparr>oconnected := True, parts := v\<rparr>"
  have "conn_inv (as_open ?o)" using v(2) w(2) h(3) by (simp add: as_open_def)
  then obtain o2 where "o_connection h ?o = Some o2" "conn_inv (as_open o2)" using h(1) unfolding old_hooks_ok_def by blast
  with h(1) v(1) conn_inv_loop [OF h(2)] show ?thesis
    by (simp add: old_connectionEstablished_def in_parts_def assertInLoopThread_def abort_simps old_up_def)
qed

lemma old_shutdown_keeps: "old_shutdownInLoop o1 = Some o2 \<Longrightarrow> needDisconn o2 = needDisconn o1"
  by (auto simp: old_shutdownInLoop_def Let_def bind_Some_iff split: if_splits)

lemma old_handleWrite_keeps:
  assumes "old_handleWrite o1 = Some o2"
  shows "needDisconn o2 = needDisconn o1"
  using assms
  by (auto simp: old_handleWrite_def Let_def bind_Some_iff split: if_splits prod.splits sum.splits dest: old_shutdown_keeps)

lemma old_write_up:
  assumes "old_up h o1"
  shows "\<exists>o2. old_handleWrite o1 = Some o2 \<and> old_up h o2"
proof -
  have i: "conn_inv (as_open o1)" "old_hooks_ok h" using assms by (simp_all add: old_up_def)
  from handleWrite_ok [OF i(1)] obtain w where w: "handleWrite (as_open o1) = Some w" "conn_inv w" "state w = state (as_open o1)" by auto
  have "in_loop_thread (parts o1)" using conn_inv_loop [OF i(1)] by simp
  from old_handleWrite_open [OF this, of "state w"] w(1) obtain o2 where
    o2: "old_handleWrite o1 = Some o2" "set_state (state w) (parts o2) = set_state (state w) w" by auto
  moreover have "set_state (state w) w = w" by (simp add: set_state_def)
  ultimately have "as_open o2 = w" using w(3) old_handleWrite_keeps [OF o2(1)] by (simp add: as_open_def)
  with o2(1) w(2) i(2) show ?thesis by (simp add: old_up_def)
qed

lemma old_closed_down:
  assumes "old_up h o1"
  shows "\<exists>o2. old_handleClose (h\<lparr>o_remove := Some\<rparr>) o1 = Some o2 \<and> old_down h o2"
proof -
  have i: "conn_inv (as_open o1)" "old_hooks_ok h" using assms by (simp_all add: old_up_def)
  from disable_ok [OF i(1)] obtain w where w: "disableAll (chan (parts o1)) (set_state Disconnected (parts o1)) = Some w"
    "conn_inv w" "chan w = chan (parts o1)" "ch_registered (chan w) w"
    unfolding as_open_def set_state_twice by (auto simp: as_open_def [symmetric])
  then obtain v where v: "disableAll (chan (parts o1)) (parts o1) = Some v" "set_state Disconnected v = w"
    by (auto simp: disableAll_def set_events_set_state)
  with w i(2) show ?thesis
    by (auto simp: old_handleClose_def in_parts_def old_down_def old_ended_def)
qed

text \<open>
  Destroying an ended connection: \<open>disableReading\<close> makes the kernel watch the descriptor again, for no
  event, and \<open>Channel::remove\<close> takes it out.
\<close>

lemma old_destroyed_ends:
  assumes "old_down h o1"
  shows "\<exists>o2. old_connectionDestroyed h o1 = Some o2 \<and> \<not> ch_registered (chan (parts o2)) (parts o2)"
proof -
  let ?w = "parts o1"
  have d: "conn_inv (set_state Disconnected ?w)" "\<not> oconnected o1" "ch_registered (chan ?w) ?w" "old_hooks_ok h"
    using assms by (simp_all add: old_down_def old_ended_def)
  then obtain ch where ch: "chans ?w (chan ?w) = Some ch" "ch_events ch = kNoneEvent" "ch_fd ch = sockfd ?w" "ch_state ch \<noteq> kNew"
    and i: "poller_inv ?w" "in_loop_thread ?w"
    by (auto simp: conn_inv_def chan_ok_def ch_registered_def)
  let ?w2 = "updated (chan ?w) ch kNoneEvent ?w"
  have e: "(kNoneEvent AND NOT kReadEvent) = kNoneEvent" by (simp add: kNoneEvent_def)
  have p: "ch_state ch = kNew \<longrightarrow> channels ?w (sockfd ?w) = None" using ch(4) by simp
  note se = conn_set_events [OF i ch(1,3) p]
  have 1: "disableReading (chan ?w) ?w = Some ?w2"
    using se(1) [of "\<lambda>e. e AND NOT kReadEvent"] ch(2) e by (simp add: disableReading_def)
  let ?ch = "ch\<lparr>ch_events := kNoneEvent, ch_state := (if ch_state ch = kAdded \<and> kNoneEvent = kNoneEvent then kDeleted else kAdded)\<rparr>"
  have c2: "chans ?w2 (chan ?w) = Some ?ch" by (rule se(3))
  have "chan_ok (set_state Disconnected ?w2) ?ch" using ch(3) by (simp add: chan_ok_def)
  then have "conn_inv (set_state Disconnected ?w2)"
    using d(1) se(2) [of "\<lambda>e. kNoneEvent"] c2 unfolding conn_inv_def by (simp add: set_state_def)
  then have "old_ended (o1\<lparr>parts := ?w2\<rparr>)" using d(2) c2 by (simp add: old_ended_def ch_registered_def)
  then obtain o3 where o3: "o_connection h (o1\<lparr>parts := ?w2\<rparr>) = Some o3" "old_ended o3" using d(4) unfolding old_hooks_ok_def by blast
  then obtain ch3 where ch3: "chans (parts o3) (chan (parts o3)) = Some ch3" "isNoneEvent ch3" "ch_state ch3 \<noteq> kNew"
    and i3: "poller_inv (parts o3)" "in_loop_thread (parts o3)"
    by (auto simp: old_ended_def conn_inv_def chan_ok_def ch_registered_def isNoneEvent_def)
  from channel_remove_eq [OF i3 ch3] 1 o3(1) i(2) show ?thesis
    by (simp add: old_connectionDestroyed_def in_parts_def assertInLoopThread_def abort_simps removed_def ch_registered_def)
qed

lemma old_open_phases: "old_fresh h o1 \<Longrightarrow> \<not> old_open o1" "old_down h o1 \<Longrightarrow> \<not> old_open o1"
  by (auto simp: old_fresh_def old_down_def old_ended_def conn_inv_def chan_ok_def old_open_def)

interpretation oc: old_connection_class "old_class h l c k" "old_okfd h l c k" "old_fresh h" "old_up h" "old_down h"
  for h l c k
  by unfold_locales
    (simp_all add: old_class_def old_new_fresh old_established_up old_write_up old_closed_down old_open_phases,
      use old_destroyed_ends in blast)

section \<open>Properties\<close>


text \<open>
  No step the old server can be asked for stops it: accepting, running the next functor of a loop, the
  close of an open connection.
\<close>
theorem old_server_never_crashes:
  assumes "old_running n os0" "(old_step (old_class h l c k) (old_okfd h l c k))\<^sup>*\<^sup>* os0 os"
  shows "(nconns (srv os) < 2 ^ 32 \<and> old_okfd h l c k fd \<longrightarrow>
      old_handleConnection (old_class h l c k) (baseLoop (srv os)) (Accepted fd peer loc) a b os \<noteq> None)
    \<and> (queues (srv os) j = f # fs \<longrightarrow> old_run (old_class h l c k) j f ((srv os)\<lparr>queues := (queues (srv os))(j := fs)\<rparr>) \<noteq> None)
    \<and> (conns (srv os) i = Some c0 \<and> old_open (co_state c0) \<longrightarrow> old_conn_close (old_class h l c k) (co_loop c0) i os \<noteq> None)"
  using oc.old_total [OF assms] by (auto simp: old_class_def)

text \<open>
  Printing an address and port: the buffer of 48 bytes is long enough, and the text is that of the later
  version.
\<close>
theorem old_toIpPort_as_new:
  assumes "length bs = 4" "list_all (\<lambda>b. b < 256) bs" "p < 65536"
  shows "old_toIpPort \<lparr>sin_family = f, sin_addr = bs, sin_port = htons p\<rparr> = toIpPort \<lparr>sin_family = f, sin_addr = bs, sin_port = htons p\<rparr>"
proof -
  have p: "length (show_nat p) \<le> 5" using assms(3) by (intro length_show_nat) auto
  have b: "length (show_nat x) \<le> 3" if "x \<in> set bs" for x using assms(2) that by (intro length_show_nat) (auto simp: list_all_iff)
  have "set bs = {bs ! 0, bs ! 1, bs ! 2, bs ! 3}" using assms(1) by (auto simp: length_Suc_conv numeral_eq_Suc)
  then have "length (inet_ntop bs) \<le> 15" using b [of "bs ! 0"] b [of "bs ! 1"] b [of "bs ! 2"] b [of "bs ! 3"] by (simp add: inet_ntop_def)
  with p assms(3) show ?thesis by (simp add: old_toIpPort_def toIpPort_def toIp_def toPort_def ntohs_htons)
qed

section \<open>Witnesses\<close>

text \<open>The default callbacks, and a server with one loop in its pool.\<close>

definition default_hooks :: old_hooks where
  "default_hooks = \<lparr>o_connection = (\<lambda>o1. Some (snd (old_defaultConnectionCallback o1))), o_message = Some, o_remove = Some\<rparr>"

lemma default_ok: "old_hooks_ok default_hooks"
  by (simp add: old_hooks_ok_def default_hooks_def old_defaultConnectionCallback_def)

definition sample_old_server :: "old_conn old_server" where
  "sample_old_server = \<lparr>serverName = ''TcpServer'', srv = (open_fd 3 (open_fd 4 \<lparr>srv_started = False, baseLoop = 0, idleFd = 3,
     listenSock = 4, accept_reading = False, hostIpPort = old_toIpPort (old_inet_any 80), ioThreadPool = loop_pool_new 0 1,
     nextConnId = 0, connectionMap = [], srv_deleted = False, open_fds = {}, conns = (\<lambda>_. None), nconns = 0,
     queues = (\<lambda>_. []), finished = []\<rparr>))\<lparr>srv_started := True, accept_reading := True,
       ioThreadPool := (loop_pool_new 0 1)\<lparr>loops := [7], lp_started := True\<rparr>\<rparr>\<rparr>"

abbreviation sample_old_class :: "old_conn conn_class" where
  "sample_old_class \<equiv> old_class default_hooks sample_loop 1 sample_ksock"

abbreviation sample_old_okfd :: "int \<Rightarrow> bool" where
  "sample_old_okfd \<equiv> old_okfd default_hooks sample_loop 1 sample_ksock"

lemma sample_old_running: "old_running 1 sample_old_server" "accept_reading (srv sample_old_server)"
  "nconns (srv sample_old_server) = 0"
  unfolding old_running_def
  by (intro exI [of _ 0] exI [of _ 3] exI [of _ 4] exI [of _ "old_inet_any 80"] exI [of _ False] exI [of _ "[7]"]
      exI [of _ "''TcpServer''"])
    (simp_all add: old_server_new_def old_server_start_def sample_old_server_def abort_simps open_fd_def loop_pool_start_def
      loop_pool_new_def Let_def)

lemma sample_old_okfd5: "sample_old_okfd 5"
  by (simp add: old_okfd_def default_ok sample_loop_def sample_ksock_def poller_inv_def kernel_entry_def)

lemma sample_old_accept: "\<exists>os. old_step sample_old_class sample_old_okfd sample_old_server os \<and> nconns (srv os) = 1"
proof -
  have i: "srv_inv (old_named (serverName sample_old_server)) (old_fresh default_hooks) (old_up default_hooks)
    (old_down default_hooks) (srv sample_old_server)"
    by (rule oc.old_running_inv [OF sample_old_running(1)])
  from oc.old_accept_ok [OF i _ sample_old_okfd5, of "inet_any 90" "inet_any 80" 0 0]
  obtain s where "old_handleConnection sample_old_class (baseLoop (srv sample_old_server)) (Accepted 5 (inet_any 90) (inet_any 80)) 0 0
    sample_old_server = Some (sample_old_server\<lparr>srv := s\<rparr>)" "nconns s = 1"
    by (auto simp: sample_old_running(3))
  with sample_old_okfd5 sample_old_running(2,3) show ?thesis
    by (intro exI [of _ "sample_old_server\<lparr>srv := s\<rparr>"]) (auto intro: old_step.accept)
qed


theorem old_toIpPort_as_new_witness:
  "old_toIpPort \<lparr>sin_family = AF_INET, sin_addr = [255, 255, 255, 255], sin_port = htons 65535\<rparr>
    = toIpPort \<lparr>sin_family = AF_INET, sin_addr = [255, 255, 255, 255], sin_port = htons 65535\<rparr>"
  by (rule old_toIpPort_as_new) simp_all

end
