(* ===== verification/OldHttpServer.thy ===== *)
theory OldHttpServer
  imports OldTcpServer HttpServer
begin

text \<open>
  \<open>old-version/webserver/http/HttpServer.h\<close> and \<open>HttpServer.cc\<close>: the HTTP server as it first was. One
  parser serves the connections of all threads. \<open>HttpRequest\<close>, \<open>HttpContext\<close> and \<open>HttpResponse\<close> have the
  same text in both versions.

  Nothing orders the callbacks of two threads: \<open>onMessage\<close> is two steps, up to the return of
  \<open>parseRequest\<close> and from there, between which another thread's may come.
\<close>

(* src/old-version/webserver/http/HttpServer.cc:13-18 detail::defaultHttpCallback *)
definition old_defaultHttpCallback :: "http_request \<Rightarrow> http_response \<Rightarrow> http_response" where
  "old_defaultHttpCallback req r = setCloseConnection True (setStatusMessage ''Not Found'' (setStatusCode k404NotFound r))"

(* src/old-version/webserver/http/HttpServer.h:42-44 HttpServer *)
record old_http =
  old_tcp_server :: "old_conn old_server"
  httpContext :: http_context
  old_httpCallback :: "http_request \<Rightarrow> http_response \<Rightarrow> http_response"

(* src/old-version/webserver/http/HttpServer.cc:26-38 HttpServer::HttpServer *)
definition old_http_new :: "nat \<Rightarrow> int \<Rightarrow> int \<Rightarrow> bool \<Rightarrow> sockaddr_in \<Rightarrow> nat \<Rightarrow> string \<Rightarrow> old_http option" where
  "old_http_new base idle lsock bind_ok addr threadNum name = do {
     s \<leftarrow> old_server_new base idle lsock bind_ok addr threadNum name;
     Some \<lparr>old_tcp_server = s, httpContext = context_new, old_httpCallback = old_defaultHttpCallback\<rparr>
   }"

(* src/old-version/webserver/http/HttpServer.h:30-32 HttpServer::setHttpCallback *)
definition old_setHttpCallback :: "(http_request \<Rightarrow> http_response \<Rightarrow> http_response) \<Rightarrow> old_http \<Rightarrow> old_http" where
  "old_setHttpCallback f hs = hs\<lparr>old_httpCallback := f\<rparr>"

(* src/old-version/webserver/http/HttpServer.cc:44-47 HttpServer::start *)
definition old_http_start :: "nat \<Rightarrow> nat list \<Rightarrow> bool \<Rightarrow> old_http \<Rightarrow> old_http option" where
  "old_http_start cur new_loops listen_ok hs = do {
     s \<leftarrow> old_server_start cur False new_loops listen_ok (old_tcp_server hs);
     Some (hs\<lparr>old_tcp_server := s\<rparr>)
   }"

text \<open>What the connection callback prints.\<close>

(* src/old-version/webserver/http/HttpServer.cc:50-61 HttpServer::onConnection *)
definition old_http_onConnection :: "old_conn \<Rightarrow> string" where
  "old_http_onConnection o1 =
     (if oconnected o1 then ''onConnection(): new connection ['' @ c_string (conn_name (parts o1) @ [CHR 0x00]) @ ''] from ''
        @ old_toIpPort (peerAddr (parts o1)) @ '' is UP'' @ [CHR 0x0A]
      else ''onConnection(): connection ['' @ c_string (conn_name (parts o1) @ [CHR 0x00]) @ ''] is DOWN'' @ [CHR 0x0A])"

(* src/old-version/webserver/http/HttpServer.cc:64-68 HttpServer::onMessage *)
definition old_http_parse :: "old_http \<Rightarrow> old_conn \<Rightarrow> (old_http \<times> old_conn \<times> bool) option" where
  "old_http_parse hs o1 = do {
     (c1, b, ok) \<leftarrow> parseRequest (httpContext hs) (inputBuffer (parts o1));
     Some (hs\<lparr>httpContext := c1\<rparr>, o1\<lparr>parts := (parts o1)\<lparr>inputBuffer := b\<rparr>\<rparr>, ok)
   }"

(* src/old-version/webserver/http/HttpServer.cc:75-80 HttpServer::onMessage *)
definition old_http_answer :: "(http_request \<Rightarrow> http_response \<Rightarrow> http_response) \<Rightarrow> http_request \<Rightarrow> http_response" where
  "old_http_answer f req =
     (let connection = header ''Connection'' req;
          close = (connection = ''close'' \<or> req_version req = kHttp10)
      in f req (response_new close (req_version req)))"

(* src/old-version/webserver/http/HttpServer.cc:68-92 HttpServer::onMessage *)
definition old_http_reply :: "bool \<Rightarrow> old_http \<Rightarrow> old_conn \<Rightarrow> (old_http \<times> old_conn) option" where
  "old_http_reply ok hs o1 =
     (if \<not> ok then do {
        o2 \<leftarrow> old_send_piece (sp_of_cstr (bad_request @ [CHR 0x00])) o1;
        o3 \<leftarrow> old_shutdown o2;
        Some (hs, o3)
      } else do {
        let response = old_http_answer (old_httpCallback hs) (request (httpContext hs));
        buf \<leftarrow> appendToBuffer response buffer_new;
        (o2, buf2) \<leftarrow> old_send_buffer buf o1;
        o3 \<leftarrow> (if closeConnection response then old_shutdown o2 else Some o2);
        Some (hs\<lparr>httpContext := context_reset (httpContext hs)\<rparr>, o3)
      })"

text \<open>One thread alone.\<close>

(* src/old-version/webserver/http/HttpServer.cc:64-92 HttpServer::onMessage *)
definition old_http_onMessage :: "old_http \<Rightarrow> old_conn \<Rightarrow> (old_http \<times> old_conn) option" where
  "old_http_onMessage hs o1 = do {
     (hs1, o2, ok) \<leftarrow> old_http_parse hs o1;
     old_http_reply ok hs1 o2
   }"

section \<open>Replies\<close>

lemma old_send_ok:
  assumes "conn_inv (upgrade o1)" "oconnected o1" "\<not> would_block s (upgrade o1)"
  shows "\<exists>o2. old_sendInThread s o1 = Some o2 \<and> conn_inv (upgrade o2) \<and> oconnected o2
    \<and> stream (upgrade o2) = stream (upgrade o1) @ (if epipe s (upgrade o1) then [] else s)"
proof -
  have o: "open_state (upgrade o1)" using assms(2) by (simp add: open_state_def old_state_def)
  from sendInThread_ok [OF assms(1) o, of s] obtain w where w: "sendInThread s (upgrade o1) = Some w" "conn_inv w"
    "state w = state (upgrade o1)" "stream w = stream (upgrade o1) @ (if epipe s (upgrade o1) then [] else s)" by blast
  with old_send_cases [of s o1] assms(3) obtain o2 where "old_sendInThread s o1 = Some o2" "upgrade o2 = w" by auto
  moreover from this(2) w(3) have "oconnected o2" using assms(2) by (auto simp: old_state_def split: if_splits)
  ultimately show ?thesis using w by auto
qed

lemma old_shutdown_ok:
  assumes "conn_inv (upgrade o1)"
  shows "\<exists>o2. old_shutdown o1 = Some o2 \<and> stream (upgrade o2) = stream (upgrade o1)"
proof -
  obtain ch where "chans (parts o1) (chan (parts o1)) = Some ch" using conn_inv_channel [OF assms] by auto
  moreover have "in_loop_thread (parts o1)" using conn_inv_loop [OF assms] by simp
  ultimately show ?thesis by (auto simp: old_shutdown_def old_shutdownInLoop_def Let_def stream_def)
qed

lemma old_reply_ok:
  assumes "conn_inv (upgrade o1)" "oconnected o1" "r = old_http_answer (old_httpCallback hs) (request (httpContext hs))"
    "\<not> epipe (response_text r) (upgrade o1)" "\<not> would_block (response_text r) (upgrade o1)"
  shows "\<exists>o2. old_http_reply True hs o1 = Some (hs\<lparr>httpContext := context_new\<rparr>, o2)
    \<and> stream (upgrade o2) = stream (upgrade o1) @ response_text r"
proof -
  from appendToBuffer_text [of r, unfolded appends_def, rule_format, OF buffer_new_inv] obtain buf where
    buf: "appendToBuffer r buffer_new = Some buf" "buffer_inv buf" "content buf = response_text r" by auto
  from old_send_ok [OF assms(1,2,5)] assms(4) obtain o2 where o2: "old_sendInThread (response_text r) o1 = Some o2"
    "conn_inv (upgrade o2)" "stream (upgrade o2) = stream (upgrade o1) @ response_text r" by auto
  have "in_loop_thread (parts o1)" using conn_inv_loop [OF assms(1)] by simp
  with o2(1) assms(2) buf(2,3) have "old_send_buffer buf o1 = Some (o2, buf)" by (simp add: old_send_buffer_def readable_slice)
  with buf(1) o2(3) old_shutdown_ok [OF o2(2)] show ?thesis
    by (auto simp: old_http_reply_def assms(3) [symmetric] context_reset_new)
qed

lemma upgrade_input: "upgrade (o1\<lparr>parts := (parts o1)\<lparr>inputBuffer := b\<rparr>\<rparr>) = (upgrade o1)\<lparr>inputBuffer := b\<rparr>"
  by (simp add: upgrade_def set_state_def old_state_def)

section \<open>Properties\<close>

text \<open>
  While the thread of connection \<open>a\<close> is between the two steps of \<open>onMessage\<close>, with the first line of a
  request, a message on connection \<open>b\<close> of another thread goes into the same parser: its first line, if it
  has no colon, ends the headers of \<open>a\<close>'s request, and \<open>b\<close> is sent the answer to it. One client gets what
  another has asked for.
\<close>
theorem old_http_shared_context_crosses:
  assumes "httpContext hs = context_new" "buffer_inv (inputBuffer (parts a))"
    "content (inputBuffer (parts a)) = methodToString m @ '' '' @ p @ '' '' @ version_text v @ kCRLF"
    "m \<noteq> kInvalid" "v \<noteq> kUnknown" "CHR '' '' \<notin> set p" "CHR 0x0D \<notin> set p"
    "conn_inv (upgrade b)" "oconnected b" "content (inputBuffer (parts b)) = line @ kCRLF @ rest"
    "CHR '':'' \<notin> set line" "CHR 0x0D \<notin> set line"
    "r = old_http_answer (old_httpCallback hs) \<lparr>req_method = m, req_path = p, req_version = v, req_headers = (\<lambda>_. None), req_body = []\<rparr>"
    "\<not> epipe (response_text r) (upgrade b)" "\<not> would_block (response_text r) (upgrade b)"
  shows "\<exists>hs1 a1 hs2 b1 hs3 b2. old_http_parse hs a = Some (hs1, a1, True) \<and> old_http_parse hs1 b = Some (hs2, b1, True)
    \<and> old_http_reply True hs2 b1 = Some (hs3, b2) \<and> stream (upgrade b2) = stream (upgrade b) @ response_text r
    \<and> content (inputBuffer (parts b1)) = rest"
proof -
  let ?req = "\<lparr>req_method = m, req_path = p, req_version = v, req_headers = (\<lambda>_. None), req_body = []\<rparr>"
  let ?c1 = "\<lparr>pstate = kExpectHeaders, request = ?req\<rparr>" and ?c2 = "\<lparr>pstate = kGotAll, request = ?req\<rparr>"
  let ?l = "methodToString m @ '' '' @ p @ '' '' @ version_text v"
  have "CHR 0x0D \<notin> set (methodToString m)" "CHR 0x0D \<notin> set (version_text v)" by (cases m; simp) (cases v; simp)
  with assms(7) have cr: "CHR 0x0D \<notin> set ?l" by simp
  note l = line_cut [OF cr, of "[]", unfolded append_Nil2]
  have st: "pstate context_new = kExpectRequestLine" by (simp add: context_new_def)
  have "parse_text context_new (?l @ kCRLF) = parse_text ?c1 []"
    unfolding parse_text_line(1) [OF l(1) st, unfolded l(2,3), OF request_line [OF assms(4-6)], unfolded if_True]
    by (simp add: receiveRequestLine_def context_new_def request_new_def)
  also have "\<dots> = (?c1, [], True)" by (rule parse_text_no_line) simp_all
  finally have pa: "parse_text context_new (content (inputBuffer (parts a))) = (?c1, [], True)" using assms(3) by simp
  have "pstate context_new \<noteq> kGotAll" by (simp add: st)
  from parseRequest_text [OF assms(2) this pa] obtain ba where ba: "parseRequest context_new (inputBuffer (parts a)) = Some (?c1, ba, True)"
    by blast
  have bi: "buffer_inv (inputBuffer (parts b))" using assms(8) by (simp add: conn_inv_def)
  note k = line_cut [OF assms(12), of rest]
  have h: "pstate ?c1 = kExpectHeaders" by simp
  have "parse_text ?c1 (line @ kCRLF @ rest) = parse_text (receiveHeaders ?c1) rest"
    using parse_text_line(3) [OF k(1) h] assms(11) unfolding k(2,3) by blast
  also have "\<dots> = (?c2, rest, True)" by (subst parse_text_body) (simp_all add: context_defs)
  finally have "parse_text ?c1 (content (inputBuffer (parts b))) = (?c2, rest, True)" using assms(10) by simp
  from parseRequest_text [OF bi _ this] obtain bb where bb: "parseRequest ?c1 (inputBuffer (parts b)) = Some (?c2, bb, True)"
    "buffer_inv bb" "content bb = rest" by auto
  let ?b1 = "b\<lparr>parts := (parts b)\<lparr>inputBuffer := bb\<rparr>\<rparr>" and ?hs2 = "hs\<lparr>httpContext := ?c2\<rparr>"
  have u: "upgrade ?b1 = (upgrade b)\<lparr>inputBuffer := bb\<rparr>" by (rule upgrade_input)
  have "conn_inv (upgrade ?b1)" unfolding u by (rule conn_inv_input [OF assms(8) bb(2)])
  moreover have "\<not> epipe (response_text r) (upgrade ?b1)" "\<not> would_block (response_text r) (upgrade ?b1)"
    using assms(14,15) by (simp_all add: u epipe_def would_block_def)
  moreover have "stream (upgrade ?b1) = stream (upgrade b)" by (simp add: u stream_def)
  ultimately obtain b2 where "old_http_reply True ?hs2 ?b1 = Some (?hs2\<lparr>httpContext := context_new\<rparr>, b2)"
    "stream (upgrade b2) = stream (upgrade b) @ response_text r"
    using old_reply_ok [of ?b1 r ?hs2] assms(9,13) by auto
  then show ?thesis using assms(1) ba bb(1,3) by (simp add: old_http_parse_def)
qed

text \<open>
  The answer of one thread leaves the parser as it found it, ready for a new request: undisturbed by
  others, a connection that sends a complete request gets the callback's answer to it.
\<close>
theorem old_http_alone_serves:
  assumes "httpContext hs = context_new" "conn_inv (upgrade o1)" "oconnected o1"
    "content (inputBuffer (parts o1)) = request_text m p v hds @ rest" "m \<noteq> kInvalid" "v \<noteq> kUnknown"
    "CHR '' '' \<notin> set p" "CHR 0x0D \<notin> set p" "\<forall>h\<in>set hds. header_ok h"
    "r = old_http_answer (old_httpCallback hs) \<lparr>req_method = m, req_path = p, req_version = v,
      req_headers = header_map (\<lambda>_. None) hds, req_body = []\<rparr>"
    "\<not> epipe (response_text r) (upgrade o1)" "\<not> would_block (response_text r) (upgrade o1)"
  shows "\<exists>o2. old_http_onMessage hs o1 = Some (hs, o2) \<and> stream (upgrade o2) = stream (upgrade o1) @ response_text r"
proof -
  have "content (inputBuffer (upgrade o1)) = request_text m p v hds @ rest" using assms(4) by simp
  from request_parsed [OF assms(2) this assms(5-9)] obtain c b where
    b: "parseRequest context_new (inputBuffer (parts o1)) = Some (c, b, True)" "buffer_inv b"
    "request c = \<lparr>req_method = m, req_path = p, req_version = v, req_headers = header_map (\<lambda>_. None) hds, req_body = []\<rparr>" by auto
  let ?o = "o1\<lparr>parts := (parts o1)\<lparr>inputBuffer := b\<rparr>\<rparr>" and ?hs = "hs\<lparr>httpContext := c\<rparr>"
  have u: "upgrade ?o = (upgrade o1)\<lparr>inputBuffer := b\<rparr>" by (rule upgrade_input)
  have "conn_inv (upgrade ?o)" unfolding u by (rule conn_inv_input [OF assms(2) b(2)])
  moreover have "\<not> epipe (response_text r) (upgrade ?o)" "\<not> would_block (response_text r) (upgrade ?o)"
    using assms(11,12) by (simp_all add: u epipe_def would_block_def)
  moreover have "stream (upgrade ?o) = stream (upgrade o1)" by (simp add: u stream_def)
  ultimately obtain o2 where "old_http_reply True ?hs ?o = Some (?hs\<lparr>httpContext := context_new\<rparr>, o2)"
    "stream (upgrade o2) = stream (upgrade o1) @ response_text r"
    using old_reply_ok [of ?o r ?hs] assms(3,10) b(3) by auto
  with b(1) assms(1) show ?thesis by (simp add: old_http_onMessage_def old_http_parse_def)
qed

section \<open>Witnesses\<close>

definition sample_old_http :: old_http where
  "sample_old_http = \<lparr>old_tcp_server = sample_old_server, httpContext = context_new,
     old_httpCallback = (\<lambda>q r. setBody (req_path q) r)\<rparr>"

text \<open>A connection with some bytes in its input buffer.\<close>

definition sample_client :: "string \<Rightarrow> old_conn" where
  "sample_client s = (let o1 = sample_old (WAccept 1000) in
     o1\<lparr>parts := (parts o1)\<lparr>inputBuffer := the (append buffer_new s)\<rparr>\<rparr>)"

lemma sample_client_ok:
  "conn_inv (upgrade (sample_client s))" "oconnected (sample_client s)" "content (inputBuffer (parts (sample_client s))) = s"
  "buffer_inv (inputBuffer (parts (sample_client s)))" "stream (upgrade (sample_client s)) = []"
  "\<not> epipe r (upgrade (sample_client s))" "\<not> would_block r (upgrade (sample_client s))"
proof -
  let ?o = "sample_old (WAccept 1000)"
  obtain b where b: "append buffer_new s = Some b" "buffer_inv b" "content b = s"
    using append_ok [OF buffer_new_inv, of s] by auto
  then have c: "sample_client s = ?o\<lparr>parts := (parts ?o)\<lparr>inputBuffer := b\<rparr>\<rparr>" by (simp add: sample_client_def Let_def)
  show "conn_inv (upgrade (sample_client s))"
    unfolding c upgrade_input by (rule conn_inv_input [OF sample_old_inv(1) b(2)])
  show "oconnected (sample_client s)" "content (inputBuffer (parts (sample_client s))) = s"
    "buffer_inv (inputBuffer (parts (sample_client s)))" by (simp_all add: c b sample_old_def)
  show "stream (upgrade (sample_client s)) = []" using sample_old_inv(2) [of "WAccept 1000"] by (simp add: c upgrade_input stream_def)
  have "kwrite r (sock (parts ?o)) = ((sock (parts ?o))\<lparr>sent := take 1000 r, wscript := []\<rparr>, Inr (min 1000 (length r)))"
    by (simp add: kwrite_def sample_old_def sample_tcp_def)
  then show "\<not> epipe r (upgrade (sample_client s))" "\<not> would_block r (upgrade (sample_client s))"
    by (simp_all add: c upgrade_input epipe_def would_block_def)
qed

theorem old_http_shared_context_crosses_witness:
  "\<exists>hs1 a1 hs2 b1 hs3 b2. old_http_parse sample_old_http (sample_client (''GET /secret HTTP/1.1'' @ kCRLF)) = Some (hs1, a1, True)
    \<and> old_http_parse hs1 (sample_client (''GET / HTTP/1.1'' @ kCRLF @ [])) = Some (hs2, b1, True)
    \<and> old_http_reply True hs2 b1 = Some (hs3, b2)
    \<and> stream (upgrade b2) = response_text (setBody ''/secret'' (response_new False kHttp11))"
proof -
  have c: "content (inputBuffer (parts (sample_client (''GET /secret HTTP/1.1'' @ kCRLF))))
      = methodToString kGet @ '' '' @ ''/secret'' @ '' '' @ version_text kHttp11 @ kCRLF"
    unfolding sample_client_ok(3) by simp
  have s: "httpContext sample_old_http = context_new" by (simp add: sample_old_http_def)
  have n: "CHR '' '' \<notin> set ''/secret''" "CHR 0x0D \<notin> set ''/secret''" "CHR '':'' \<notin> set ''GET / HTTP/1.1''"
    "CHR 0x0D \<notin> set ''GET / HTTP/1.1''" by simp_all
  have r: "old_http_answer (old_httpCallback sample_old_http)
      \<lparr>req_method = kGet, req_path = ''/secret'', req_version = kHttp11, req_headers = (\<lambda>_. None), req_body = []\<rparr>
    = setBody ''/secret'' (response_new False kHttp11)"
    by (simp add: old_http_answer_def sample_old_http_def header_def)
  from old_http_shared_context_crosses [where rest = "[]", OF s sample_client_ok(4) c _ _ n(1,2) sample_client_ok(1,2,3) n(3,4) refl sample_client_ok(6,7)]
  obtain hs1 a1 hs2 b1 hs3 b2 where
    "old_http_parse sample_old_http (sample_client (''GET /secret HTTP/1.1'' @ kCRLF)) = Some (hs1, a1, True)"
    "old_http_parse hs1 (sample_client (''GET / HTTP/1.1'' @ kCRLF @ [])) = Some (hs2, b1, True)"
    "old_http_reply True hs2 b1 = Some (hs3, b2)"
    "stream (upgrade b2) = [] @ response_text (setBody ''/secret'' (response_new False kHttp11))"
    unfolding r sample_client_ok(5) by blast
  then show ?thesis unfolding append_Nil by blast
qed

end
