(* ===== verification/OldLogging.thy ===== *)
theory OldLogging
  imports Logging
begin

text \<open>
  \<open>old-version/webserver/base/Logging.h\<close>, \<open>Logging.cc\<close> and the constructor in \<open>AsyncLogging.cc\<close>: the log
  statement before there were levels. Every statement is formatted and written; in place of the level
  stands an arrow. \<open>formatTime\<close> and \<open>finish\<close> have the same text in both versions, and so has the rest of
  \<open>AsyncLogging\<close> but for the wording of a message.

  The state is that of \<open>Logging\<close>, whose level nothing here reads or changes.
\<close>

(* src/old-version/webserver/base/Logging.cc:23-24 detail::g_output *)
definition old_log_globals_new :: log_globals where
  "old_log_globals_new = \<lparr>logLevel = DEBUG, g_output = 0, g_flush = Some 0, outputs = [], flushes = [],
     alog = singleton_new\<rparr>"

(* src/old-version/webserver/base/Logging.cc:116-116 Logger::setOutput *)
definition old_setOutput :: "nat \<Rightarrow> log_globals \<Rightarrow> log_globals" where
  "old_setOutput f g = g\<lparr>g_output := f\<rparr>"

(* src/old-version/webserver/base/Logging.cc:118-118 Logger::setFlush *)
definition old_setFlush :: "nat option \<Rightarrow> log_globals \<Rightarrow> log_globals" where
  "old_setFlush f g = g\<lparr>g_flush := f\<rparr>"

(* src/old-version/webserver/base/Logging.cc:46-62 Logger::Impl::Impl *)
definition old_impl_new ::
  "(int \<Rightarrow> string) \<Rightarrow> int \<times> int \<Rightarrow> int \<Rightarrow> time_cache \<times> thread_vars \<Rightarrow> string \<Rightarrow> 32 word \<Rightarrow>
    ((time_cache \<times> thread_vars) \<times> impl) option" where
  "old_impl_new strf tv gettid tls file lno = do {
     let i0 = \<lparr>stream = log_stream_new, line = lno, impl_basename = base_name file\<rparr>;
     (c1, i1) \<leftarrow> formatTime strf tv (fst tls) i0;
     (v1, tid) \<leftarrow> tidString gettid (snd tls);
     s2 \<leftarrow> put_cstr (stream i1) (Some (tid @ [CHR 0x00]));
     s3 \<leftarrow> put_cstr s2 (Some (''>>>'' @ [CHR 0x00]));
     Some ((c1, v1), i1\<lparr>stream := s3\<rparr>)
   }"

text \<open>A null flush function is called all the same.\<close>

(* src/old-version/webserver/base/Logging.cc:99-114 Logger::~Logger *)
definition old_logger_delete :: "async \<Rightarrow> bool \<Rightarrow> impl \<Rightarrow> log_globals \<Rightarrow> log_globals option" where
  "old_logger_delete fresh isAsync i g = do {
     i1 \<leftarrow> impl_finish i;
     let msg = take (nat (fb_length (stream i1))) (written (stream i1));
     if isAsync then do {
       (sing, a) \<leftarrow> singleton_instance fresh (alog g);
       a1 \<leftarrow> async_append a msg;
       Some (g\<lparr>alog := sing\<lparr>s_value := Alive a1\<rparr>\<rparr>)
     } else do {
       let g1 = g\<lparr>outputs := outputs g @ [(g_output g, msg)]\<rparr>;
       f \<leftarrow> g_flush g1;
       Some (g1\<lparr>flushes := flushes g1 @ [f]\<rparr>)
     }
   }"

text \<open>A statement \<open>SYNC_LOG << x << y\<close> or \<open>ASYNC_LOG << x << y\<close>.\<close>

(* src/old-version/webserver/base/Logging.h:47-48 ASYNC_LOG *)
definition old_log_statement ::
  "log_env \<Rightarrow> string \<Rightarrow> 32 word \<Rightarrow> bool \<Rightarrow> item list \<Rightarrow> (time_cache \<times> thread_vars) \<times> log_globals
    \<Rightarrow> ((time_cache \<times> thread_vars) \<times> log_globals) option" where
  "old_log_statement e file lno isAsync xs st =
     (case st of (tls, g) \<Rightarrow> do {
        (tl1, i) \<leftarrow> old_impl_new (env_strf e) (env_tv e) (env_gettid e) tls file lno;
        s \<leftarrow> puts (stream i) xs;
        g1 \<leftarrow> old_logger_delete (env_fresh e) isAsync (i\<lparr>stream := s\<rparr>) g;
        Some (tl1, g1)
      })"

text \<open>Created without a name, by the singleton, the log starts at once.\<close>

(* src/old-version/webserver/base/AsyncLogging.cc:12-35 AsyncLogging::AsyncLogging *)
definition old_async_new :: "string \<Rightarrow> nat \<Rightarrow> async" where
  "old_async_new base roll =
     (let a = \<lparr>running = False, a_basename = base, a_rollSize = roll,
        currentBuffer = Some (fb_bzero (fb_new kLargeBuffer)),
        nextBuffer = Some (fb_bzero (fb_new kLargeBuffer)), fullBuffers = [], pc = Finished,
        newBuffer1 = None, newBuffer2 = None, buffersToWrite = [], log_calls = []\<rparr>
      in if base = [] then async_start (a\<lparr>a_basename := ''async_log''\<rparr>) else a)"

lemma old_log_statement_line:
  assumes "env_ok e" "thread_ok e tls" "line_fits file xs"
  shows "\<exists>tls' i. thread_ok e tls' \<and> old_log_statement e file lno isAsync xs (tls, g) =
      (old_logger_delete (env_fresh e) isAsync i g \<bind> (\<lambda>g1. Some (tls', g1)))
    \<and> impl_finish i = Some (i\<lparr>stream := log_stream_new\<lparr>written := the_line e file lno ''>>>'' xs\<rparr>\<rparr>)"
proof -
  obtain c v where tls: "tls = (c, v)" by (cases tls)
  have t: "tag_ok ''>>>''" by (simp add: tag_ok_def)
  let ?pre = "[cstr_item (env_strf e (fst (env_tv e))), cstr_item (''.'' @ zero_pad 6 (nat (snd (env_tv e))) @ '' ''),
        cstr_item (blank_pad 5 (show_int (env_gettid e)) @ '' ''), cstr_item ''>>>'']"
  let ?post = "[cstr_item '' - '', IStr (base_name file), IChar (CHR '':''), IInt lno, IChar (CHR 0x0A)]"
  have e: "fst (env_tv e) \<noteq> 0" "length (env_strf e (fst (env_tv e))) < 32" "0 \<le> snd (env_tv e)"
    "snd (env_tv e) < 1000000" "0 < env_gettid e" "env_gettid e < 100000"
    using assms(1) by (simp_all add: env_ok_def)
  have tok: "cache_ok (env_strf e) c" "tid_ok (env_gettid e) v" using assms(2) tls by (simp_all add: thread_ok_def)
  from tidString_ok [OF tok(2) e(5,6)] obtain v' where v':
    "tidString (env_gettid e) v = Some (v', blank_pad 5 (show_int (env_gettid e)) @ '' '')" "tid_ok (env_gettid e) v'" by blast
  let ?tls' = "(\<lparr>t_time = env_strf e (fst (env_tv e)), t_lastCache = fst (env_tv e)\<rparr>, v')"
  have impl: "old_impl_new (env_strf e) (env_tv e) (env_gettid e) (c, v) file lno = do {
      s \<leftarrow> puts log_stream_new ?pre; Some (?tls', \<lparr>stream = s, line = lno, impl_basename = base_name file\<rparr>) }"
    using v'(1) formatTime_ok [of "env_strf e" c "env_tv e", OF tok(1) e(1-4)]
    by (simp add: old_impl_new_def bind_assoc cstr_item_def)
  have "puts log_stream_new (?pre @ xs @ ?post) = Some (log_stream_new\<lparr>written := the_line e file lno ''>>>'' xs\<rparr>)"
    using puts_line(1) [OF assms(1) t assms(3)] by (simp only: line_items_def)
  then obtain s1 s2 where s: "puts log_stream_new ?pre = Some s1" "puts s1 xs = Some s2"
    "puts s2 ?post = Some (log_stream_new\<lparr>written := the_line e file lno ''>>>'' xs\<rparr>)"
    unfolding puts_append bind_Some_iff by blast
  let ?i = "\<lparr>stream = s2, line = lno, impl_basename = base_name file\<rparr>"
  have "thread_ok e ?tls'" using v'(2) by (simp add: thread_ok_def cache_ok_def)
  moreover have "old_log_statement e file lno isAsync xs (tls, g) =
      (old_logger_delete (env_fresh e) isAsync ?i g \<bind> (\<lambda>g1. Some (?tls', g1)))"
    unfolding old_log_statement_def tls prod.case impl s(1) using s(2) by simp
  moreover have "impl_finish ?i = Some (?i\<lparr>stream := log_stream_new\<lparr>written := the_line e file lno ''>>>'' xs\<rparr>\<rparr>)"
    unfolding impl_finish_eq using s(3) by simp
  ultimately show ?thesis by blast
qed

text \<open>
  A synchronous statement whose line fits writes that line and flushes; but when the flush function was
  set to null, which the later version takes for none, the process stops.
\<close>
theorem old_log_writes_line:
  assumes "env_ok e" "thread_ok e tls" "line_fits file xs"
  shows "(\<forall>f. g_flush g = Some f \<longrightarrow> (\<exists>tls'. thread_ok e tls' \<and> old_log_statement e file lno False xs (tls, g) = Some (tls',
      g\<lparr>outputs := outputs g @ [(g_output g, the_line e file lno ''>>>'' xs)], flushes := flushes g @ [f]\<rparr>)))
    \<and> (g_flush g = None \<longrightarrow> old_log_statement e file lno False xs (tls, g) = None)"
proof -
  have t: "tag_ok ''>>>''" by (simp add: tag_ok_def)
  from old_log_statement_line [OF assms, of lno False g] obtain tls' i where s: "thread_ok e tls'"
    "old_log_statement e file lno False xs (tls, g) = (old_logger_delete (env_fresh e) False i g \<bind> (\<lambda>g1. Some (tls', g1)))"
    "impl_finish i = Some (i\<lparr>stream := log_stream_new\<lparr>written := the_line e file lno ''>>>'' xs\<rparr>\<rparr>)" by blast
  have "old_logger_delete (env_fresh e) False i g = do {
      f \<leftarrow> g_flush g;
      Some (g\<lparr>outputs := outputs g @ [(g_output g, the_line e file lno ''>>>'' xs)], flushes := flushes g @ [f]\<rparr>) }"
    using s(3) small_line_whole [OF puts_line(2) [OF assms(1) t assms(3)]]
    by (simp add: old_logger_delete_def Let_def)
  with s(2) have e: "old_log_statement e file lno False xs (tls, g) = do {
      f \<leftarrow> g_flush g;
      Some (tls', g\<lparr>outputs := outputs g @ [(g_output g, the_line e file lno ''>>>'' xs)], flushes := flushes g @ [f]\<rparr>) }"
    by (simp add: bind_assoc)
  show ?thesis unfolding e using s(1) by (intro conjI allI impI exI [of _ tls']) simp_all
qed

text \<open>The two constructors of the asynchronous log differ in whether it runs.\<close>

lemma old_async_new_as_new:
  "old_async_new [] roll = async_new ''async_log'' roll" "base \<noteq> [] \<Longrightarrow> async_start (old_async_new base roll) = async_new base roll"
  by (simp_all add: old_async_new_def async_new_def)

theorem old_log_writes_line_witness:
  "old_log_statement sample_env ''src/a.cc'' 3 False [IStr ''hi''] ((time_cache_new, thread_vars_new), old_setFlush None old_log_globals_new)
    = None"
  using old_log_writes_line [OF sample_env_ok sample_thread_ok sample_fits, of "old_setFlush None old_log_globals_new" 3]
  by (simp add: old_setFlush_def)

end
