(* ===== verification/Spec2Isabelle.thy ===== *)
theory Spec2Isabelle
  imports Buffer Timestamp TimerQueue LogStream LogFile AsyncLogging Sync ThreadPool Logging Channel
    EpollPoller EventLoop LoopTimers Reactor EventLoopPool InetAddress TcpConnection ConnectionEvents SendOrder EchoServer
    TcpServer TcpClient ThreadContexts HttpContext HttpServer HttpSession HttpTraffic TimeServer Serializer RpcServer RpcClient RpcSession RpcDemo
    OldTimerQueue OldTcpConnection OldTcpServer OldHttpServer OldLogging
begin

text \<open>
  A verification development for \<open>matelib\<close>, a C++ network library in the reactor style with one event
  loop per thread, and for the HTTP and RPC servers built on it.

  \<^bold>\<open>The program.\<close> An \<open>EventLoop\<close> polls with an \<open>EpollPoller\<close>, dispatches the active \<open>Channel\<close>s (one per
  descriptor), then runs the functors queued for it; its \<open>TimerQueue\<close> is one of its channels. Other
  threads reach a loop only by queueing functors and writing to its wakeup descriptor. A
  \<open>TcpConnection\<close> owns a channel and two \<open>Buffer\<close>s; a \<open>TcpServer\<close> accepts in the base loop and deals its
  connections to the loops of an \<open>EventLoopThreadPool\<close>; a \<open>TcpClient\<close> has one connection. \<open>HttpServer\<close> and
  \<open>RpcServer\<close> hang a message callback on a \<open>TcpServer\<close> and keep one parser or serializer per thread.
  Log statements go to a \<open>LogFile\<close>, directly or through the two buffers of \<open>AsyncLogging\<close>.

  \<^bold>\<open>Theories and sources\<close> (paths under \<open>src/\<close>; definitions keep the names of the functions they
  translate, and a comment before each names its lines):

  \<^item> \<open>Prelude\<close>: assertions and errors, machine integers, vectors, searching and number printing, and the
    locale \<open>transition_system\<close> (reachability and invariants), interpreted for each step relation.
  \<^item> \<open>Buffer\<close>: \<open>matelib/Buffer.h\<close>, \<open>Buffer.cc\<close>, \<open>StringPiece.h\<close>. \<open>content\<close> abstracts a buffer to its
    readable bytes; the locale \<open>byte_queue\<close> is the contract its users rely on.
  \<^item> \<open>Timestamp\<close>, \<open>TimerQueue\<close>: \<open>base/Timestamp\<close>, \<open>Timer.h\<close>, \<open>TimerQueue\<close>. Timers live in an explicit heap, so
    that a use after \<open>delete\<close> or a second one is an error value.
    \<open>LoopTimers\<close> puts the queue into its loop, among other threads.
  \<^item> \<open>LogStream\<close>, \<open>LogFile\<close>, \<open>AsyncLogging\<close>, \<open>Logging\<close>: the files of these names in \<open>base/\<close>. The step relation
    of \<open>AsyncLogging\<close> interleaves appends with the consumer at their critical sections.
  \<^item> \<open>Sync\<close>, \<open>ThreadPool\<close>: mutex, condition, latch, thread, singleton, thread-local values and the pool of
    \<open>base/\<close>, as step relations over the waiting threads.
  \<^item> \<open>Channel\<close>, \<open>EpollPoller\<close>, \<open>EventLoop\<close>, \<open>Reactor\<close>, \<open>EventLoopPool\<close>: the reactor. The state of a loop is one record,
    extended by each theory; the kernel's interest list is part of it. \<open>event_registry\<close> is the contract
    between a channel's owner and the poller. \<open>Reactor\<close> has the calls of many channels on one poller.
  \<^item> \<open>InetAddress\<close>, \<open>TcpConnection\<close>, \<open>TcpServer\<close>, \<open>TcpClient\<close>: addresses, one connection in its loop, the server
    over many connections in many loops, the client with its retries. \<open>TcpServer\<close> is proved once over the
    locale \<open>connection_class\<close> (what it needs of a connection) and interpreted on \<open>TcpConnection\<close>.
    \<open>SendOrder\<close> follows one connection through sends and closings from several threads, \<open>ConnectionEvents\<close>
    through the reports of its poller: dispatch by the channel, handlers and the user's callbacks together.
    \<open>EchoServer\<close> has the callbacks of \<open>matelib/tests/TcpServer_test.cc\<close>.
  \<^item> \<open>ThreadContexts\<close>, \<open>HttpContext\<close>, \<open>HttpServer\<close>, \<open>HttpSession\<close>, \<open>HttpTraffic\<close>: \<open>http/\<close>. The parser is a \<open>partial_function\<close> over the
    \<open>while\<close> loop of \<open>parseRequest\<close>, shown to end on every input. The sessions of \<open>HttpSession\<close> are those
    of well-formed requests, the traffic of \<open>HttpTraffic\<close> is any bytes in any pieces. \<open>TimeServer\<close> is the server of
    \<open>http/HttpServer_test.cc\<close>.
  \<^item> \<open>Serializer\<close>, \<open>RpcServer\<close>, \<open>RpcClient\<close>, \<open>RpcSession\<close>, \<open>RpcDemo\<close>: \<open>rpc/\<close>. The templates range over a universe of scalars and strings;
    \<open>wire_format\<close> is the contract of packing and unpacking, \<open>rpc_handler\<close> that of a bound function's proxy.
    \<open>RpcDemo\<close> has the programs of \<open>rpc/RpcServer_test.cc\<close> and \<open>rpc/RpcClient_test.cc\<close>.
  \<^item> \<open>OldTimerQueue\<close>, \<open>OldTcpConnection\<close>, \<open>OldTcpServer\<close>, \<open>OldHttpServer\<close>, \<open>OldLogging\<close>: the first version, in
    \<open>old-version/webserver/\<close>, where its code differs from the later one. Its connection keeps two flags in
    place of the state, its server is proved over the locale \<open>old_connection_class\<close>, its HTTP server has one
    parser for all threads, its log has no levels.

  \<^bold>\<open>What the lemmas show.\<close> Each theory has an invariant (\<open>buffer_inv\<close>, \<open>tq_owns\<close>, \<open>poller_inv\<close>,
  \<open>conn_inv\<close>, ...) that every operation keeps, and laws for the operations on every branch. The results
  that span components: a buffer is a queue of bytes, the asynchronous log a queue of records, up to what
  it says it discards; no timer is used after it is freed, nor, unless timers repeat, slept through, whatever
  other threads do; the channels, the poller's map and the kernel's
  interest list agree, and channels that share a poller do not disturb one another; no queued functor is lost or waits for an event that does not come; the bytes sent
  on a connection are the bytes handed to the kernel followed by those buffered, in order; a connection
  survives any events its poller reports, is established, closed and destroyed once, in the server's map exactly as long as it is established;
  a server in any reachable state, with any order of accepted connections, events and functors, passes
  its assertions; a client's retries end; a printed HTTP request is read back, whole or in pieces; requests on
  a connection are answered in order, each once, until an answer closes it, and no input, well-formed or not,
  stops the server; sends from several threads reach the stream in each thread's order; the arguments an
  RPC unpacks have the types of the bound function, and a session of RPCs gives the caller what running
  the bound functions one after the other gives. Of the test programs, the TCP server sends what it
  received, the HTTP server its pages with their headers, and the RPC client gets what the RPC server's functions give. The first version's connection sends as the later one
  does but for one error, and its server's connections have the same life.

  \<^bold>\<open>Conventions.\<close> \<open>None\<close> (or a value of an error type) is a process that stops: an assertion (the build
  does not define \<open>NDEBUG\<close>), \<open>abort\<close>, an exception nobody catches, or undefined behaviour. System calls
  are inputs of the definitions that use them: what \<open>accept\<close>, \<open>connect\<close>, \<open>readv\<close>, \<open>write\<close>, \<open>epoll_wait\<close>
  and the clock return. Integers that wrap or are cut are written out (\<open>to_int32\<close>, \<open>to_uint16\<close>, words);
  sizes are taken to stay below the address space. Memory is allocated without failure. The user's
  callbacks are parameters, assumed to return and to keep the connection's invariant (\<open>hooks_ok\<close>,
  \<open>cli_hooks_ok\<close>, \<open>well_behaved\<close>).

  \<^bold>\<open>Bounds.\<close> \<open>extrabuf_size\<close> is the 64 KiB that \<open>readv\<close> may deliver beyond a buffer's free space. A
  server's connection names are distinct for the \<open>2\<^sup>3\<^sup>2\<close> connections after which its counter wraps. The
  retries of the TCP client (ten, the delays doubling up to 32 s) and of the RPC client (ten, 1 to 10 s) are
  those of the code. No fuel is used: loops are structural, measured, or shown to return.

  \<^bold>\<open>Not modelled.\<close> \<open>matelib/callbacks.h\<close>, \<open>base/copyable.h\<close>, \<open>base/noncopyable.h\<close> declare types only. Test
  programs but for those four, demos and build files. The files of \<open>old-version/\<close> that no theory names have the text of the
  later ones but for comments, names, log statements and messages, lack some functions those add, and
  measure strings by an \<open>int\<close>.
  \<open>dns/\<close> holds a build file only. Formatting of floating-point numbers (the text \<open>snprintf\<close> makes is an argument),
  time zones, the weak memory of the hardware: steps interleave at locks and system calls.

  \<^bold>\<open>Where the code differs from its intent.\<close> The theories state, as theorems, the defects that came up:
  a repeating timer restarted with its old key (\<open>TimerQueue\<close>), which delays the others, and timers that leak
  with a destroyed loop (\<open>LoopTimers\<close>); records appended just before \<open>stop\<close> lost
  (\<open>AsyncLogging\<close>); thread numbers of six digits (\<open>Sync\<close>); restarting a pool (\<open>ThreadPool\<close>);
  \<open>disableAll\<close> twice (\<open>EpollPoller\<close>); destroying a loop thread or a server early (\<open>EventLoopPool\<close>,
  \<open>TcpConnection\<close>, \<open>TcpServer\<close>); a failed client's second \<open>close\<close> (\<open>TcpClient\<close>); answers to requests that
  have not arrived and the status line's missing space (\<open>HttpServer\<close>); RPC messages without frames,
  which stop the server, lose calls or yield garbage values (\<open>RpcServer\<close>, \<open>RpcClient\<close>), and
  strings cut at 16 bits (\<open>Serializer\<close>); a shutdown that overtakes a send still queued (\<open>SendOrder\<close>); the rest of a
  refused HTTP request left in the parser (\<open>HttpTraffic\<close>); bytes of the stack served after a page
  (\<open>TimeServer\<close>). Those of the first version: a message dropped
  when the kernel would block and a connection destroyed with output pending (\<open>OldTcpConnection\<close>), requests of
  two connections mixed in one parser (\<open>OldHttpServer\<close>), a null flush function called (\<open>OldLogging\<close>), and
  a read past the end of the set of timers (\<open>OldTimerQueue\<close>).
\<close>

end
